(* ===== verification/Go_Prelude.thy ===== *)
theory Go_Prelude
  imports Main "HOL-Library.Word" "HOL-Library.AList" "HOL-Library.Multiset"
begin

text \<open>
  The parts of Go and of its standard library that the program uses, and the lemmas the
  components share.

  \<^item> A \<open>string\<close> and a \<open>[]byte\<close> of Go are both sequences of bytes; both are a list of
    (8-bit) characters here, so that the conversions \<open>string(b)\<close> and \<open>[]byte(s)\<close> are the
    identity. A nil slice and an empty one are not distinguished.
  \<^item> \<open>time.Time\<close> is a number of nanoseconds since Go's zero time, so that \<open>t.IsZero()\<close>
    is \<open>t = 0\<close>.
  \<^item> A Go map is an association list with distinct keys; a \<open>range\<close> over it visits its
    entries in an order the runtime chooses, which the definitions take as an argument.
  \<^item> A call returns a value or an error, panics, or does not return: the type \<open>outcome\<close>.
    State is passed explicitly: an operation takes the state and gives the new state with
    its outcome, and \<open>on_ok\<close> is the code's \<open>if err != nil { return err }\<close>.
\<close>

named_theorems store_ops \<open>definitions of the operations of the in-process store\<close>

type_synonym bytes = "char list"
type_synonym time = int
type_synonym duration = int
type_synonym uint32 = "32 word"
type_synonym int64 = "64 word"
type_synonym ('k, 'v) gomap = "('k \<times> 'v) list"

section \<open>Errors\<close>

text \<open>
  An \<open>error\<close> value: a string made by \<open>errors.New\<close> or \<open>fmt.Errorf\<close>, a wrapped error (the
  \<open>%w\<close> verb, with the text before it), a sentinel the program compares with, or an error
  of a package or service outside the repository.
\<close>

datatype go_error =
    ErrorString string
  | Wrapped string go_error
  | ContextCanceled
  | DeadlineExceeded
  | ErrNotFound
  | InMemoryErrNotFound
  | RedisNil
  | NatsErrKeyNotFound
  | External string

fun error_string :: "go_error \<Rightarrow> string" where
  "error_string (ErrorString s) = s"
| "error_string (Wrapped s e) = s @ error_string e"
| "error_string ContextCanceled = ''context canceled''"
| "error_string DeadlineExceeded = ''context deadline exceeded''"
| "error_string ErrNotFound = ''result not found''"
| "error_string InMemoryErrNotFound = ''could not find result in in-memory store''"
| "error_string RedisNil = ''redis: nil''"
| "error_string NatsErrKeyNotFound = ''nats: key not found''"
| "error_string (External s) = s"

text \<open>\<open>errors.Is\<close>: the error or one it wraps is the target.\<close>

fun errors_is :: "go_error \<Rightarrow> go_error \<Rightarrow> bool" where
  "errors_is (Wrapped s e) target = (Wrapped s e = target \<or> errors_is e target)"
| "errors_is e target = (e = target)"

lemma errors_is_refl [simp]: "errors_is e e"
  by (cases e) simp_all

section \<open>Outcomes of calls\<close>

datatype 'a outcome = Ok 'a | Err go_error | Panic | Diverge

definition on_ok :: "'w \<times> 'a outcome \<Rightarrow> ('w \<Rightarrow> 'a \<Rightarrow> 'w \<times> 'b outcome) \<Rightarrow> 'w \<times> 'b outcome" where
  "on_ok m k = (case m of
     (w, Ok x) \<Rightarrow> k w x
   | (w, Err e) \<Rightarrow> (w, Err e)
   | (w, Panic) \<Rightarrow> (w, Panic)
   | (w, Diverge) \<Rightarrow> (w, Diverge))"

definition wrap_err :: "string \<Rightarrow> 'w \<times> 'a outcome \<Rightarrow> 'w \<times> 'a outcome" where
  "wrap_err s m = (case m of (w, Err e) \<Rightarrow> (w, Err (Wrapped s e)) | _ \<Rightarrow> m)"

definition of_sum :: "go_error + 'a \<Rightarrow> 'a outcome" where
  "of_sum x = (case x of Inl e \<Rightarrow> Err e | Inr y \<Rightarrow> Ok y)"

text \<open>The same for calls that only read the state.\<close>

definition bind_ok :: "'a outcome \<Rightarrow> ('a \<Rightarrow> 'b outcome) \<Rightarrow> 'b outcome" where
  "bind_ok m k = (case m of Ok x \<Rightarrow> k x | Err e \<Rightarrow> Err e | Panic \<Rightarrow> Panic | Diverge \<Rightarrow> Diverge)"

lemma bind_ok_simps [simp]:
  "bind_ok (Ok x) k = k x" "bind_ok (Err e) k = Err e"
  "bind_ok Panic k = Panic" "bind_ok Diverge k = Diverge"
  by (simp_all add: bind_ok_def)

lemma on_ok_simps [simp]:
  "on_ok (w, Ok x) k = k w x"
  "on_ok (w, Err e) k = (w, Err e)"
  "on_ok (w, Panic) k = (w, Panic)"
  "on_ok (w, Diverge) k = (w, Diverge)"
  by (simp_all add: on_ok_def)

lemma wrap_err_simps [simp]:
  "wrap_err s (w, Ok x) = (w, Ok x)"
  "wrap_err s (w, Err e) = (w, Err (Wrapped s e))"
  "wrap_err s (w, Panic) = (w, Panic)"
  "wrap_err s (w, Diverge) = (w, Diverge)"
  by (simp_all add: wrap_err_def)

lemma of_sum_simps [simp]: "of_sum (Inl e) = Err e" "of_sum (Inr y) = Ok y"
  by (simp_all add: of_sum_def)

lemma of_sum_eq_Ok [simp]: "of_sum x = Ok y \<longleftrightarrow> x = Inr y"
  by (cases x) simp_all

lemma of_sum_eq_Err [simp]: "of_sum x = Err e \<longleftrightarrow> x = Inl e"
  by (cases x) simp_all

lemma wrap_err_eq_Ok [simp]: "wrap_err s m = (w, Ok x) \<longleftrightarrow> m = (w, Ok x)"
  by (simp add: wrap_err_def split: prod.splits outcome.splits)

lemma fst_wrap_err [simp]: "fst (wrap_err s m) = fst m"
  by (simp add: wrap_err_def split: prod.splits outcome.splits)

lemma on_ok_eq_Ok:
  "on_ok m k = (w', Ok y) \<longleftrightarrow> (\<exists>w x. m = (w, Ok x) \<and> k w x = (w', Ok y))"
  by (auto simp: on_ok_def split: prod.splits outcome.splits)

lemma on_ok_assoc: "on_ok (on_ok m k) l = on_ok m (\<lambda>w x. on_ok (k w x) l)"
  by (auto simp: on_ok_def split: prod.splits outcome.splits)

section \<open>The verb \<open>%d\<close> of \<open>fmt\<close>\<close>

fun decimal :: "nat \<Rightarrow> string" where
  "decimal n =
     (if n < 10 then [char_of (48 + n)] else decimal (n div 10) @ [char_of (48 + n mod 10)])"

declare decimal.simps [simp del]

section \<open>Signed 64-bit integers\<close>

lemma sint_add_int64:
  fixes a b :: int64
  assumes "- (2 ^ 63) \<le> sint a + sint b" "sint a + sint b < 2 ^ 63"
  shows "sint (a + b) = sint a + sint b"
  using assms by (simp add: sint_word_ariths signed_take_bit_int_eq_self)

lemma sint_diff_int64:
  fixes a b :: int64
  assumes "- (2 ^ 63) \<le> sint a - sint b" "sint a - sint b < 2 ^ 63"
  shows "sint (a - b) = sint a - sint b"
  using assms by (simp add: sint_word_ariths signed_take_bit_int_eq_self)

lemma sint_of_nat_int64: "n < 2 ^ 63 \<Longrightarrow> sint (of_nat n :: int64) = int n"
  by (simp add: signed_of_nat signed_take_bit_int_eq_self)

section \<open>Go maps\<close>

definition range_of :: "('a list \<Rightarrow> 'a list) \<Rightarrow> bool" where
  "range_of ord \<longleftrightarrow> (\<forall>xs. mset (ord xs) = mset xs)"

text \<open>\<open>range_of ord\<close>: the order in which a \<open>range\<close> visits a map is some permutation.\<close>

lemma range_of_id [simp]: "range_of (\<lambda>xs. xs)"
  by (simp add: range_of_def)

lemma range_of_rev [simp]: "range_of rev"
  by (simp add: range_of_def)

lemma range_of_set: "range_of ord \<Longrightarrow> set (ord xs) = set xs"
  by (metis range_of_def mset_eq_setD)

lemma range_of_length: "range_of ord \<Longrightarrow> length (ord xs) = length xs"
  by (metis range_of_def mset_eq_length)

lemma map_of_update [simp]: "map_of (AList.update k v m) = (map_of m)(k \<mapsto> v)"
  by (rule update_conv')

lemma map_of_delete [simp]: "map_of (AList.delete k m) = (map_of m)(k := None)"
  by (rule delete_conv')

end
