(* ===== verification/Tasqueue_Types.thy ===== *)
theory Tasqueue_Types
  imports Go_Prelude
begin

text \<open>
  The data of the program: the job, chain and group types of \<open>jobs.go\<close>, \<open>chains.go\<close> and
  \<open>groups.go\<close>, the statuses and \<open>TaskInfo\<close> of \<open>server.go\<close>. A struct is a record (a field
  name that two structs share carries a prefix in one of them); embedding is record
  extension, so a job message is a meta record with one more field. A job is recursive
  (\<open>OnSuccess\<close> and \<open>OnError\<close> hold jobs) and so a datatype; the pointers of these lists are
  represented by the jobs they point to. The theory \<open>Chain_Heap\<close> treats the one place
  where the code builds jobs through shared pointers.
\<close>

section \<open>Statuses and constants\<close>

definition StatusStarted :: string where "StatusStarted = ''queued''"
definition StatusProcessing :: string where "StatusProcessing = ''processing''"
definition StatusFailed :: string where "StatusFailed = ''failed''"
definition StatusDone :: string where "StatusDone = ''successful''"
definition StatusRetrying :: string where "StatusRetrying = ''retrying''"

lemmas status_defs =
  StatusStarted_def StatusProcessing_def StatusFailed_def StatusDone_def StatusRetrying_def

definition DefaultQueue :: string where "DefaultQueue = ''tasqueue:tasks''"

definition jobPrefix :: string where "jobPrefix = ''job:msg:''"
definition chainPrefix :: string where "chainPrefix = ''chain:msg:''"
definition groupPrefix :: string where "groupPrefix = ''group:msg:''"

lemma prefix_neq [simp]:
  "jobPrefix \<noteq> []" "chainPrefix \<noteq> []" "groupPrefix \<noteq> []"
  "jobPrefix @ k \<noteq> chainPrefix @ l" "chainPrefix @ l \<noteq> jobPrefix @ k"
  "jobPrefix @ k \<noteq> groupPrefix @ l" "groupPrefix @ l \<noteq> jobPrefix @ k"
  "chainPrefix @ k \<noteq> groupPrefix @ l" "groupPrefix @ l \<noteq> chainPrefix @ k"
  by (simp_all add: jobPrefix_def chainPrefix_def groupPrefix_def)

section \<open>Jobs\<close>

record job_opts =
  OptID :: string
  ETA :: time
  OptQueue :: string
  MaxRetries :: uint32
  OptSchedule :: string
  Timeout :: duration

datatype job = Job
  (OnSuccess: "job list")
  (Task: string)
  (Payload: bytes)
  (OnError: "job list")
  (Opts: job_opts)

record meta =
  ID :: string
  OnSuccessIDs :: "string list"
  Status :: string
  Queue :: string
  Schedule :: string
  MaxRetry :: uint32
  Retried :: uint32
  PrevErr :: string
  ProcessedAt :: time
  PrevJobResult :: bytes

record job_message = meta +
  MsgJob :: "job option"

text \<open>\<open>JobCtx\<close> without its context and its (unexported) store, which is part of the state.\<close>

record job_ctx =
  Meta :: meta

definition with_OnSuccess :: "job list \<Rightarrow> job \<Rightarrow> job" where
  "with_OnSuccess js j = Job js (Task j) (Payload j) (OnError j) (Opts j)"

definition with_Opts :: "job_opts \<Rightarrow> job \<Rightarrow> job" where
  "with_Opts opts j = Job (OnSuccess j) (Task j) (Payload j) (OnError j) opts"

lemma with_job_sel [simp]:
  "OnSuccess (with_OnSuccess js j) = js" "Task (with_OnSuccess js j) = Task j"
  "Payload (with_OnSuccess js j) = Payload j" "OnError (with_OnSuccess js j) = OnError j"
  "Opts (with_OnSuccess js j) = Opts j"
  "OnSuccess (with_Opts opts j) = OnSuccess j" "Task (with_Opts opts j) = Task j"
  "Payload (with_Opts opts j) = Payload j" "OnError (with_Opts opts j) = OnError j"
  "Opts (with_Opts opts j) = opts"
  by (simp_all add: with_OnSuccess_def with_Opts_def)

text \<open>\<open>NewJob\<close> never returns an error.\<close>

definition NewJob :: "string \<Rightarrow> bytes \<Rightarrow> job_opts \<Rightarrow> job" where
  "NewJob h payload opts =
     (let opts = (if OptQueue opts = [] then opts\<lparr>OptQueue := DefaultQueue\<rparr> else opts)
      in Job [] h payload [] opts)"

lemma NewJob_sel [simp]:
  "OnSuccess (NewJob h p opts) = []" "Task (NewJob h p opts) = h"
  "Payload (NewJob h p opts) = p" "OnError (NewJob h p opts) = []"
  by (simp_all add: NewJob_def Let_def)

text \<open>\<open>(t *Job) message(meta)\<close>.\<close>

definition job_message_of :: "job \<Rightarrow> meta \<Rightarrow> job_message" where
  "job_message_of t m = meta.extend m (job_message.fields (Some t))"

lemma job_message_of_sel [simp]:
  "ID (job_message_of t m) = ID m" "OnSuccessIDs (job_message_of t m) = OnSuccessIDs m"
  "Status (job_message_of t m) = Status m" "Queue (job_message_of t m) = Queue m"
  "Schedule (job_message_of t m) = Schedule m" "MaxRetry (job_message_of t m) = MaxRetry m"
  "Retried (job_message_of t m) = Retried m" "PrevErr (job_message_of t m) = PrevErr m"
  "ProcessedAt (job_message_of t m) = ProcessedAt m"
  "PrevJobResult (job_message_of t m) = PrevJobResult m"
  "MsgJob (job_message_of t m) = Some t"
  by (simp_all add: job_message_of_def meta.defs job_message.defs)

lemma truncate_job_message_of [simp]: "meta.truncate (job_message_of t m) = m"
  by (simp add: job_message_of_def meta.defs job_message.defs)

section \<open>Chains and groups\<close>

record chain_opts =
  ChainOptID :: string

record chain =
  ChainJobs :: "job list"
  ChainOpts :: chain_opts

record chain_message =
  ChainID :: string
  ChainStatus :: string
  JobID :: string
  PrevJobs :: "string list"

record group_opts =
  GroupOptID :: string

record group =
  GroupJobs :: "job list"
  GroupOpts :: group_opts

record group_message =
  GroupID :: string
  GroupStatus :: string
  JobStatus :: "(string, string) gomap"
  MsgGroup :: "group option"

text \<open>\<open>NewGroup\<close> never returns an error.\<close>

definition NewGroup :: "job list \<Rightarrow> group_opts \<Rightarrow> group" where
  "NewGroup j opts = \<lparr>GroupJobs = j, GroupOpts = opts\<rparr>"

section \<open>Task metadata\<close>

record task_info =
  Name :: string
  InfoQueue :: string
  InfoConcurrency :: uint32

end
