(* ===== verification/Tasqueue_Interfaces.thy ===== *)
theory Tasqueue_Interfaces
  imports Tasqueue_Types
begin

text \<open>
  The two interfaces of \<open>interfaces.go\<close>, \<open>Results\<close> and \<open>Broker\<close>: a Go interface value is
  a record of its methods (the method table) and a state they pass, of a type the
  implementation chooses. The server is written against the method tables, as the code is
  against the interfaces. The contracts are locales over a method table and an
  abstraction of its state; each implementation's theory interprets them.

  Then the packages outside the repository that the server calls (\<open>uuid\<close>, \<open>cron\<close>,
  \<open>msgpack\<close>, the clock, the iteration order of maps) as the record \<open>ext\<close>, a parameter of
  the model, and the state the operations pass, the record \<open>world\<close>.
\<close>

section \<open>Method tables\<close>

record 'r results_impl =
  r_Get :: "'r \<Rightarrow> string \<Rightarrow> bytes outcome"
  r_NilError :: go_error
  r_Set :: "'r \<Rightarrow> string \<Rightarrow> bytes \<Rightarrow> 'r \<times> unit outcome"
  r_DeleteJob :: "'r \<Rightarrow> string \<Rightarrow> 'r \<times> unit outcome"
  r_GetFailed :: "'r \<Rightarrow> string list outcome"
  r_GetSuccess :: "'r \<Rightarrow> string list outcome"
  r_SetFailed :: "'r \<Rightarrow> string \<Rightarrow> 'r \<times> unit outcome"
  r_SetSuccess :: "'r \<Rightarrow> string \<Rightarrow> 'r \<times> unit outcome"
  r_SetTask :: "'r \<Rightarrow> string \<Rightarrow> bytes \<Rightarrow> 'r \<times> unit outcome"
  r_GetTask :: "'r \<Rightarrow> string \<Rightarrow> bytes outcome"
  r_GetAllTasks :: "'r \<Rightarrow> bytes list outcome"
  r_DeleteTask :: "'r \<Rightarrow> string \<Rightarrow> 'r \<times> unit outcome"

text \<open>
  \<open>Consume\<close> of the interface is a loop that sends what it receives on the work channel;
  \<open>b_Consume\<close> is one turn of that loop: the message it sends, or \<open>None\<close> when there is
  nothing to receive.
\<close>

record 'b broker_impl =
  b_Enqueue :: "'b \<Rightarrow> bytes \<Rightarrow> string \<Rightarrow> 'b \<times> unit outcome"
  b_EnqueueScheduled :: "'b \<Rightarrow> bytes \<Rightarrow> string \<Rightarrow> time \<Rightarrow> 'b \<times> unit outcome"
  b_Consume :: "'b \<Rightarrow> string \<Rightarrow> 'b \<times> bytes option outcome"
  b_GetPending :: "'b \<Rightarrow> string \<Rightarrow> string list outcome"
  b_GetPendingWithPagination ::
    "'b \<Rightarrow> string \<Rightarrow> int64 \<Rightarrow> int64 \<Rightarrow> (string list \<times> int64) outcome"
  b_GetPendingCount :: "'b \<Rightarrow> string \<Rightarrow> int64 outcome"

section \<open>The contract of a results store\<close>

text \<open>
  What the server relies on: a call that succeeds has its effect and no other, a call that
  fails has none, and a missing key is reported by an error that \<open>NilError\<close> identifies.
  \<open>key_ok\<close> holds of the keys that do not collide with the store's own bookkeeping: those of
  job, chain and group messages must be among them, an identifier chosen by a client (under
  which \<open>Save\<close> stores) need not be.
\<close>

locale results_store =
  fixes R :: "'r results_impl"
    and view :: "'r \<Rightarrow> string \<Rightarrow> bytes option"
    and succ_ids :: "'r \<Rightarrow> string set"
    and fail_ids :: "'r \<Rightarrow> string set"
    and r_inv :: "'r \<Rightarrow> bool"
    and key_ok :: "string \<Rightarrow> bool"
  assumes job_key_ok [simp]: "key_ok (jobPrefix @ k)"
    and chain_key_ok [simp]: "key_ok (chainPrefix @ k)"
    and group_key_ok [simp]: "key_ok (groupPrefix @ k)"
    and Get_sound: "r_inv r \<Longrightarrow> r_Get R r k = Ok b \<Longrightarrow> view r k = Some b"
    and Get_nil: "r_inv r \<Longrightarrow> r_Get R r k = Err e \<Longrightarrow> errors_is e (r_NilError R) \<Longrightarrow> view r k = None"
    and Set_ok: "r_inv r \<Longrightarrow> r_Set R r k b = (r', Ok u) \<Longrightarrow> view r' = (view r)(k \<mapsto> b)"
    and Set_err: "r_inv r \<Longrightarrow> r_Set R r k b = (r', Err e) \<Longrightarrow> view r' = view r"
    and Set_succ_ids: "r_inv r \<Longrightarrow> key_ok k \<Longrightarrow> succ_ids (fst (r_Set R r k b)) = succ_ids r"
    and Set_fail_ids: "r_inv r \<Longrightarrow> key_ok k \<Longrightarrow> fail_ids (fst (r_Set R r k b)) = fail_ids r"
    and Set_inv: "r_inv r \<Longrightarrow> key_ok k \<Longrightarrow> r_inv (fst (r_Set R r k b))"
    and SetSuccess_ok:
      "r_inv r \<Longrightarrow> r_SetSuccess R r k = (r', Ok u) \<Longrightarrow> succ_ids r' = insert k (succ_ids r)"
    and SetSuccess_view: "r_inv r \<Longrightarrow> view (fst (r_SetSuccess R r k)) = view r"
    and SetSuccess_fail_ids: "r_inv r \<Longrightarrow> fail_ids (fst (r_SetSuccess R r k)) = fail_ids r"
    and SetSuccess_inv: "r_inv r \<Longrightarrow> r_inv (fst (r_SetSuccess R r k))"
    and SetFailed_ok:
      "r_inv r \<Longrightarrow> r_SetFailed R r k = (r', Ok u) \<Longrightarrow> fail_ids r' = insert k (fail_ids r)"
    and SetFailed_view: "r_inv r \<Longrightarrow> view (fst (r_SetFailed R r k)) = view r"
    and SetFailed_succ_ids: "r_inv r \<Longrightarrow> succ_ids (fst (r_SetFailed R r k)) = succ_ids r"
    and SetFailed_inv: "r_inv r \<Longrightarrow> r_inv (fst (r_SetFailed R r k))"
    and DeleteJob_ok: "r_inv r \<Longrightarrow> r_DeleteJob R r k = (r', Ok u) \<Longrightarrow> view r' = (view r)(k := None)"
    and DeleteJob_inv: "r_inv r \<Longrightarrow> r_inv (fst (r_DeleteJob R r k))"

text \<open>A store whose calls always succeed: the in-process one.\<close>

locale reliable_store = results_store +
  assumes Get_hit: "r_inv r \<Longrightarrow> view r k = Some b \<Longrightarrow> r_Get R r k = Ok b"
    and Get_miss: "r_inv r \<Longrightarrow> key_ok k \<Longrightarrow> view r k = None \<Longrightarrow> r_Get R r k = Err (r_NilError R)"
    and Set_total: "r_inv r \<Longrightarrow> snd (r_Set R r k b) = Ok ()"
    and SetSuccess_total: "r_inv r \<Longrightarrow> snd (r_SetSuccess R r k) = Ok ()"
    and SetFailed_total: "r_inv r \<Longrightarrow> snd (r_SetFailed R r k) = Ok ()"
    and DeleteJob_total: "r_inv r \<Longrightarrow> snd (r_DeleteJob R r k) = Ok ()"

context reliable_store
begin

lemma Set_cases:
  assumes "r_inv r" "key_ok k"
  obtains r' where "r_Set R r k b = (r', Ok ())" "view r' = (view r)(k \<mapsto> b)"
    "succ_ids r' = succ_ids r" "fail_ids r' = fail_ids r" "r_inv r'"
  using assms Set_ok Set_succ_ids Set_fail_ids Set_inv Set_total
  by (metis prod.collapse fst_conv)

lemma SetSuccess_cases:
  assumes "r_inv r"
  obtains r' where "r_SetSuccess R r k = (r', Ok ())" "view r' = view r"
    "succ_ids r' = insert k (succ_ids r)" "fail_ids r' = fail_ids r" "r_inv r'"
  using assms SetSuccess_ok SetSuccess_view SetSuccess_fail_ids SetSuccess_inv SetSuccess_total
  by (metis prod.collapse fst_conv)

lemma SetFailed_cases:
  assumes "r_inv r"
  obtains r' where "r_SetFailed R r k = (r', Ok ())" "view r' = view r"
    "fail_ids r' = insert k (fail_ids r)" "succ_ids r' = succ_ids r" "r_inv r'"
  using assms SetFailed_ok SetFailed_view SetFailed_succ_ids SetFailed_inv SetFailed_total
  by (metis prod.collapse fst_conv)

end

section \<open>The contract of a broker\<close>

text \<open>
  A broker holds, for each queue, a collection of messages: \<open>Enqueue\<close> adds one and
  \<open>Consume\<close> takes out one that was there, so that no message is delivered twice or made
  up. \<open>line_broker\<close> adds the order.
\<close>

locale broker_contract =
  fixes B :: "'b broker_impl"
    and contents :: "'b \<Rightarrow> string \<Rightarrow> bytes multiset"
    and b_inv :: "'b \<Rightarrow> bool"
  assumes Enqueue_ok:
      "b_inv b \<Longrightarrow> b_Enqueue B b m q = (b', Ok u)
        \<Longrightarrow> contents b' = (contents b)(q := add_mset m (contents b q))"
    and Enqueue_err: "b_inv b \<Longrightarrow> b_Enqueue B b m q = (b', Err e) \<Longrightarrow> contents b' = contents b"
    and Enqueue_inv: "b_inv b \<Longrightarrow> b_Enqueue B b m q = (b', Ok u) \<Longrightarrow> b_inv b'"
    and Consume_some:
      "b_inv b \<Longrightarrow> b_Consume B b q = (b', Ok (Some m))
        \<Longrightarrow> m \<in># contents b q \<and> contents b' = (contents b)(q := contents b q - {#m#})"
    and Consume_none:
      "b_inv b \<Longrightarrow> b_Consume B b q = (b', Ok None) \<Longrightarrow> contents b q = {#} \<and> contents b' = contents b"
    and Consume_no_panic: "b_inv b \<Longrightarrow> snd (b_Consume B b q) \<noteq> Panic"
    and Consume_inv: "b_inv b \<Longrightarrow> b_Consume B b q = (b', Ok r) \<Longrightarrow> b_inv b'"

text \<open>
  \<open>join xs ms\<close> is the line after the messages \<open>ms\<close> have arrived one by one at the line \<open>xs\<close>;
  a receive takes the first of the line.
\<close>

locale line_broker = broker_contract B "\<lambda>b q. mset (line b q)" b_inv
  for B :: "'b broker_impl" and line :: "'b \<Rightarrow> string \<Rightarrow> bytes list" and b_inv +
  fixes join :: "bytes list \<Rightarrow> bytes list \<Rightarrow> bytes list"
    and capacity :: nat
  assumes join_Nil [simp]: "join xs [] = xs"
    and join_join [simp]: "join (join xs ys) zs = join xs (ys @ zs)"
    and length_join [simp]: "length (join xs ys) = length xs + length ys"
    and join_single [simp]: "join [] [m] = [m]"
    and Enqueue_line:
      "b_inv b \<Longrightarrow> b_Enqueue B b m q = (b', Ok u) \<Longrightarrow> line b' = (line b)(q := join (line b q) [m])"
    and Enqueue_room: "b_inv b \<Longrightarrow> length (line b q) < capacity \<Longrightarrow> snd (b_Enqueue B b m q) = Ok ()"
    and Consume_Cons:
      "b_inv b \<Longrightarrow> line b q = m # ms
        \<Longrightarrow> \<exists>b'. b_Consume B b q = (b', Ok (Some m)) \<and> line b' = (line b)(q := ms)"
    and Consume_Nil:
      "b_inv b \<Longrightarrow> line b q = [] \<Longrightarrow> \<exists>b'. b_Consume B b q = (b', Ok None) \<and> line b' = line b"

context line_broker
begin

lemma Enqueue_cases:
  assumes "b_inv b" "length (line b q) < capacity"
  obtains b' where "b_Enqueue B b m q = (b', Ok ())" "line b' = (line b)(q := join (line b q) [m])" "b_inv b'"
  using assms Enqueue_line Enqueue_room Enqueue_inv by (metis prod.collapse)

lemma Consume_Cons_cases:
  assumes "b_inv b" "line b q = m # ms"
  obtains b' where "b_Consume B b q = (b', Ok (Some m))" "line b' = (line b)(q := ms)" "b_inv b'"
  using assms Consume_Cons Consume_inv by metis

end

text \<open>First in first out is \<open>(@)\<close>; last in first out:\<close>

definition lifo_join :: "bytes list \<Rightarrow> bytes list \<Rightarrow> bytes list" where
  "lifo_join xs ys = rev ys @ xs"

section \<open>External packages\<close>

record 'a codec =
  marshal :: "'a \<Rightarrow> go_error + bytes"
  unmarshal :: "bytes \<Rightarrow> go_error + 'a"

text \<open>
  What the program relies on of \<open>msgpack\<close>: decoding an encoded value gives the value back,
  and the struct types of the program can all be encoded.
\<close>

definition codec_ok :: "'a codec \<Rightarrow> bool" where
  "codec_ok c \<longleftrightarrow> (\<forall>x. \<exists>b. marshal c x = Inr b \<and> unmarshal c b = Inr x)"

lemma codec_okE:
  assumes "codec_ok c"
  obtains b where "marshal c x = Inr b" "unmarshal c b = Inr x"
  using assms by (auto simp: codec_ok_def)

lemma codec_ok_roundtrip: "codec_ok c \<Longrightarrow> marshal c x = Inr b \<Longrightarrow> unmarshal c b = Inr x"
  by (metis codec_okE sum.inject(2))

text \<open>The encoding of a value that a lossless codec accepts.\<close>

definition encode :: "'a codec \<Rightarrow> 'a \<Rightarrow> bytes" where
  "encode c x = (case marshal c x of Inl _ \<Rightarrow> [] | Inr b \<Rightarrow> b)"

lemma encode_simps:
  assumes "codec_ok c"
  shows "marshal c x = Inr (encode c x)" "unmarshal c (encode c x) = Inr x"
proof -
  show m: "marshal c x = Inr (encode c x)"
    using assms by (metis codec_okE encode_def sum.simps(6))
  show "unmarshal c (encode c x) = Inr x"
    by (rule codec_ok_roundtrip [OF assms m])
qed

record ext =
  uuid_NewString :: "nat \<Rightarrow> string"
  time_Now :: "nat \<Rightarrow> time"
  cron_ParseStandard :: "string \<Rightarrow> go_error + (time \<Rightarrow> time)"
  job_codec :: "job_message codec"
  chain_codec :: "chain_message codec"
  group_codec :: "group_message codec"
  task_codec :: "task_info codec"
  range_entries :: "(string \<times> string) list \<Rightarrow> (string \<times> string) list"

text \<open>
  The state: the broker's, the store's, and how often the two sources of fresh values
  (identifiers and clock readings) have been asked.
\<close>

record ('b, 'r) world =
  bst :: 'b
  rst :: 'r
  uuid_calls :: nat
  now_calls :: nat

definition new_uuid :: "ext \<Rightarrow> ('b, 'r) world \<Rightarrow> ('b, 'r) world \<times> string" where
  "new_uuid E w = (w\<lparr>uuid_calls := Suc (uuid_calls w)\<rparr>, uuid_NewString E (uuid_calls w))"

definition time_now :: "ext \<Rightarrow> ('b, 'r) world \<Rightarrow> ('b, 'r) world \<times> time" where
  "time_now E w = (w\<lparr>now_calls := Suc (now_calls w)\<rparr>, time_Now E (now_calls w))"

text \<open>Calls through the interfaces, on the world.\<close>

definition store_Get :: "'r results_impl \<Rightarrow> ('b, 'r) world \<Rightarrow> string \<Rightarrow> bytes outcome" where
  "store_Get R w k = r_Get R (rst w) k"

definition store_Set ::
  "'r results_impl \<Rightarrow> ('b, 'r) world \<Rightarrow> string \<Rightarrow> bytes \<Rightarrow> ('b, 'r) world \<times> unit outcome" where
  "store_Set R w k b = (case r_Set R (rst w) k b of (r, res) \<Rightarrow> (w\<lparr>rst := r\<rparr>, res))"

definition store_SetSuccess ::
  "'r results_impl \<Rightarrow> ('b, 'r) world \<Rightarrow> string \<Rightarrow> ('b, 'r) world \<times> unit outcome" where
  "store_SetSuccess R w k = (case r_SetSuccess R (rst w) k of (r, res) \<Rightarrow> (w\<lparr>rst := r\<rparr>, res))"

definition store_SetFailed ::
  "'r results_impl \<Rightarrow> ('b, 'r) world \<Rightarrow> string \<Rightarrow> ('b, 'r) world \<times> unit outcome" where
  "store_SetFailed R w k = (case r_SetFailed R (rst w) k of (r, res) \<Rightarrow> (w\<lparr>rst := r\<rparr>, res))"

definition broker_Enqueue ::
  "'b broker_impl \<Rightarrow> ('b, 'r) world \<Rightarrow> bytes \<Rightarrow> string \<Rightarrow> ('b, 'r) world \<times> unit outcome" where
  "broker_Enqueue B w m q = (case b_Enqueue B (bst w) m q of (b, res) \<Rightarrow> (w\<lparr>bst := b\<rparr>, res))"

definition broker_EnqueueScheduled ::
  "'b broker_impl \<Rightarrow> ('b, 'r) world \<Rightarrow> bytes \<Rightarrow> string \<Rightarrow> time \<Rightarrow> ('b, 'r) world \<times> unit outcome" where
  "broker_EnqueueScheduled B w m q ts =
     (case b_EnqueueScheduled B (bst w) m q ts of (b, res) \<Rightarrow> (w\<lparr>bst := b\<rparr>, res))"

definition broker_Consume ::
  "'b broker_impl \<Rightarrow> ('b, 'r) world \<Rightarrow> string \<Rightarrow> ('b, 'r) world \<times> bytes option outcome" where
  "broker_Consume B w q = (case b_Consume B (bst w) q of (b, res) \<Rightarrow> (w\<lparr>bst := b\<rparr>, res))"

lemma new_uuid_world [simp]:
  "rst (fst (new_uuid E w)) = rst w" "bst (fst (new_uuid E w)) = bst w"
  by (simp_all add: new_uuid_def)

lemma time_now_world [simp]:
  "rst (fst (time_now E w)) = rst w" "bst (fst (time_now E w)) = bst w"
  by (simp_all add: time_now_def)

end
