(* ===== verification/Jobs.thy ===== *)
theory Jobs
  imports Tasqueue_Interfaces
begin

text \<open>
  The life of a job message up to its queue: \<open>jobs.go\<close>, and the status and result
  operations of \<open>server.go\<close>. \<open>R\<close> and \<open>B\<close> are the method tables of the results store and
  the broker, \<open>E\<close> the external packages. The tracing spans of the code have no effect on
  the state and are left out.
\<close>

section \<open>Results and the job message store\<close>

definition GetResult :: "'r results_impl \<Rightarrow> ('b, 'r) world \<Rightarrow> string \<Rightarrow> bytes outcome" where
  "GetResult R w k =
     (case store_Get R w k of
        Ok b \<Rightarrow> Ok b
      | Err e \<Rightarrow> if errors_is e (r_NilError R) then Err ErrNotFound else Err e
      | Panic \<Rightarrow> Panic
      | Diverge \<Rightarrow> Diverge)"

definition setJobMessage ::
  "'r results_impl \<Rightarrow> ext \<Rightarrow> ('b, 'r) world \<Rightarrow> job_message \<Rightarrow> ('b, 'r) world \<times> unit outcome" where
  "setJobMessage R E w t =
     wrap_err ''could not set job message in store : ''
       (on_ok (w, of_sum (marshal (job_codec E) t))
         (\<lambda>w b. store_Set R w (jobPrefix @ ID t) b))"

definition GetJob :: "'r results_impl \<Rightarrow> ext \<Rightarrow> ('b, 'r) world \<Rightarrow> string \<Rightarrow> job_message outcome" where
  "GetJob R E w k =
     bind_ok (GetResult R w (jobPrefix @ k)) (\<lambda>b. of_sum (unmarshal (job_codec E) b))"

text \<open>\<open>(c JobCtx) Save(b)\<close>.\<close>

definition Save ::
  "'r results_impl \<Rightarrow> ('b, 'r) world \<Rightarrow> job_ctx \<Rightarrow> bytes \<Rightarrow> ('b, 'r) world \<times> unit outcome" where
  "Save R w c b = store_Set R w (ID (Meta c)) b"

definition DeleteJob ::
  "'r results_impl \<Rightarrow> ('b, 'r) world \<Rightarrow> string \<Rightarrow> ('b, 'r) world \<times> unit outcome" where
  "DeleteJob R w k = (case r_DeleteJob R (rst w) k of (r, res) \<Rightarrow> (w\<lparr>rst := r\<rparr>, res))"

definition GetFailed :: "'r results_impl \<Rightarrow> ('b, 'r) world \<Rightarrow> string list outcome" where
  "GetFailed R w = r_GetFailed R (rst w)"

definition GetSuccess :: "'r results_impl \<Rightarrow> ('b, 'r) world \<Rightarrow> string list outcome" where
  "GetSuccess R w = r_GetSuccess R (rst w)"

section \<open>Status updates\<close>

text \<open>Each sets the time and the status in its copy of the message and stores the copy.\<close>

definition stamp :: "ext \<Rightarrow> ('b, 'r) world \<Rightarrow> string \<Rightarrow> job_message \<Rightarrow> job_message" where
  "stamp E w st t = t\<lparr>ProcessedAt := time_Now E (now_calls w), Status := st\<rparr>"

definition statusStarted ::
  "'r results_impl \<Rightarrow> ext \<Rightarrow> ('b, 'r) world \<Rightarrow> job_message \<Rightarrow> ('b, 'r) world \<times> unit outcome" where
  "statusStarted R E w t =
     (let (w', now) = time_now E w;
          t = t\<lparr>ProcessedAt := now, Status := StatusStarted\<rparr>
      in setJobMessage R E w' t)"

definition statusProcessing ::
  "'r results_impl \<Rightarrow> ext \<Rightarrow> ('b, 'r) world \<Rightarrow> job_message \<Rightarrow> ('b, 'r) world \<times> unit outcome" where
  "statusProcessing R E w t =
     (let (w', now) = time_now E w;
          t = t\<lparr>ProcessedAt := now, Status := StatusProcessing\<rparr>
      in setJobMessage R E w' t)"

definition statusDone ::
  "'r results_impl \<Rightarrow> ext \<Rightarrow> ('b, 'r) world \<Rightarrow> job_message \<Rightarrow> ('b, 'r) world \<times> unit outcome" where
  "statusDone R E w t =
     (let (w', now) = time_now E w;
          t = t\<lparr>ProcessedAt := now, Status := StatusDone\<rparr>
      in on_ok (store_SetSuccess R w' (ID t)) (\<lambda>w _. setJobMessage R E w t))"

definition statusFailed ::
  "'r results_impl \<Rightarrow> ext \<Rightarrow> ('b, 'r) world \<Rightarrow> job_message \<Rightarrow> ('b, 'r) world \<times> unit outcome" where
  "statusFailed R E w t =
     (let (w', now) = time_now E w;
          t = t\<lparr>ProcessedAt := now, Status := StatusFailed\<rparr>
      in on_ok (store_SetFailed R w' (ID t)) (\<lambda>w _. setJobMessage R E w t))"

definition statusRetrying ::
  "'r results_impl \<Rightarrow> ext \<Rightarrow> ('b, 'r) world \<Rightarrow> job_message \<Rightarrow> ('b, 'r) world \<times> unit outcome" where
  "statusRetrying R E w t =
     (let (w', now) = time_now E w;
          t = t\<lparr>ProcessedAt := now, Status := StatusRetrying\<rparr>
      in setJobMessage R E w' t)"

section \<open>Enqueueing\<close>

definition DefaultMeta :: "ext \<Rightarrow> ('b, 'r) world \<Rightarrow> job_opts \<Rightarrow> ('b, 'r) world \<times> meta" where
  "DefaultMeta E w opts =
     (let (w, ident) = (if OptID opts = [] then new_uuid E w else (w, OptID opts))
      in (w, \<lparr>ID = ident, OnSuccessIDs = [], Status = StatusStarted, Queue = OptQueue opts,
              Schedule = OptSchedule opts, MaxRetry = MaxRetries opts, Retried = 0,
              PrevErr = [], ProcessedAt = 0, PrevJobResult = []\<rparr>))"

definition enqueueScheduled ::
  "'b broker_impl \<Rightarrow> ext \<Rightarrow> ('b, 'r) world \<Rightarrow> job_message \<Rightarrow> ('b, 'r) world \<times> unit outcome" where
  "enqueueScheduled B E w msg =
     on_ok (w, of_sum (marshal (job_codec E) msg))
       (\<lambda>w b. case MsgJob msg of
          None \<Rightarrow> (w, Panic)
        | Some j \<Rightarrow> broker_EnqueueScheduled B w b (Queue msg) (ETA (Opts j)))"

definition enqueueMessage ::
  "'b broker_impl \<Rightarrow> ext \<Rightarrow> ('b, 'r) world \<Rightarrow> job_message \<Rightarrow> ('b, 'r) world \<times> unit outcome" where
  "enqueueMessage B E w msg =
     on_ok (w, of_sum (marshal (job_codec E) msg))
       (\<lambda>w b. broker_Enqueue B w b (Queue msg))"

text \<open>
  The cron branch of \<open>enqueueWithMeta\<close>: the job gets its next time as ETA, if it has none,
  and a successor, a copy without callbacks whose ETA is the time after.
\<close>

definition schedule_job ::
  "ext \<Rightarrow> ('b, 'r) world \<Rightarrow> job \<Rightarrow> ('b, 'r) world \<times> job outcome" where
  "schedule_job E w t =
     (if OptSchedule (Opts t) \<noteq> [] then
        case cron_ParseStandard E (OptSchedule (Opts t)) of
          Inl e \<Rightarrow> (w, Err e)
        | Inr next \<Rightarrow>
            (let (w, t) = (if ETA (Opts t) = 0
                           then (let (w', now) = time_now E w
                                 in (w', with_Opts ((Opts t)\<lparr>ETA := next now\<rparr>) t))
                           else (w, t));
                 j = NewJob (Task t) (Payload t) (Opts t);
                 j = with_Opts ((Opts j)\<lparr>ETA := next (ETA (Opts t))\<rparr>) j
             in (w, Ok (with_OnSuccess (OnSuccess t @ [j]) t)))
      else (w, Ok t))"

definition enqueueWithMeta ::
  "'r results_impl \<Rightarrow> 'b broker_impl \<Rightarrow> ext \<Rightarrow> ('b, 'r) world \<Rightarrow> job \<Rightarrow> meta
     \<Rightarrow> ('b, 'r) world \<times> string outcome" where
  "enqueueWithMeta R B E w t m =
     on_ok (schedule_job E w t) (\<lambda>w t.
       let msg = job_message_of t m in
       on_ok (statusStarted R E w msg) (\<lambda>w _.
         if ETA (Opts t) \<noteq> 0
         then on_ok (enqueueScheduled B E w msg) (\<lambda>w _. (w, Ok (ID msg)))
         else on_ok (enqueueMessage B E w msg) (\<lambda>w _. (w, Ok (ID msg)))))"

definition Enqueue ::
  "'r results_impl \<Rightarrow> 'b broker_impl \<Rightarrow> ext \<Rightarrow> ('b, 'r) world \<Rightarrow> job
     \<Rightarrow> ('b, 'r) world \<times> string outcome" where
  "Enqueue R B E w t = (let (w, m) = DefaultMeta E w (Opts t) in enqueueWithMeta R B E w t m)"

section \<open>Running the operations on a reliable store\<close>

text \<open>
  On a reliable store every write succeeds, so the operations above compute: \<open>put\<close>,
  \<open>mark_done\<close> and \<open>mark_failed\<close> are the states the writes leave, and \<open>job_bytes\<close> is the
  encoding of a message.
\<close>

definition put :: "'r results_impl \<Rightarrow> 'r \<Rightarrow> string \<Rightarrow> bytes \<Rightarrow> 'r" where
  "put R r k b = fst (r_Set R r k b)"

definition mark_done :: "'r results_impl \<Rightarrow> 'r \<Rightarrow> string \<Rightarrow> 'r" where
  "mark_done R r k = fst (r_SetSuccess R r k)"

definition mark_failed :: "'r results_impl \<Rightarrow> 'r \<Rightarrow> string \<Rightarrow> 'r" where
  "mark_failed R r k = fst (r_SetFailed R r k)"

definition push :: "'b broker_impl \<Rightarrow> 'b \<Rightarrow> string \<Rightarrow> bytes \<Rightarrow> 'b" where
  "push B b q m = fst (b_Enqueue B b m q)"

definition job_bytes :: "ext \<Rightarrow> job_message \<Rightarrow> bytes" where
  "job_bytes E t = (case marshal (job_codec E) t of Inl _ \<Rightarrow> [] | Inr b \<Rightarrow> b)"

lemma marshal_job_bytes: "codec_ok (job_codec E) \<Longrightarrow> marshal (job_codec E) t = Inr (job_bytes E t)"
  by (metis codec_okE job_bytes_def sum.simps(6))

lemma unmarshal_job_bytes: "codec_ok (job_codec E) \<Longrightarrow> unmarshal (job_codec E) (job_bytes E t) = Inr t"
  by (metis codec_ok_roundtrip marshal_job_bytes)

lemmas job_codec_simps = marshal_job_bytes unmarshal_job_bytes

lemma stamp_sel [simp]:
  "ID (stamp E w st t) = ID t" "Status (stamp E w st t) = st" "MsgJob (stamp E w st t) = MsgJob t"
  "OnSuccessIDs (stamp E w st t) = OnSuccessIDs t" "Retried (stamp E w st t) = Retried t"
  "MaxRetry (stamp E w st t) = MaxRetry t" "Queue (stamp E w st t) = Queue t"
  "PrevErr (stamp E w st t) = PrevErr t" "PrevJobResult (stamp E w st t) = PrevJobResult t"
  "Schedule (stamp E w st t) = Schedule t"
  by (simp_all add: stamp_def)

definition tick :: "('b, 'r) world \<Rightarrow> ('b, 'r) world" where
  "tick w = w\<lparr>now_calls := Suc (now_calls w)\<rparr>"

lemma tick_sel [simp]:
  "rst (tick w) = rst w" "bst (tick w) = bst w" "uuid_calls (tick w) = uuid_calls w"
  "now_calls (tick w) = Suc (now_calls w)"
  by (simp_all add: tick_def)

text \<open>What a status update leaves, and that it is what the code's five functions compute.\<close>

definition stored :: "'r results_impl \<Rightarrow> ext \<Rightarrow> ('b, 'r) world \<Rightarrow> job_message \<Rightarrow> ('b, 'r) world" where
  "stored R E w t = w\<lparr>rst := put R (rst w) (jobPrefix @ ID t) (job_bytes E t)\<rparr>"

definition with_status ::
  "'r results_impl \<Rightarrow> ext \<Rightarrow> ('b, 'r) world \<Rightarrow> string \<Rightarrow> job_message \<Rightarrow> ('b, 'r) world" where
  "with_status R E w st t = stored R E (tick w) (stamp E w st t)"

lemma stored_sel [simp]:
  "bst (stored R E w t) = bst w" "uuid_calls (stored R E w t) = uuid_calls w"
  "now_calls (stored R E w t) = now_calls w"
  by (simp_all add: stored_def)

lemma with_status_sel [simp]:
  "bst (with_status R E w st t) = bst w" "uuid_calls (with_status R E w st t) = uuid_calls w"
  by (simp_all add: with_status_def)

context reliable_store
begin

lemma put_facts [simp]:
  assumes "r_inv r" "key_ok k"
  shows "r_inv (put R r k b)" "view (put R r k b) = (view r)(k \<mapsto> b)"
    "succ_ids (put R r k b) = succ_ids r" "fail_ids (put R r k b) = fail_ids r"
  using assms by (auto elim!: Set_cases [of r k b] simp: put_def)

lemma mark_done_facts [simp]:
  assumes "r_inv r"
  shows "r_inv (mark_done R r k)" "view (mark_done R r k) = view r"
    "succ_ids (mark_done R r k) = insert k (succ_ids r)" "fail_ids (mark_done R r k) = fail_ids r"
  using assms by (auto elim!: SetSuccess_cases [of r k] simp: mark_done_def)

lemma mark_failed_facts [simp]:
  assumes "r_inv r"
  shows "r_inv (mark_failed R r k)" "view (mark_failed R r k) = view r"
    "succ_ids (mark_failed R r k) = succ_ids r" "fail_ids (mark_failed R r k) = insert k (fail_ids r)"
  using assms by (auto elim!: SetFailed_cases [of r k] simp: mark_failed_def)

lemma store_Set_eq: "r_inv (rst w) \<Longrightarrow> store_Set R w k b = (w\<lparr>rst := put R (rst w) k b\<rparr>, Ok ())"
  by (simp add: store_Set_def put_def Set_total split: prod.splits) (metis Set_total snd_conv)

lemma store_SetSuccess_eq:
  "r_inv (rst w) \<Longrightarrow> store_SetSuccess R w k = (w\<lparr>rst := mark_done R (rst w) k\<rparr>, Ok ())"
  by (simp add: store_SetSuccess_def mark_done_def split: prod.splits) (metis SetSuccess_total snd_conv)

lemma store_SetFailed_eq:
  "r_inv (rst w) \<Longrightarrow> store_SetFailed R w k = (w\<lparr>rst := mark_failed R (rst w) k\<rparr>, Ok ())"
  by (simp add: store_SetFailed_def mark_failed_def split: prod.splits) (metis SetFailed_total snd_conv)

lemma GetResult_eq:
  "r_inv (rst w) \<Longrightarrow> key_ok k \<Longrightarrow>
     GetResult R w k = (case view (rst w) k of None \<Rightarrow> Err ErrNotFound | Some b \<Rightarrow> Ok b)"
  by (simp add: GetResult_def store_Get_def Get_hit Get_miss split: option.splits)

lemma GetResult_hit: "r_inv (rst w) \<Longrightarrow> view (rst w) k = Some b \<Longrightarrow> GetResult R w k = Ok b"
  by (simp add: GetResult_def store_Get_def Get_hit)

lemma setJobMessage_eq:
  "r_inv (rst w) \<Longrightarrow> codec_ok (job_codec E) \<Longrightarrow> setJobMessage R E w t = (stored R E w t, Ok ())"
  by (simp add: setJobMessage_def job_codec_simps store_Set_eq stored_def)

lemma status_eq:
  assumes "r_inv (rst w)" "codec_ok (job_codec E)"
  shows "statusStarted R E w t = (with_status R E w StatusStarted t, Ok ())"
    "statusProcessing R E w t = (with_status R E w StatusProcessing t, Ok ())"
    "statusRetrying R E w t = (with_status R E w StatusRetrying t, Ok ())"
    "statusDone R E w t =
      (with_status R E (w\<lparr>rst := mark_done R (rst w) (ID t)\<rparr>) StatusDone t, Ok ())"
    "statusFailed R E w t =
      (with_status R E (w\<lparr>rst := mark_failed R (rst w) (ID t)\<rparr>) StatusFailed t, Ok ())"
  using assms
  by (simp_all add: statusStarted_def statusProcessing_def statusRetrying_def statusDone_def
      statusFailed_def time_now_def setJobMessage_eq with_status_def tick_def stamp_def
      store_SetSuccess_eq store_SetFailed_eq stored_def)

lemma stored_facts [simp]:
  assumes "r_inv (rst w)"
  shows "r_inv (rst (stored R E w t))"
    "view (rst (stored R E w t)) = (view (rst w))(jobPrefix @ ID t \<mapsto> job_bytes E t)"
    "succ_ids (rst (stored R E w t)) = succ_ids (rst w)"
    "fail_ids (rst (stored R E w t)) = fail_ids (rst w)"
  using assms by (simp_all add: stored_def)

lemma with_status_facts [simp]:
  assumes "r_inv (rst w)"
  shows "r_inv (rst (with_status R E w st t))"
    "view (rst (with_status R E w st t)) =
       (view (rst w))(jobPrefix @ ID t \<mapsto> job_bytes E (stamp E w st t))"
    "succ_ids (rst (with_status R E w st t)) = succ_ids (rst w)"
    "fail_ids (rst (with_status R E w st t)) = fail_ids (rst w)"
  using assms by (simp_all add: with_status_def)

text \<open>Reading a job back from what is in the store.\<close>

lemma GetJob_view:
  assumes "r_inv (rst w)" "codec_ok (job_codec E)" "view (rst w) (jobPrefix @ k) = Some (job_bytes E t)"
  shows "GetJob R E w k = Ok t"
  using assms by (simp add: GetJob_def GetResult_eq job_codec_simps)

lemma GetJob_missing:
  assumes "r_inv (rst w)" "view (rst w) (jobPrefix @ k) = None"
  shows "GetJob R E w k = Err ErrNotFound"
  using assms by (simp add: GetJob_def GetResult_eq)

lemma GetJob_cong:
  assumes "r_inv (rst w)" "r_inv (rst w')"
    and "view (rst w') (jobPrefix @ k) = view (rst w) (jobPrefix @ k)"
  shows "GetJob R E w' k = GetJob R E w k"
  using assms by (simp add: GetJob_def GetResult_eq)

lemma GetJob_with_status:
  assumes "r_inv (rst w)" "codec_ok (job_codec E)"
  shows "GetJob R E (with_status R E w st t) k =
    (if k = ID t then Ok (stamp E w st t) else GetJob R E w k)"
  using assms by (auto intro: GetJob_view GetJob_cong)

end

text \<open>A broker with room takes the message into its line.\<close>

context line_broker
begin

lemma push_facts [simp]:
  assumes "b_inv b" "length (line b q) < capacity"
  shows "b_inv (push B b q m)" "line (push B b q m) = (line b)(q := join (line b q) [m])"
  using assms by (auto elim!: Enqueue_cases [of b q m] simp: push_def)

lemma broker_Enqueue_eq:
  assumes "b_inv (bst w)" "length (line (bst w) q) < capacity"
  shows "broker_Enqueue B w m q = (w\<lparr>bst := push B (bst w) q m\<rparr>, Ok ())"
  using assms by (auto elim!: Enqueue_cases [of "bst w" q m] simp: broker_Enqueue_def push_def)

lemma enqueueMessage_eq:
  assumes "b_inv (bst w)" "length (line (bst w) (Queue t)) < capacity" "codec_ok (job_codec E)"
  shows "enqueueMessage B E w t = (w\<lparr>bst := push B (bst w) (Queue t) (job_bytes E t)\<rparr>, Ok ())"
  using assms by (simp add: enqueueMessage_def job_codec_simps broker_Enqueue_eq)

end

end
