(* ===== verification/Server_Exec.thy ===== *)
theory Server_Exec
  imports Jobs
begin

text \<open>
  The processing of one message, \<open>process\<close>, \<open>execJob\<close> and \<open>retryJob\<close> of \<open>server.go\<close>.

  A handler or a callback is client code: a function of the world, which it may change (it
  can save results, and enqueue further jobs). The \<open>select\<close> of \<open>execJob\<close> waits for the
  handler's return or for the end of the job's context, whichever is first; which one is
  not the code's choice, so it is an argument, \<open>selected\<close>. When the context ends first,
  the handler has had some part of its effect, the function in \<open>JctxDone\<close>.
\<close>

datatype ('b, 'r) selected =
    HandlerReturned
  | JctxDone go_error "('b, 'r) world \<Rightarrow> ('b, 'r) world"

type_synonym ('b, 'r) handler =
  "bytes \<Rightarrow> job_ctx \<Rightarrow> ('b, 'r) world \<Rightarrow> ('b, 'r) world \<times> go_error option"

record ('b, 'r) task_opts =
  Concurrency :: uint32
  TaskQueue :: string
  SuccessCB :: "(job_ctx \<Rightarrow> ('b, 'r) world \<Rightarrow> ('b, 'r) world) option"
  ProcessingCB :: "(job_ctx \<Rightarrow> ('b, 'r) world \<Rightarrow> ('b, 'r) world) option"
  RetryingCB :: "(job_ctx \<Rightarrow> go_error \<Rightarrow> ('b, 'r) world \<Rightarrow> ('b, 'r) world) option"
  FailedCB :: "(job_ctx \<Rightarrow> go_error \<Rightarrow> ('b, 'r) world \<Rightarrow> ('b, 'r) world) option"

record ('b, 'r) task =
  TaskName :: string
  Handler :: "('b, 'r) handler"
  TaskOpts :: "('b, 'r) task_opts"

text \<open>\<open>if cb != nil { cb(taskCtx) }\<close>, and the same with the error as second argument.\<close>

definition call_cb ::
  "(job_ctx \<Rightarrow> ('b, 'r) world \<Rightarrow> ('b, 'r) world) option \<Rightarrow> job_ctx \<Rightarrow> ('b, 'r) world
     \<Rightarrow> ('b, 'r) world" where
  "call_cb cb c w = (case cb of None \<Rightarrow> w | Some f \<Rightarrow> f c w)"

definition call_cb_err ::
  "(job_ctx \<Rightarrow> go_error \<Rightarrow> ('b, 'r) world \<Rightarrow> ('b, 'r) world) option \<Rightarrow> job_ctx \<Rightarrow> go_error
     \<Rightarrow> ('b, 'r) world \<Rightarrow> ('b, 'r) world" where
  "call_cb_err cb c e w = (case cb of None \<Rightarrow> w | Some f \<Rightarrow> f c e w)"

definition retryJob ::
  "'r results_impl \<Rightarrow> 'b broker_impl \<Rightarrow> ext \<Rightarrow> ('b, 'r) world \<Rightarrow> job_message
     \<Rightarrow> ('b, 'r) world \<times> unit outcome" where
  "retryJob R B E w msg =
     (let msg = msg\<lparr>Retried := Retried msg + 1\<rparr> in
      on_ok (w, of_sum (marshal (job_codec E) msg)) (\<lambda>w b.
      on_ok (statusRetrying R E w msg) (\<lambda>w _.
      broker_Enqueue B w b (Queue msg))))"

text \<open>The loop over the jobs to enqueue after a failure.\<close>

fun enqueue_on_error ::
  "'r results_impl \<Rightarrow> 'b broker_impl \<Rightarrow> ext \<Rightarrow> ('b, 'r) world \<Rightarrow> job list
     \<Rightarrow> ('b, 'r) world \<times> unit outcome" where
  "enqueue_on_error R B E w [] = (w, Ok ())"
| "enqueue_on_error R B E w (j # js) =
     (let (w, m) = DefaultMeta E w (Opts j) in
      on_ok (wrap_err ''error enqueuing jobs after failure: '' (enqueueWithMeta R B E w j m))
        (\<lambda>w _. enqueue_on_error R B E w js))"

text \<open>
  The loop over the jobs to enqueue after a success: each gets the result the finished job
  has saved, and its identifier is added to the finished job's message.
\<close>

fun enqueue_on_success ::
  "'r results_impl \<Rightarrow> 'b broker_impl \<Rightarrow> ext \<Rightarrow> ('b, 'r) world \<Rightarrow> job_message \<Rightarrow> job list
     \<Rightarrow> ('b, 'r) world \<times> job_message outcome" where
  "enqueue_on_success R B E w msg [] = (w, Ok msg)"
| "enqueue_on_success R B E w msg (j # js) =
     (let (w, m) = DefaultMeta E w (Opts j) in
      on_ok (w, GetResult R w (ID msg)) (\<lambda>w prev.
      on_ok (enqueueWithMeta R B E w j (m\<lparr>PrevJobResult := prev\<rparr>)) (\<lambda>w next_id.
      enqueue_on_success R B E w (msg\<lparr>OnSuccessIDs := OnSuccessIDs msg @ [next_id]\<rparr>) js)))"

text \<open>
  The handler's run as \<open>execJob\<close> sees it: a cancelled context counts as no error, both
  when the context ends first and when the handler returns that error.
\<close>

definition no_cancel :: "go_error option \<Rightarrow> go_error option" where
  "no_cancel err = (if err = Some ContextCanceled then None else err)"

definition run_handler ::
  "('b, 'r) task \<Rightarrow> bytes \<Rightarrow> job_ctx \<Rightarrow> ('b, 'r) world \<Rightarrow> ('b, 'r) selected
     \<Rightarrow> ('b, 'r) world \<times> go_error option" where
  "run_handler task payload c w sel =
     (case sel of
        HandlerReturned \<Rightarrow> (let (w, err) = Handler task payload c w in (w, no_cancel err))
      | JctxDone e partial \<Rightarrow> (partial w, no_cancel (Some e)))"

definition execJob ::
  "'r results_impl \<Rightarrow> 'b broker_impl \<Rightarrow> ext \<Rightarrow> ('b, 'r) world \<Rightarrow> job_message \<Rightarrow> ('b, 'r) task
     \<Rightarrow> ('b, 'r) selected \<Rightarrow> ('b, 'r) world \<times> unit outcome" where
  "execJob R B E w msg task sel =
     (case MsgJob msg of
        None \<Rightarrow> (w, Panic)
      | Some j \<Rightarrow>
         (let c = \<lparr>Meta = meta.truncate msg\<rparr>;
              w = call_cb (ProcessingCB (TaskOpts task)) c w;
              (w, err) = run_handler task (Payload j) c w sel
          in case err of
            Some e \<Rightarrow>
              (let msg = msg\<lparr>PrevErr := error_string e\<rparr> in
               if MaxRetry msg \<noteq> Retried msg
               then retryJob R B E (call_cb_err (RetryingCB (TaskOpts task)) c e w) msg
               else on_ok (enqueue_on_error R B E
                             (call_cb_err (FailedCB (TaskOpts task)) c e w) (OnError j))
                      (\<lambda>w _. statusFailed R E w msg))
          | None \<Rightarrow>
              on_ok (enqueue_on_success R B E
                       (call_cb (SuccessCB (TaskOpts task)) c w) msg (OnSuccess j))
                (\<lambda>w msg. statusDone R E w msg)))"

definition getHandler :: "(string, ('b, 'r) task) gomap \<Rightarrow> string \<Rightarrow> ('b, 'r) task outcome" where
  "getHandler ts name =
     (case map_of ts name of
        None \<Rightarrow> Err (ErrorString (''handler '' @ name @ '' not found''))
      | Some fn \<Rightarrow> Ok fn)"

text \<open>
  One turn of the loop of \<open>process\<close>, for a message received from the work channel. The
  errors are logged and the loop goes on with the next message.
\<close>

definition process_one ::
  "'r results_impl \<Rightarrow> 'b broker_impl \<Rightarrow> ext \<Rightarrow> (string, ('b, 'r) task) gomap \<Rightarrow> ('b, 'r) world
     \<Rightarrow> bytes \<Rightarrow> ('b, 'r) selected \<Rightarrow> ('b, 'r) world \<times> unit outcome" where
  "process_one R B E ts w work sel =
     on_ok (w, of_sum (unmarshal (job_codec E) work)) (\<lambda>w msg.
       case MsgJob msg of
         None \<Rightarrow> (w, Panic)
       | Some j \<Rightarrow>
           on_ok (w, getHandler ts (Task j)) (\<lambda>w task.
           on_ok (statusProcessing R E w msg) (\<lambda>w _.
           execJob R B E w msg task sel)))"

text \<open>
  A consumer and a processor of one queue, working in turn: the consumer's turn takes a
  message from the broker and the processor handles it. The run ends when the queue is
  empty or the list of the \<open>select\<close> results is used up; a panic ends the process.
\<close>

fun work_queue ::
  "'r results_impl \<Rightarrow> 'b broker_impl \<Rightarrow> ext \<Rightarrow> (string, ('b, 'r) task) gomap \<Rightarrow> string
     \<Rightarrow> ('b, 'r) world \<Rightarrow> ('b, 'r) selected list \<Rightarrow> ('b, 'r) world" where
  "work_queue R B E ts q w [] = w"
| "work_queue R B E ts q w (sel # sels) =
     (case broker_Consume B w q of
        (w, Ok (Some work)) \<Rightarrow>
          (case process_one R B E ts w work sel of
             (w, Panic) \<Rightarrow> w
           | (w, Diverge) \<Rightarrow> w
           | (w, _) \<Rightarrow> work_queue R B E ts q w sels)
      | (w, _) \<Rightarrow> w)"

text \<open>The worker is unfolded a turn at a time, by the lemmas of \<open>Exec_System\<close>.\<close>

declare work_queue.simps(2) [simp del]

end
