(* ===== verification/Job_System.thy ===== *)
theory Job_System
  imports Server_Exec
begin

text \<open>
  The operations on a reliable store and a broker that keeps its messages in lines, run symbolically:
  each is equal to an explicit new state. The in-process implementations give the
  interpretation, in \<open>InMemory_System\<close>.
\<close>

locale job_system =
  reliable_store R view succ_ids fail_ids r_inv key_ok + line_broker B line b_inv join capacity
  for R :: "'r results_impl" and view succ_ids fail_ids r_inv key_ok
    and B :: "'b broker_impl" and line b_inv join capacity

text \<open>The state after \<open>enqueueWithMeta\<close> for a job to run at once.\<close>

definition enqueued ::
  "'r results_impl \<Rightarrow> 'b broker_impl \<Rightarrow> ext \<Rightarrow> ('b, 'r) world \<Rightarrow> job \<Rightarrow> meta \<Rightarrow> ('b, 'r) world" where
  "enqueued R B E w t m =
     (with_status R E w StatusStarted (job_message_of t m))
       \<lparr>bst := push B (bst w) (Queue m) (job_bytes E (job_message_of t m))\<rparr>"

definition immediate :: "job \<Rightarrow> bool" where
  "immediate t \<longleftrightarrow> OptSchedule (Opts t) = [] \<and> ETA (Opts t) = 0"

text \<open>The state after \<open>retryJob\<close>.\<close>

definition retried ::
  "'r results_impl \<Rightarrow> 'b broker_impl \<Rightarrow> ext \<Rightarrow> ('b, 'r) world \<Rightarrow> job_message \<Rightarrow> ('b, 'r) world" where
  "retried R B E w msg =
     (let msg = msg\<lparr>Retried := Retried msg + 1\<rparr>
      in (with_status R E w StatusRetrying msg)\<lparr>bst := push B (bst w) (Queue msg) (job_bytes E msg)\<rparr>)"

text \<open>\<open>DefaultMeta\<close> as a function of how many identifiers have been generated.\<close>

definition next_uuids :: "nat \<Rightarrow> job \<Rightarrow> nat" where
  "next_uuids n t = (if OptID (Opts t) = [] then Suc n else n)"

definition default_meta :: "ext \<Rightarrow> nat \<Rightarrow> bytes \<Rightarrow> job \<Rightarrow> meta" where
  "default_meta E n prev t =
     \<lparr>ID = (if OptID (Opts t) = [] then uuid_NewString E n else OptID (Opts t)),
      OnSuccessIDs = [], Status = StatusStarted, Queue = OptQueue (Opts t),
      Schedule = OptSchedule (Opts t), MaxRetry = MaxRetries (Opts t), Retried = 0,
      PrevErr = [], ProcessedAt = 0, PrevJobResult = prev\<rparr>"

lemma default_meta_sel [simp]:
  "Queue (default_meta E n prev t) = OptQueue (Opts t)" "Retried (default_meta E n prev t) = 0"
  "MaxRetry (default_meta E n prev t) = MaxRetries (Opts t)"
  "Status (default_meta E n prev t) = StatusStarted" "OnSuccessIDs (default_meta E n prev t) = []"
  "PrevJobResult (default_meta E n prev t) = prev" "PrevErr (default_meta E n prev t) = []"
  "Schedule (default_meta E n prev t) = OptSchedule (Opts t)"
  "(default_meta E n prev t)\<lparr>PrevJobResult := prev'\<rparr> = default_meta E n prev' t"
  by (simp_all add: default_meta_def)

lemma DefaultMeta_eq:
  "DefaultMeta E w (Opts t) =
     (w\<lparr>uuid_calls := next_uuids (uuid_calls w) t\<rparr>, default_meta E (uuid_calls w) [] t)"
  by (simp add: DefaultMeta_def default_meta_def next_uuids_def new_uuid_def)

text \<open>The metadata of the jobs of a list enqueued one after the other.\<close>

fun metas_from :: "ext \<Rightarrow> nat \<Rightarrow> bytes \<Rightarrow> job list \<Rightarrow> meta list" where
  "metas_from E n prev [] = []"
| "metas_from E n prev (t # ts) = default_meta E n prev t # metas_from E (next_uuids n t) prev ts"

lemma length_metas_from [simp]: "length (metas_from E n prev ts) = length ts"
  by (induction ts arbitrary: n) auto

text \<open>The messages a list of jobs makes, and those of them that go to a queue.\<close>

definition messages_from :: "ext \<Rightarrow> nat \<Rightarrow> bytes \<Rightarrow> job list \<Rightarrow> job_message list" where
  "messages_from E n prev ts = map2 job_message_of ts (metas_from E n prev ts)"

lemma messages_from_simps [simp]:
  "messages_from E n prev [] = []"
  "messages_from E n prev (t # ts) =
     job_message_of t (default_meta E n prev t) # messages_from E (next_uuids n t) prev ts"
  by (simp_all add: messages_from_def)

lemma map_ID_messages: "map ID (messages_from E n prev ts) = map ID (metas_from E n prev ts)"
  by (induction ts arbitrary: n) auto

definition bytes_for :: "ext \<Rightarrow> string \<Rightarrow> job_message list \<Rightarrow> bytes list" where
  "bytes_for E q ms = map (job_bytes E) (filter (\<lambda>m. Queue m = q) ms)"

lemma bytes_for_simps [simp]:
  "bytes_for E q [] = []"
  "bytes_for E q (m # ms) = (if Queue m = q then job_bytes E m # bytes_for E q ms else bytes_for E q ms)"
  by (simp_all add: bytes_for_def)

fun enqueued_list ::
  "'r results_impl \<Rightarrow> 'b broker_impl \<Rightarrow> ext \<Rightarrow> bytes \<Rightarrow> ('b, 'r) world \<Rightarrow> job list
     \<Rightarrow> ('b, 'r) world" where
  "enqueued_list R B E prev w [] = w"
| "enqueued_list R B E prev w (t # ts) =
     enqueued_list R B E prev
       (enqueued R B E (w\<lparr>uuid_calls := next_uuids (uuid_calls w) t\<rparr>) t
         (default_meta E (uuid_calls w) prev t)) ts"

lemma uuid_calls_enqueued [simp]: "uuid_calls (enqueued R B E w t m) = uuid_calls w"
  by (simp add: enqueued_def)

lemma uuid_calls_enqueued_list:
  "uuid_calls (enqueued_list R B E prev w ts) = foldl next_uuids (uuid_calls w) ts"
  by (induction ts arbitrary: w) simp_all

text \<open>An identifier that is no key of a job, chain or group message.\<close>

definition plain_id :: "string \<Rightarrow> bool" where
  "plain_id i \<longleftrightarrow>
     (\<forall>p \<in> {jobPrefix, chainPrefix, groupPrefix}. take (length p) i \<noteq> p)"

lemma plain_id_neq:
  "plain_id i \<Longrightarrow> i \<noteq> jobPrefix @ k \<and> i \<noteq> chainPrefix @ k \<and> i \<noteq> groupPrefix @ k"
  "plain_id i \<Longrightarrow> jobPrefix @ k \<noteq> i \<and> chainPrefix @ k \<noteq> i \<and> groupPrefix @ k \<noteq> i"
  by (auto simp: plain_id_def)

context job_system
begin

lemma enqueueWithMeta_eq:
  assumes "r_inv (rst w)" "b_inv (bst w)" "codec_ok (job_codec E)" "immediate t"
    and "length (line (bst w) (Queue m)) < capacity"
  shows "enqueueWithMeta R B E w t m = (enqueued R B E w t m, Ok (ID m))"
  using assms
  by (simp add: enqueueWithMeta_def schedule_job_def immediate_def Let_def status_eq enqueueMessage_eq
      enqueued_def)

lemma enqueued_facts:
  assumes "r_inv (rst w)" "b_inv (bst w)" "length (line (bst w) (Queue m)) < capacity"
  shows "r_inv (rst (enqueued R B E w t m))" "b_inv (bst (enqueued R B E w t m))"
    "view (rst (enqueued R B E w t m)) = (view (rst w))
       (jobPrefix @ ID m \<mapsto> job_bytes E (stamp E w StatusStarted (job_message_of t m)))"
    "succ_ids (rst (enqueued R B E w t m)) = succ_ids (rst w)"
    "fail_ids (rst (enqueued R B E w t m)) = fail_ids (rst w)"
    "line (bst (enqueued R B E w t m)) = (line (bst w))
       (Queue m := join (line (bst w) (Queue m)) [job_bytes E (job_message_of t m)])"
  using assms by (simp_all add: enqueued_def)

lemma GetJob_enqueued:
  assumes "r_inv (rst w)" "b_inv (bst w)" "codec_ok (job_codec E)"
    and "length (line (bst w) (Queue m)) < capacity"
  shows "GetJob R E (enqueued R B E w t m) k =
    (if k = ID m then Ok (stamp E w StatusStarted (job_message_of t m)) else GetJob R E w k)"
  using assms by (auto simp: enqueued_facts intro: GetJob_view GetJob_cong)

lemma retryJob_eq:
  assumes "r_inv (rst w)" "b_inv (bst w)" "codec_ok (job_codec E)"
    and "length (line (bst w) (Queue msg)) < capacity"
  shows "retryJob R B E w msg = (retried R B E w msg, Ok ())"
  using assms
  by (simp add: retryJob_def retried_def Let_def job_codec_simps status_eq broker_Enqueue_eq)

lemma retried_facts:
  assumes "r_inv (rst w)" "b_inv (bst w)" "length (line (bst w) (Queue msg)) < capacity"
  shows "r_inv (rst (retried R B E w msg))" "b_inv (bst (retried R B E w msg))"
    "view (rst (retried R B E w msg)) = (view (rst w)) (jobPrefix @ ID msg \<mapsto>
       job_bytes E (stamp E w StatusRetrying (msg\<lparr>Retried := Retried msg + 1\<rparr>)))"
    "succ_ids (rst (retried R B E w msg)) = succ_ids (rst w)"
    "fail_ids (rst (retried R B E w msg)) = fail_ids (rst w)"
    "line (bst (retried R B E w msg)) = (line (bst w))
       (Queue msg := join (line (bst w) (Queue msg)) [job_bytes E (msg\<lparr>Retried := Retried msg + 1\<rparr>)])"
  using assms by (simp_all add: retried_def Let_def)

lemma enqueued_room:
  assumes "r_inv (rst w)" "b_inv (bst w)" "\<And>q. length (line (bst w) q) + Suc n \<le> capacity"
  shows "length (line (bst (enqueued R B E w t m)) q) + n \<le> capacity"
  using assms(3) [of q] assms(3) [of "Queue m"] enqueued_facts(6) [OF assms(1,2), of m E t] by simp

lemma enqueued_list_facts:
  assumes "r_inv (rst w)" "b_inv (bst w)"
    and "\<And>q. length (line (bst w) q) + length ts \<le> capacity"
  shows "r_inv (rst (enqueued_list R B E prev w ts)) \<and> b_inv (bst (enqueued_list R B E prev w ts))
    \<and> succ_ids (rst (enqueued_list R B E prev w ts)) = succ_ids (rst w)
    \<and> fail_ids (rst (enqueued_list R B E prev w ts)) = fail_ids (rst w)
    \<and> (\<forall>q. line (bst (enqueued_list R B E prev w ts)) q =
         join (line (bst w) q) (bytes_for E q (messages_from E (uuid_calls w) prev ts)))
    \<and> (\<forall>k. k \<notin> (\<lambda>m. jobPrefix @ ID m) ` set (metas_from E (uuid_calls w) prev ts)
         \<longrightarrow> view (rst (enqueued_list R B E prev w ts)) k = view (rst w) k)"
  using assms
proof (induction ts arbitrary: w)
  case Nil
  then show ?case by simp
next
  case (Cons t ts)
  let ?w = "w\<lparr>uuid_calls := next_uuids (uuid_calls w) t\<rparr>"
  let ?m = "default_meta E (uuid_calls w) prev t"
  let ?w1 = "enqueued R B E ?w t ?m"
  have room: "length (line (bst ?w) (Queue ?m)) < capacity"
    using Cons.prems(3) [of "Queue ?m"] by simp
  note facts = enqueued_facts [where w = ?w and m = ?m and t = t and E = E, OF _ _ room]
  have "\<And>q. length (line (bst ?w1) q) + length ts \<le> capacity"
    using Cons.prems by (intro enqueued_room) auto
  then show ?case
    using Cons.IH [of ?w1] Cons.prems facts by simp
qed

lemma GetJob_enqueued_list:
  assumes "r_inv (rst w)" "b_inv (bst w)" "codec_ok (job_codec E)"
    and "\<And>q. length (line (bst w) q) + length ts \<le> capacity"
    and "distinct (map ID (metas_from E (uuid_calls w) prev ts))"
    and "msg \<in> set (messages_from E (uuid_calls w) prev ts)"
  shows "\<exists>now. GetJob R E (enqueued_list R B E prev w ts) (ID msg) =
    Ok (msg\<lparr>ProcessedAt := now, Status := StatusStarted\<rparr>)"
  using assms
proof (induction ts arbitrary: w)
  case Nil
  then show ?case by simp
next
  case (Cons t ts)
  let ?w = "w\<lparr>uuid_calls := next_uuids (uuid_calls w) t\<rparr>"
  let ?m = "default_meta E (uuid_calls w) prev t"
  let ?w1 = "enqueued R B E ?w t ?m"
  have room: "length (line (bst ?w) (Queue ?m)) < capacity"
    using Cons.prems(4) [of "Queue ?m"] by simp
  have inv: "r_inv (rst ?w1)" "b_inv (bst ?w1)"
    using enqueued_facts [where w = ?w and m = ?m and t = t and E = E, OF _ _ room] Cons.prems by simp_all
  have room1: "\<And>q. length (line (bst ?w1) q) + length ts \<le> capacity"
    using Cons.prems by (intro enqueued_room) auto
  show ?case
  proof (cases "msg = job_message_of t ?m")
    case True
    have "GetJob R E ?w1 (ID ?m) = Ok (stamp E ?w StatusStarted (job_message_of t ?m))"
      using Cons.prems room by (subst GetJob_enqueued) simp_all
    moreover have "GetJob R E (enqueued_list R B E prev ?w1 ts) (ID ?m) = GetJob R E ?w1 (ID ?m)"
      using inv enqueued_list_facts [OF inv room1, of E prev] Cons.prems(5)
      by (intro GetJob_cong) (auto simp: image_iff)
    ultimately show ?thesis
      using True by (auto simp: stamp_def)
  next
    case False
    then show ?thesis
      using Cons.IH [OF inv Cons.prems(3) room1] Cons.prems(5,6) by simp
  qed
qed

lemma enqueue_on_error_eq:
  assumes "r_inv (rst w)" "b_inv (bst w)" "codec_ok (job_codec E)" "\<And>t. t \<in> set ts \<Longrightarrow> immediate t"
    and "\<And>q. length (line (bst w) q) + length ts \<le> capacity"
  shows "enqueue_on_error R B E w ts = (enqueued_list R B E [] w ts, Ok ())"
  using assms
proof (induction ts arbitrary: w)
  case Nil
  then show ?case by simp
next
  case (Cons t ts)
  let ?w = "w\<lparr>uuid_calls := next_uuids (uuid_calls w) t\<rparr>"
  let ?m = "default_meta E (uuid_calls w) [] t"
  let ?w1 = "enqueued R B E ?w t ?m"
  have room: "length (line (bst ?w) (Queue ?m)) < capacity"
    using Cons.prems(5) [of "Queue ?m"] by simp
  note facts = enqueued_facts [where w = ?w and m = ?m and t = t and E = E, OF _ _ room]
  have "\<And>q. length (line (bst ?w1) q) + length ts \<le> capacity"
    using Cons.prems by (intro enqueued_room) auto
  then have "enqueue_on_error R B E ?w1 ts = (enqueued_list R B E [] ?w1 ts, Ok ())"
    using Cons.prems facts by (intro Cons.IH) auto
  moreover have "enqueueWithMeta R B E ?w t ?m = (?w1, Ok (ID ?m))"
    using Cons.prems room by (intro enqueueWithMeta_eq) auto
  ultimately show ?case by (simp add: DefaultMeta_eq)
qed

lemma enqueue_on_success_eq:
  assumes "r_inv (rst w)" "b_inv (bst w)" "codec_ok (job_codec E)" "\<And>t. t \<in> set ts \<Longrightarrow> immediate t"
    and "\<And>q. length (line (bst w) q) + length ts \<le> capacity"
    and "plain_id (ID msg)" "view (rst w) (ID msg) = Some prev"
  shows "enqueue_on_success R B E w msg ts =
    (enqueued_list R B E prev w ts,
     Ok (msg\<lparr>OnSuccessIDs := OnSuccessIDs msg @ map ID (metas_from E (uuid_calls w) prev ts)\<rparr>))"
  using assms
proof (induction ts arbitrary: w msg)
  case Nil
  then show ?case by simp
next
  case (Cons t ts)
  let ?w = "w\<lparr>uuid_calls := next_uuids (uuid_calls w) t\<rparr>"
  let ?m = "default_meta E (uuid_calls w) prev t"
  let ?w1 = "enqueued R B E ?w t ?m"
  let ?msg = "msg\<lparr>OnSuccessIDs := OnSuccessIDs msg @ [ID ?m]\<rparr>"
  have room: "length (line (bst ?w) (Queue ?m)) < capacity"
    using Cons.prems(5) [of "Queue ?m"] by simp
  note facts = enqueued_facts [where w = ?w and m = ?m and t = t and E = E, OF _ _ room]
  have "\<And>q. length (line (bst ?w1) q) + length ts \<le> capacity"
    using Cons.prems by (intro enqueued_room) auto
  then have "enqueue_on_success R B E ?w1 ?msg ts =
    (enqueued_list R B E prev ?w1 ts,
     Ok (?msg\<lparr>OnSuccessIDs := OnSuccessIDs ?msg @ map ID (metas_from E (uuid_calls ?w1) prev ts)\<rparr>))"
    using Cons.prems facts plain_id_neq [OF Cons.prems(6)] by (intro Cons.IH) auto
  moreover have "enqueueWithMeta R B E ?w t ?m = (?w1, Ok (ID ?m))"
    using Cons.prems room by (intro enqueueWithMeta_eq) auto
  moreover have "GetResult R ?w (ID msg) = Ok prev"
    using Cons.prems by (simp add: GetResult_hit)
  ultimately show ?case by (simp add: DefaultMeta_eq)
qed

end

end
