(* ===== verification/Exec_System.thy ===== *)
theory Exec_System
  imports Job_System
begin

text \<open>
  \<open>execJob\<close>, \<open>process\<close> and the worker of one queue on a reliable store and a line
  broker: what one attempt does in each branch, and the run of a job that fails
  every time.
\<close>

section \<open>One attempt\<close>

definition attempt ::
  "('b, 'r) task \<Rightarrow> job \<Rightarrow> job_message \<Rightarrow> ('b, 'r) world \<Rightarrow> ('b, 'r) selected
     \<Rightarrow> ('b, 'r) world \<times> go_error option" where
  "attempt task j msg w sel =
     (let c = \<lparr>Meta = meta.truncate msg\<rparr>
      in run_handler task (Payload j) c (call_cb (ProcessingCB (TaskOpts task)) c w) sel)"

lemma execJob_attempt:
  "MsgJob msg = Some j \<Longrightarrow> execJob R B E w msg task sel =
     (let c = \<lparr>Meta = meta.truncate msg\<rparr>; (w, err) = attempt task j msg w sel
      in case err of
        Some e \<Rightarrow>
          (let msg = msg\<lparr>PrevErr := error_string e\<rparr> in
           if MaxRetry msg \<noteq> Retried msg
           then retryJob R B E (call_cb_err (RetryingCB (TaskOpts task)) c e w) msg
           else on_ok (enqueue_on_error R B E
                         (call_cb_err (FailedCB (TaskOpts task)) c e w) (OnError j))
                  (\<lambda>w _. statusFailed R E w msg))
      | None \<Rightarrow>
          on_ok (enqueue_on_success R B E
                   (call_cb (SuccessCB (TaskOpts task)) c w) msg (OnSuccess j))
            (\<lambda>w msg. statusDone R E w msg))"
  by (simp add: execJob_def attempt_def Let_def)

text \<open>
  Client code that stays within its job: it may save results (under keys that are no
  message of the server), but neither enqueues nor edits the server's messages.
\<close>

definition client_frame ::
  "('r \<Rightarrow> bool) \<Rightarrow> ('r \<Rightarrow> string \<Rightarrow> bytes option) \<Rightarrow> ('b, 'r) world \<Rightarrow> ('b, 'r) world \<Rightarrow> bool" where
  "client_frame r_inv view w w' \<longleftrightarrow>
     bst w' = bst w \<and> uuid_calls w' = uuid_calls w \<and> r_inv (rst w') \<and>
     (\<forall>k. view (rst w') (jobPrefix @ k) = view (rst w) (jobPrefix @ k)
        \<and> view (rst w') (chainPrefix @ k) = view (rst w) (chainPrefix @ k)
        \<and> view (rst w') (groupPrefix @ k) = view (rst w) (groupPrefix @ k))"

text \<open>An attempt that ends with an error whatever the state, by return or by deadline.\<close>

definition fails ::
  "('r \<Rightarrow> bool) \<Rightarrow> ('r \<Rightarrow> string \<Rightarrow> bytes option) \<Rightarrow> ('b, 'r) task \<Rightarrow> job \<Rightarrow> ('b, 'r) selected
     \<Rightarrow> bool" where
  "fails r_inv view task j sel \<longleftrightarrow>
     (\<forall>w msg w1 err. r_inv (rst w) \<longrightarrow> attempt task j msg w sel = (w1, err) \<longrightarrow>
        (\<exists>e. err = Some e \<and>
           client_frame r_inv view w
             (call_cb_err (RetryingCB (TaskOpts task)) \<lparr>Meta = meta.truncate msg\<rparr> e w1) \<and>
           client_frame r_inv view w
             (call_cb_err (FailedCB (TaskOpts task)) \<lparr>Meta = meta.truncate msg\<rparr> e w1)))"

text \<open>
  An attempt that ends without an error, after which the job's saved result is \<open>prev\<close>; and
  one that ends without an error and saves nothing.
\<close>

definition succeeds ::
  "('r \<Rightarrow> bool) \<Rightarrow> ('r \<Rightarrow> string \<Rightarrow> bytes option) \<Rightarrow> ('b, 'r) task \<Rightarrow> job \<Rightarrow> job_message
     \<Rightarrow> ('b, 'r) selected \<Rightarrow> (bytes option \<Rightarrow> bytes option) \<Rightarrow> bool" where
  "succeeds r_inv view task j msg sel result \<longleftrightarrow>
     (\<forall>w. r_inv (rst w) \<longrightarrow>
        (case attempt task j msg w sel of (w1, err) \<Rightarrow>
           (let w2 = call_cb (SuccessCB (TaskOpts task)) \<lparr>Meta = meta.truncate msg\<rparr> w1 in
            err = None \<and> client_frame r_inv view w w2 \<and>
            view (rst w2) (ID msg) = result (view (rst w) (ID msg)))))"

lemma succeedsE:
  assumes "succeeds r_inv view task j msg sel result" "r_inv (rst w)"
  obtains w1 where "attempt task j msg w sel = (w1, None)"
    "client_frame r_inv view w (call_cb (SuccessCB (TaskOpts task)) \<lparr>Meta = meta.truncate msg\<rparr> w1)"
    "view (rst (call_cb (SuccessCB (TaskOpts task)) \<lparr>Meta = meta.truncate msg\<rparr> w1)) (ID msg) =
       result (view (rst w) (ID msg))"
  using assms unfolding succeeds_def by (cases "attempt task j msg w sel") (auto simp: Let_def)

text \<open>Two messages of the same job, from different attempts.\<close>

definition same_job :: "job_message \<Rightarrow> job_message \<Rightarrow> bool" where
  "same_job m m' \<longleftrightarrow> ID m = ID m' \<and> MsgJob m = MsgJob m' \<and> Queue m = Queue m' \<and> MaxRetry m = MaxRetry m'"

lemma unat_retries_left:
  fixes a b :: uint32
  assumes "a \<noteq> b"
  shows "unat (a - (b + 1)) = unat (a - b) - 1" "unat (a - b) \<noteq> 0"
proof -
  have "a - b \<noteq> 0" using assms by simp
  then have "unat (a - b - 1) = unat (a - b) - 1" by (rule unat_minus_one)
  then show "unat (a - (b + 1)) = unat (a - b) - 1" by (simp add: diff_diff_eq)
  show "unat (a - b) \<noteq> 0" using \<open>a - b \<noteq> 0\<close> by (simp add: unat_eq_0)
qed

lemma unat_retries_zero: "unat (a - b) = 0 \<longleftrightarrow> a = (b :: uint32)"
  by (simp add: unat_eq_0)

lemma stamp_time_update [simp]: "(stamp E w st t)\<lparr>PrevErr := p\<rparr> = stamp E w st (t\<lparr>PrevErr := p\<rparr>)"
  by (simp add: stamp_def)

context job_system
begin

lemma execJob_retry:
  assumes "MsgJob msg = Some j" "attempt task j msg w sel = (w1, Some e)" "MaxRetry msg \<noteq> Retried msg"
    and w2: "w2 = call_cb_err (RetryingCB (TaskOpts task)) \<lparr>Meta = meta.truncate msg\<rparr> e w1"
    and "r_inv (rst w2)" "b_inv (bst w2)" "codec_ok (job_codec E)"
    and "length (line (bst w2) (Queue msg)) < capacity"
  shows "execJob R B E w msg task sel = (retried R B E w2 (msg\<lparr>PrevErr := error_string e\<rparr>), Ok ())"
  using assms by (simp add: execJob_attempt Let_def retryJob_eq)

lemma execJob_fail:
  assumes "MsgJob msg = Some j" "attempt task j msg w sel = (w1, Some e)" "MaxRetry msg = Retried msg"
    and w2: "w2 = call_cb_err (FailedCB (TaskOpts task)) \<lparr>Meta = meta.truncate msg\<rparr> e w1"
    and w3: "w3 = enqueued_list R B E [] w2 (OnError j)"
    and "r_inv (rst w2)" "b_inv (bst w2)" "codec_ok (job_codec E)"
    and "\<And>t. t \<in> set (OnError j) \<Longrightarrow> immediate t"
    and "\<And>q. length (line (bst w2) q) + length (OnError j) \<le> capacity"
  shows "execJob R B E w msg task sel =
    (with_status R E (w3\<lparr>rst := mark_failed R (rst w3) (ID msg)\<rparr>) StatusFailed
       (msg\<lparr>PrevErr := error_string e\<rparr>), Ok ())"
proof -
  have "r_inv (rst w3)"
    using enqueued_list_facts [OF assms(6,7,10)] by (simp add: w3)
  moreover have "enqueue_on_error R B E w2 (OnError j) = (w3, Ok ())"
    unfolding w3 using assms by (intro enqueue_on_error_eq) auto
  ultimately show ?thesis
    using assms by (simp add: execJob_attempt Let_def status_eq)
qed

lemma execJob_success:
  assumes "MsgJob msg = Some j" "attempt task j msg w sel = (w1, None)"
    and w2: "w2 = call_cb (SuccessCB (TaskOpts task)) \<lparr>Meta = meta.truncate msg\<rparr> w1"
    and w3: "w3 = enqueued_list R B E prev w2 (OnSuccess j)"
    and "r_inv (rst w2)" "b_inv (bst w2)" "codec_ok (job_codec E)"
    and "\<And>t. t \<in> set (OnSuccess j) \<Longrightarrow> immediate t"
    and "\<And>q. length (line (bst w2) q) + length (OnSuccess j) \<le> capacity"
    and "OnSuccess j \<noteq> [] \<Longrightarrow> plain_id (ID msg) \<and> view (rst w2) (ID msg) = Some prev"
  shows "execJob R B E w msg task sel =
    (with_status R E (w3\<lparr>rst := mark_done R (rst w3) (ID msg)\<rparr>) StatusDone
       (msg\<lparr>OnSuccessIDs := OnSuccessIDs msg @
          map ID (metas_from E (uuid_calls w2) prev (OnSuccess j))\<rparr>), Ok ())"
proof -
  have "r_inv (rst w3)"
    using enqueued_list_facts [OF assms(5,6,9)] by (simp add: w3)
  moreover have "enqueue_on_success R B E w2 msg (OnSuccess j) =
    (w3, Ok (msg\<lparr>OnSuccessIDs := OnSuccessIDs msg @
       map ID (metas_from E (uuid_calls w2) prev (OnSuccess j))\<rparr>))"
  proof (cases "OnSuccess j = []")
    case True
    then show ?thesis by (simp add: w3)
  next
    case False
    then show ?thesis
      unfolding w3 using assms by (intro enqueue_on_success_eq) auto
  qed
  ultimately show ?thesis
    using assms by (simp add: execJob_attempt Let_def status_eq)
qed

text \<open>
  A finished job that has saved no result cannot hand one on: the loop over its successors
  stops at the first, and the job's status is not updated.
\<close>

lemma execJob_no_result:
  assumes "MsgJob msg = Some j" "attempt task j msg w sel = (w1, None)"
    and w2: "w2 = call_cb (SuccessCB (TaskOpts task)) \<lparr>Meta = meta.truncate msg\<rparr> w1"
    and "r_inv (rst w2)" "OnSuccess j = t # ts" "view (rst w2) (ID msg) = None" "key_ok (ID msg)"
  shows "execJob R B E w msg task sel =
    (w2\<lparr>uuid_calls := next_uuids (uuid_calls w2) t\<rparr>, Err ErrNotFound)"
  using assms by (simp add: execJob_attempt Let_def DefaultMeta_eq GetResult_eq)

section \<open>One turn of the worker\<close>

lemma process_one_eq:
  assumes "r_inv (rst w)" "codec_ok (job_codec E)" "MsgJob msg = Some j" "map_of ts (Task j) = Some task"
  shows "process_one R B E ts w (job_bytes E msg) sel =
    execJob R B E (with_status R E w StatusProcessing msg) msg task sel"
  using assms by (simp add: process_one_def job_codec_simps getHandler_def status_eq)

lemma work_queue_turn:
  assumes "b_inv (bst w)" "line (bst w) q = work # rest"
  obtains w1 where "b_inv (bst w1)" "line (bst w1) = (line (bst w))(q := rest)" "rst w1 = rst w"
    "uuid_calls w1 = uuid_calls w"
    "\<And>sel sels w2. process_one R B E ts w1 work sel = (w2, Ok ())
       \<Longrightarrow> work_queue R B E ts q w (sel # sels) = work_queue R B E ts q w2 sels"
    "\<And>sel sels w2 e. process_one R B E ts w1 work sel = (w2, Err e)
       \<Longrightarrow> work_queue R B E ts q w (sel # sels) = work_queue R B E ts q w2 sels"
proof -
  obtain b' where b: "b_Consume B (bst w) q = (b', Ok (Some work))"
      "line b' = (line (bst w))(q := rest)" "b_inv b'"
    using Consume_Cons_cases [OF assms] by metis
  show ?thesis
    using b by (intro that [of "w\<lparr>bst := b'\<rparr>"]) (simp_all add: broker_Consume_def work_queue.simps)
qed

section \<open>A job that fails every time\<close>

text \<open>An attempt that is not the last: the message goes back to its queue, one retry on.\<close>

lemma failing_turn:
  assumes "r_inv (rst w)" "b_inv (bst w)" "codec_ok (job_codec E)"
    and "MsgJob msg = Some j" "map_of ts (Task j) = Some task" "fails r_inv view task j sel"
    and "line (bst w) (Queue msg) = [job_bytes E msg]" "0 < capacity" "MaxRetry msg \<noteq> Retried msg"
  obtains w1 msg1 where
    "\<And>sels. work_queue R B E ts (Queue msg) w (sel # sels) = work_queue R B E ts (Queue msg) w1 sels"
    "r_inv (rst w1)" "b_inv (bst w1)" "line (bst w1) = (line (bst w))(Queue msg := [job_bytes E msg1])"
    "same_job msg1 msg" "Retried msg1 = Retried msg + 1"
    "\<exists>n. GetJob R E w1 (ID msg) = Ok (msg1\<lparr>ProcessedAt := n, Status := StatusRetrying\<rparr>)"
proof -
  obtain w0 where w0: "b_inv (bst w0)" "line (bst w0) = (line (bst w))(Queue msg := [])"
      "rst w0 = rst w"
      "\<And>sels w2. process_one R B E ts w0 (job_bytes E msg) sel = (w2, Ok ())
         \<Longrightarrow> work_queue R B E ts (Queue msg) w (sel # sels) = work_queue R B E ts (Queue msg) w2 sels"
    by (rule work_queue_turn [OF assms(2,7), where E = E and ts = ts]) blast
  let ?w = "with_status R E w0 StatusProcessing msg"
  have inv: "r_inv (rst ?w)" using assms(1) w0(3) by simp
  obtain w1 err where att: "attempt task j msg ?w sel = (w1, err)" by fastforce
  then obtain e where e: "err = Some e" and
    fr: "client_frame r_inv view ?w
           (call_cb_err (RetryingCB (TaskOpts task)) \<lparr>Meta = meta.truncate msg\<rparr> e w1)"
    using assms(6) inv unfolding fails_def by blast
  define w2 where "w2 = call_cb_err (RetryingCB (TaskOpts task)) \<lparr>Meta = meta.truncate msg\<rparr> e w1"
  let ?msg = "msg\<lparr>PrevErr := error_string e\<rparr>"
  have w2: "r_inv (rst w2)" "bst w2 = bst w0"
    using fr by (simp_all add: client_frame_def w2_def)
  have room: "length (line (bst w2) (Queue msg)) < capacity"
    using w0 w2 assms(8) by simp
  have "execJob R B E ?w msg task sel = (retried R B E w2 ?msg, Ok ())"
    using assms(3,4,9) att e w2 w0 room by (intro execJob_retry) (auto simp: w2_def)
  then have "process_one R B E ts w0 (job_bytes E msg) sel = (retried R B E w2 ?msg, Ok ())"
    using assms w0 by (simp add: process_one_eq)
  note turn = w0(4) [OF this]
  note facts = retried_facts [where w = w2 and msg = ?msg and E = E]
  show ?thesis
  proof (rule that [of "retried R B E w2 ?msg" "?msg\<lparr>Retried := Retried msg + 1\<rparr>"])
    show "\<exists>n. GetJob R E (retried R B E w2 ?msg) (ID msg) =
        Ok (?msg\<lparr>Retried := Retried msg + 1, ProcessedAt := n, Status := StatusRetrying\<rparr>)"
      using w2 w0 room assms(3) facts
      by (intro exI [of _ "time_Now E (now_calls w2)"]) (auto intro!: GetJob_view simp: stamp_def)
  qed (use turn facts w2 w0 room in \<open>auto simp: same_job_def\<close>)
qed

text \<open>As many failing turns as there are retries left: still queued, and marked as retrying.\<close>

lemma retry_turns:
  assumes "r_inv (rst w)" "b_inv (bst w)" "codec_ok (job_codec E)"
    and "MsgJob msg = Some j" "map_of ts (Task j) = Some task"
    and "\<And>sel. sel \<in> set sels \<Longrightarrow> fails r_inv view task j sel"
    and "line (bst w) (Queue msg) = [job_bytes E msg]" "0 < capacity"
    and "length sels \<le> unat (MaxRetry msg - Retried msg)"
  shows "\<exists>w1 msg1.
    (\<forall>rest. work_queue R B E ts (Queue msg) w (sels @ rest) = work_queue R B E ts (Queue msg) w1 rest)
    \<and> r_inv (rst w1) \<and> b_inv (bst w1)
    \<and> line (bst w1) = (line (bst w))(Queue msg := [job_bytes E msg1])
    \<and> same_job msg1 msg \<and> Retried msg1 = Retried msg + of_nat (length sels)
    \<and> (sels \<noteq> [] \<longrightarrow>
        (\<exists>n. GetJob R E w1 (ID msg) = Ok (msg1\<lparr>ProcessedAt := n, Status := StatusRetrying\<rparr>)))"
  using assms
proof (induction sels arbitrary: w msg)
  case Nil
  then show ?case
    by (intro exI [of _ w] exI [of _ msg]) (simp add: same_job_def fun_upd_idem)
next
  case (Cons sel sels)
  have left: "MaxRetry msg \<noteq> Retried msg"
    using Cons.prems(9) unat_retries_zero [of "MaxRetry msg" "Retried msg"] by auto
  obtain w1 msg1 where
    turn: "\<And>sels. work_queue R B E ts (Queue msg) w (sel # sels) = work_queue R B E ts (Queue msg) w1 sels"
    and inv: "r_inv (rst w1)" "b_inv (bst w1)"
    and line: "line (bst w1) = (line (bst w))(Queue msg := [job_bytes E msg1])"
    and same: "same_job msg1 msg" and retried: "Retried msg1 = Retried msg + 1"
    and get: "\<exists>n. GetJob R E w1 (ID msg) = Ok (msg1\<lparr>ProcessedAt := n, Status := StatusRetrying\<rparr>)"
    using failing_turn [OF Cons.prems(1-5) Cons.prems(6) [of sel] Cons.prems(7,8) left] by auto
  have eqs: "Queue msg1 = Queue msg" "ID msg1 = ID msg" "MsgJob msg1 = MsgJob msg"
      "MaxRetry msg1 = MaxRetry msg"
    using same by (simp_all add: same_job_def)
  have len: "length sels \<le> unat (MaxRetry msg1 - Retried msg1)"
    using Cons.prems(9) unat_retries_left [OF left] by (simp add: eqs retried)
  have job: "MsgJob msg1 = Some j" and ln: "line (bst w1) (Queue msg1) = [job_bytes E msg1]"
    and fs: "\<And>s. s \<in> set sels \<Longrightarrow> fails r_inv view task j s"
    using Cons.prems(4,6) eqs line by simp_all
  obtain w2 msg2 where
    IH: "\<And>rest. work_queue R B E ts (Queue msg1) w1 (sels @ rest) = work_queue R B E ts (Queue msg1) w2 rest"
      "r_inv (rst w2)" "b_inv (bst w2)"
      "line (bst w2) = (line (bst w1))(Queue msg1 := [job_bytes E msg2])"
      "same_job msg2 msg1" "Retried msg2 = Retried msg1 + of_nat (length sels)"
      "sels \<noteq> [] \<longrightarrow> (\<exists>n. GetJob R E w2 (ID msg1) =
         Ok (msg2\<lparr>ProcessedAt := n, Status := StatusRetrying\<rparr>))"
    using Cons.IH [OF inv Cons.prems(3) job Cons.prems(5) fs ln Cons.prems(8) len] by blast
  show ?case
  proof (cases "sels = []")
    case True
    then show ?thesis
      using turn inv line same retried get by (intro exI [of _ w1] exI [of _ msg1]) simp
  next
    case False
    then show ?thesis
      using turn IH line eqs same retried
      by (intro exI [of _ w2] exI [of _ msg2]) (auto simp: same_job_def)
  qed
qed

text \<open>The last attempt: the message is gone, the status final, the \<open>OnError\<close> jobs queued.\<close>

lemma failing_last_turn:
  assumes "r_inv (rst w)" "b_inv (bst w)" "codec_ok (job_codec E)"
    and "MsgJob msg = Some j" "map_of ts (Task j) = Some task" "fails r_inv view task j sel"
    and "line (bst w) (Queue msg) = [job_bytes E msg]" "MaxRetry msg = Retried msg"
    and "\<And>t. t \<in> set (OnError j) \<Longrightarrow> immediate t"
    and "\<And>q. length (line (bst w) q) + length (OnError j) \<le> capacity"
  shows "\<exists>w1 n n' msg1. work_queue R B E ts (Queue msg) w [sel] = w1
    \<and> r_inv (rst w1) \<and> b_inv (bst w1)
    \<and> (\<forall>q. line (bst w1) q = join (((line (bst w))(Queue msg := [])) q)
         (bytes_for E q (messages_from E n [] (OnError j))))
    \<and> same_job msg1 msg \<and> Retried msg1 = Retried msg
    \<and> GetJob R E w1 (ID msg) = Ok (msg1\<lparr>ProcessedAt := n', Status := StatusFailed\<rparr>)
    \<and> ID msg \<in> fail_ids (rst w1)"
proof -
  obtain w0 where w0: "b_inv (bst w0)" "line (bst w0) = (line (bst w))(Queue msg := [])"
      "rst w0 = rst w"
      "\<And>w2. process_one R B E ts w0 (job_bytes E msg) sel = (w2, Ok ())
         \<Longrightarrow> work_queue R B E ts (Queue msg) w [sel] = work_queue R B E ts (Queue msg) w2 []"
    by (rule work_queue_turn [OF assms(2,7), where E = E and ts = ts]) blast
  let ?w = "with_status R E w0 StatusProcessing msg"
  have inv: "r_inv (rst ?w)" using assms(1) w0(3) by simp
  obtain w1 err where att: "attempt task j msg ?w sel = (w1, err)" by fastforce
  then obtain e where e: "err = Some e" and
    fr: "client_frame r_inv view ?w
           (call_cb_err (FailedCB (TaskOpts task)) \<lparr>Meta = meta.truncate msg\<rparr> e w1)"
    using assms(6) inv unfolding fails_def by blast
  define w2 where "w2 = call_cb_err (FailedCB (TaskOpts task)) \<lparr>Meta = meta.truncate msg\<rparr> e w1"
  define w3 where "w3 = enqueued_list R B E [] w2 (OnError j)"
  let ?msg = "msg\<lparr>PrevErr := error_string e\<rparr>"
  let ?w4 = "with_status R E (w3\<lparr>rst := mark_failed R (rst w3) (ID msg)\<rparr>) StatusFailed ?msg"
  have w2: "r_inv (rst w2)" "bst w2 = bst w0"
    using fr by (simp_all add: client_frame_def w2_def)
  have room: "\<And>q. length (line (bst w2) q) + length (OnError j) \<le> capacity"
    using w0 w2 assms(10) by (metis (no_types, lifting) add_le_mono1 fun_upd_apply le_trans
        list.size(3) le0 with_status_sel(1))
  note enq = enqueued_list_facts [where w = w2 and ts = "OnError j" and E = E and prev = "[]"]
  have w3: "r_inv (rst w3)" "b_inv (bst w3)"
    "\<And>q. line (bst w3) q = join (line (bst w2) q) (bytes_for E q (messages_from E (uuid_calls w2) [] (OnError j)))"
    using enq w2 w0 room by (simp_all add: w3_def)
  have "execJob R B E ?w msg task sel = (?w4, Ok ())"
    using execJob_fail [OF assms(4) att [unfolded e] assms(8) w2_def w3_def w2(1) _ assms(3,9) room]
      w2(2) w0(1) by simp
  then have "process_one R B E ts w0 (job_bytes E msg) sel = (?w4, Ok ())"
    using assms w0 by (simp add: process_one_eq)
  then have "work_queue R B E ts (Queue msg) w [sel] = ?w4" using w0(4) by simp
  then show ?thesis
    using w3 w2 w0 assms(3)
    by (intro exI [of _ ?w4] exI [of _ "uuid_calls w2"] exI [of _ "time_Now E (now_calls w3)"]
        exI [of _ ?msg])
      (auto simp: same_job_def stamp_def intro!: GetJob_view)
qed

text \<open>The whole run: one attempt more than there are retries, then the job has failed.\<close>

lemma retries_exhausted:
  assumes "r_inv (rst w)" "b_inv (bst w)" "codec_ok (job_codec E)"
    and "MsgJob msg = Some j" "map_of ts (Task j) = Some task"
    and "\<And>sel. sel \<in> set sels \<Longrightarrow> fails r_inv view task j sel"
    and "line (bst w) (Queue msg) = [job_bytes E msg]"
    and "length sels = unat (MaxRetry msg - Retried msg) + 1"
    and "\<And>t. t \<in> set (OnError j) \<Longrightarrow> immediate t"
    and "\<And>q. length (line (bst w) q) + length (OnError j) \<le> capacity" "0 < capacity"
  shows "\<exists>n n' msg1. let w1 = work_queue R B E ts (Queue msg) w sels in
    r_inv (rst w1) \<and> b_inv (bst w1)
    \<and> (\<forall>q. line (bst w1) q = join (((line (bst w))(Queue msg := [])) q)
         (bytes_for E q (messages_from E n [] (OnError j))))
    \<and> same_job msg1 msg \<and> Retried msg1 = MaxRetry msg
    \<and> GetJob R E w1 (ID msg) = Ok (msg1\<lparr>ProcessedAt := n', Status := StatusFailed\<rparr>)
    \<and> ID msg \<in> fail_ids (rst w1)"
proof -
  obtain sels' sel where sels: "sels = sels' @ [sel]"
    using assms(8) by (cases sels rule: rev_cases) auto
  let ?k = "unat (MaxRetry msg - Retried msg)"
  have len: "length sels' = ?k" using assms(8) by (simp add: sels)
  have fs: "\<And>s. s \<in> set sels' \<Longrightarrow> fails r_inv view task j s" "fails r_inv view task j sel"
    using assms(6) by (simp_all add: sels)
  obtain w1 msg1 where
    w1: "\<And>rest. work_queue R B E ts (Queue msg) w (sels' @ rest) = work_queue R B E ts (Queue msg) w1 rest"
      "r_inv (rst w1)" "b_inv (bst w1)"
      "line (bst w1) = (line (bst w))(Queue msg := [job_bytes E msg1])"
      "same_job msg1 msg" "Retried msg1 = Retried msg + of_nat ?k"
    using retry_turns [OF assms(1-5) fs(1) assms(7,11) eq_refl [OF len]] unfolding len by blast
  have eqs: "Queue msg1 = Queue msg" "ID msg1 = ID msg" "MsgJob msg1 = Some j" "MaxRetry msg1 = MaxRetry msg"
    using w1(5) assms(4) by (simp_all add: same_job_def)
  have last: "MaxRetry msg1 = Retried msg1"
    using w1(6) eqs by simp
  have room: "\<And>q. length (line (bst w1) q) + length (OnError j) \<le> capacity"
    using assms(7,10) w1(4) by (metis fun_upd_apply length_Cons list.size(3))
  have ln: "line (bst w1) (Queue msg1) = [job_bytes E msg1]"
    using w1(4) eqs by simp
  have "work_queue R B E ts (Queue msg) w sels = work_queue R B E ts (Queue msg1) w1 [sel]"
    using w1(1) eqs by (simp add: sels)
  then show ?thesis
    using failing_last_turn [OF w1(2,3) assms(3) eqs(3) assms(5) fs(2) ln last assms(9) room]
      w1(4,5) eqs last by (simp add: same_job_def Let_def)
qed

section \<open>A job that succeeds\<close>

lemma succeeding_turn:
  assumes "r_inv (rst w)" "b_inv (bst w)" "codec_ok (job_codec E)"
    and "MsgJob msg = Some j" "map_of ts (Task j) = Some task"
    and "line (bst w) (Queue msg) = [job_bytes E msg]"
    and run: "succeeds r_inv view task j msg sel result"
    and prev: "OnSuccess j \<noteq> [] \<Longrightarrow> result (view (rst w) (ID msg)) = Some prev"
    and "OnSuccess j \<noteq> [] \<Longrightarrow> plain_id (ID msg)"
    and "\<And>t. t \<in> set (OnSuccess j) \<Longrightarrow> immediate t"
    and "\<And>q. length (line (bst w) q) + length (OnSuccess j) \<le> capacity"
  shows "\<exists>w1 n'. (\<forall>sels. work_queue R B E ts (Queue msg) w (sel # sels) = work_queue R B E ts (Queue msg) w1 sels)
    \<and> r_inv (rst w1) \<and> b_inv (bst w1)
    \<and> (\<forall>q. line (bst w1) q = join (((line (bst w))(Queue msg := [])) q)
         (bytes_for E q (messages_from E (uuid_calls w) prev (OnSuccess j))))
    \<and> GetJob R E w1 (ID msg) = Ok (msg\<lparr>ProcessedAt := n', Status := StatusDone,
         OnSuccessIDs := OnSuccessIDs msg @ map ID (metas_from E (uuid_calls w) prev (OnSuccess j))\<rparr>)
    \<and> ID msg \<in> succ_ids (rst w1)
    \<and> uuid_calls w1 = foldl next_uuids (uuid_calls w) (OnSuccess j)
    \<and> (\<forall>k. k \<noteq> ID msg \<longrightarrow> k \<notin> ID ` set (metas_from E (uuid_calls w) prev (OnSuccess j))
         \<longrightarrow> GetJob R E w1 k = GetJob R E w k)
    \<and> (\<forall>k. view (rst w1) (chainPrefix @ k) = view (rst w) (chainPrefix @ k)
         \<and> view (rst w1) (groupPrefix @ k) = view (rst w) (groupPrefix @ k))"
proof -
  obtain w0 where w0: "b_inv (bst w0)" "line (bst w0) = (line (bst w))(Queue msg := [])"
      "rst w0 = rst w" "uuid_calls w0 = uuid_calls w"
      "\<And>sels w2. process_one R B E ts w0 (job_bytes E msg) sel = (w2, Ok ())
         \<Longrightarrow> work_queue R B E ts (Queue msg) w (sel # sels) = work_queue R B E ts (Queue msg) w2 sels"
    by (rule work_queue_turn [OF assms(2,6), where E = E and ts = ts]) blast
  let ?w = "with_status R E w0 StatusProcessing msg"
  have inv: "r_inv (rst ?w)" using assms(1) w0(3) by simp
  have same: "view (rst ?w) (ID msg) = view (rst w) (ID msg)" if "OnSuccess j \<noteq> []"
    using assms(1,9) that w0(3) by (simp add: plain_id_neq)
  obtain w1 where att: "attempt task j msg ?w sel = (w1, None)" and
    fr: "client_frame r_inv view ?w (call_cb (SuccessCB (TaskOpts task)) \<lparr>Meta = meta.truncate msg\<rparr> w1)"
    and res: "OnSuccess j \<noteq> [] \<Longrightarrow> view (rst (call_cb (SuccessCB (TaskOpts task))
         \<lparr>Meta = meta.truncate msg\<rparr> w1)) (ID msg) = Some prev"
    using prev same by (metis succeedsE [OF run inv])
  define w2 where "w2 = call_cb (SuccessCB (TaskOpts task)) \<lparr>Meta = meta.truncate msg\<rparr> w1"
  define w3 where "w3 = enqueued_list R B E prev w2 (OnSuccess j)"
  let ?msg = "msg\<lparr>OnSuccessIDs := OnSuccessIDs msg @
    map ID (metas_from E (uuid_calls w2) prev (OnSuccess j))\<rparr>"
  let ?w4 = "with_status R E (w3\<lparr>rst := mark_done R (rst w3) (ID msg)\<rparr>) StatusDone ?msg"
  have w2: "r_inv (rst w2)" "bst w2 = bst w0" "uuid_calls w2 = uuid_calls w"
      "\<And>k. view (rst w2) (jobPrefix @ k) = view (rst ?w) (jobPrefix @ k)"
      "\<And>k. view (rst w2) (chainPrefix @ k) = view (rst ?w) (chainPrefix @ k)"
      "\<And>k. view (rst w2) (groupPrefix @ k) = view (rst ?w) (groupPrefix @ k)"
    using fr w0(4) by (simp_all add: client_frame_def w2_def)
  have room: "\<And>q. length (line (bst w2) q) + length (OnSuccess j) \<le> capacity"
    using w0 w2 assms(11) by (metis (no_types, lifting) add_le_mono1 fun_upd_apply le_trans
        list.size(3) le0)
  note enq = enqueued_list_facts [where w = w2 and ts = "OnSuccess j" and E = E and prev = prev]
  have w3: "r_inv (rst w3)" "b_inv (bst w3)"
    "\<And>q. line (bst w3) q = join (line (bst w2) q) (bytes_for E q (messages_from E (uuid_calls w2) prev (OnSuccess j)))"
    "\<And>k. k \<notin> (\<lambda>m. jobPrefix @ ID m) ` set (metas_from E (uuid_calls w2) prev (OnSuccess j))
       \<Longrightarrow> view (rst w3) k = view (rst w2) k"
    "uuid_calls w3 = foldl next_uuids (uuid_calls w2) (OnSuccess j)"
    using enq w2 w0 room by (simp_all add: w3_def uuid_calls_enqueued_list)
  have "execJob R B E ?w msg task sel = (?w4, Ok ())"
    using execJob_success [OF assms(4) att w2_def w3_def w2(1) _ assms(3,10) room]
      w2(2) w0(1) res assms(9) by (simp add: w2_def)
  then have "process_one R B E ts w0 (job_bytes E msg) sel = (?w4, Ok ())"
    using assms w0 by (simp add: process_one_eq)
  note turn = w0(5) [OF this]
  have "GetJob R E ?w4 (ID msg) =
      Ok (stamp E (w3\<lparr>rst := mark_done R (rst w3) (ID msg)\<rparr>) StatusDone ?msg)"
    using w3 assms(3) by (intro GetJob_view) auto
  moreover have "GetJob R E ?w4 k = GetJob R E w k" if "k \<noteq> ID msg"
      "k \<notin> ID ` set (metas_from E (uuid_calls w) prev (OnSuccess j))" for k
    using that w3 w2 w0 assms(1,3) by (intro GetJob_cong) (auto simp: image_iff)
  moreover have "view (rst ?w4) (chainPrefix @ k) = view (rst w) (chainPrefix @ k)"
      "view (rst ?w4) (groupPrefix @ k) = view (rst w) (groupPrefix @ k)" for k
    using w3 w2 w0 assms(1) by (auto simp: image_iff)
  ultimately show ?thesis
    using turn w3 w2 w0
    by (intro exI [of _ ?w4] exI [of _ "time_Now E (now_calls w3)"]) (simp add: stamp_def)
qed

text \<open>
  Success without a saved result, for a job with successors: the message is taken, the
  status stays processing, and no successor is queued.
\<close>

lemma succeeding_turn_no_result:
  assumes "r_inv (rst w)" "b_inv (bst w)" "codec_ok (job_codec E)"
    and "MsgJob msg = Some j" "map_of ts (Task j) = Some task"
    and "line (bst w) q = job_bytes E msg # rest"
    and run: "succeeds r_inv view task j msg sel (\<lambda>res. res)"
    and "OnSuccess j = t # js" "plain_id (ID msg)" "view (rst w) (ID msg) = None"
    and "key_ok (ID msg)"
  shows "\<exists>w1 n. (\<forall>sels. work_queue R B E ts q w (sel # sels) = work_queue R B E ts q w1 sels)
    \<and> r_inv (rst w1) \<and> b_inv (bst w1) \<and> line (bst w1) = (line (bst w))(q := rest)
    \<and> GetJob R E w1 (ID msg) = Ok (msg\<lparr>ProcessedAt := n, Status := StatusProcessing\<rparr>)"
proof -
  obtain w0 where w0: "b_inv (bst w0)" "line (bst w0) = (line (bst w))(q := rest)" "rst w0 = rst w"
      "\<And>sels w2 e. process_one R B E ts w0 (job_bytes E msg) sel = (w2, Err e)
         \<Longrightarrow> work_queue R B E ts q w (sel # sels) = work_queue R B E ts q w2 sels"
    by (rule work_queue_turn [OF assms(2,6), where E = E and ts = ts]) blast
  let ?w = "with_status R E w0 StatusProcessing msg"
  have inv: "r_inv (rst ?w)" using assms(1) w0(3) by simp
  obtain w1 where att: "attempt task j msg ?w sel = (w1, None)" and
    fr: "client_frame r_inv view ?w (call_cb (SuccessCB (TaskOpts task)) \<lparr>Meta = meta.truncate msg\<rparr> w1)"
    and res: "view (rst (call_cb (SuccessCB (TaskOpts task)) \<lparr>Meta = meta.truncate msg\<rparr> w1)) (ID msg) =
      view (rst ?w) (ID msg)"
    by (rule succeedsE [OF run inv])
  define w2 where "w2 = call_cb (SuccessCB (TaskOpts task)) \<lparr>Meta = meta.truncate msg\<rparr> w1"
  let ?w3 = "w2\<lparr>uuid_calls := next_uuids (uuid_calls w2) t\<rparr>"
  have w2: "r_inv (rst w2)" "bst w2 = bst w0"
      "view (rst w2) (jobPrefix @ k) = view (rst ?w) (jobPrefix @ k)" for k
    using fr by (simp_all add: client_frame_def w2_def)
  have none: "view (rst w2) (ID msg) = None"
    using res assms(1,10) w0(3) plain_id_neq [OF assms(9)] by (simp add: w2_def)
  have "process_one R B E ts w0 (job_bytes E msg) sel = (?w3, Err ErrNotFound)"
    using execJob_no_result [OF assms(4) att w2_def w2(1) assms(8) none assms(11)] assms w0
    by (simp add: process_one_eq)
  note turn = w0(4) [OF this]
  have "GetJob R E ?w3 (ID msg) = Ok (stamp E w0 StatusProcessing msg)"
    using w2 assms(1,3) w0(3) by (intro GetJob_view) auto
  then show ?thesis
    using turn w2 w0 by (intro exI [of _ ?w3] exI [of _ "time_Now E (now_calls w0)"]) (simp add: stamp_def)
qed

end

end
