(* ===== verification/Chains.thy ===== *)
theory Chains
  imports Jobs
begin

text \<open>
  Chains, \<open>chains.go\<close>: linking the jobs, enqueueing the first, and the status of a chain,
  found by following the identifiers of the successors from the first job on. The loop
  \<open>checkJobs\<close> need not end (the identifiers may form a cycle), so it is a partial function
  with \<open>None\<close> for a run that does not return; \<open>GetChain\<close> turns that into \<open>Diverge\<close>. A
  call of \<open>GetChain\<close> reads one state of the store.
\<close>

section \<open>Building a chain\<close>

text \<open>
  After the loop of \<open>NewChain\<close> every job but the last has the next one, with its own
  successors, at the end of its \<open>OnSuccess\<close> list. The code links through pointers into the
  slice of jobs; \<open>Chain_Heap\<close> proves that the pointers denote this nested value.
\<close>

fun link_jobs :: "job list \<Rightarrow> job list" where
  "link_jobs [] = []"
| "link_jobs [t] = [t]"
| "link_jobs (t # u # ts) =
     (let rest = link_jobs (u # ts)
      in with_OnSuccess (OnSuccess t @ [hd rest]) t # rest)"

lemma nth_link_jobs:
  "i < length js \<Longrightarrow> link_jobs js ! i =
     (if Suc i < length js then with_OnSuccess (OnSuccess (js ! i) @ [link_jobs js ! Suc i]) (js ! i)
      else js ! i)"
proof (induction js arbitrary: i rule: link_jobs.induct)
  case (3 t u ts)
  have "link_jobs (u # ts) \<noteq> []" by (cases ts) (simp_all add: Let_def)
  then show ?case
    using 3 by (cases i) (simp_all add: Let_def hd_conv_nth)
qed simp_all

lemma length_link_jobs [simp]: "length (link_jobs js) = length js"
  by (induction js rule: link_jobs.induct) (simp_all add: Let_def)

definition NewChain :: "job list \<Rightarrow> chain_opts \<Rightarrow> chain outcome" where
  "NewChain js opts =
     (if length js < 2
      then Err (ErrorString ''minimum 2 tasks required to form chain'')
      else Ok \<lparr>ChainJobs = link_jobs js, ChainOpts = opts\<rparr>)"

definition chain_message_of ::
  "ext \<Rightarrow> ('b, 'r) world \<Rightarrow> chain \<Rightarrow> ('b, 'r) world \<times> chain_message" where
  "chain_message_of E w c =
     (let (w, ident) = (if ChainOptID (ChainOpts c) = [] then new_uuid E w
                        else (w, ChainOptID (ChainOpts c)))
      in (w, \<lparr>ChainID = ident, ChainStatus = StatusProcessing, JobID = [], PrevJobs = []\<rparr>))"

section \<open>The chain message store\<close>

definition setChainMessage ::
  "'r results_impl \<Rightarrow> ext \<Rightarrow> ('b, 'r) world \<Rightarrow> chain_message \<Rightarrow> ('b, 'r) world \<times> unit outcome" where
  "setChainMessage R E w c =
     on_ok (w, of_sum (marshal (chain_codec E) c))
       (\<lambda>w b. store_Set R w (chainPrefix @ ChainID c) b)"

definition getChainMessage ::
  "'r results_impl \<Rightarrow> ext \<Rightarrow> ('b, 'r) world \<Rightarrow> string \<Rightarrow> chain_message outcome" where
  "getChainMessage R E w k =
     bind_ok (GetResult R w (chainPrefix @ k)) (\<lambda>b. of_sum (unmarshal (chain_codec E) b))"

section \<open>Enqueueing a chain\<close>

definition EnqueueChain ::
  "'r results_impl \<Rightarrow> 'b broker_impl \<Rightarrow> ext \<Rightarrow> ('b, 'r) world \<Rightarrow> chain
     \<Rightarrow> ('b, 'r) world \<times> string outcome" where
  "EnqueueChain R B E w c =
     (let (w, msg) = chain_message_of E w c in
      case ChainJobs c of
        [] \<Rightarrow> (w, Panic)
      | root # _ \<Rightarrow>
          on_ok (Enqueue R B E w root) (\<lambda>w job_id.
            let msg = msg\<lparr>JobID := job_id\<rparr> in
            on_ok (setChainMessage R E w msg) (\<lambda>w _. (w, Ok (ChainID msg)))))"

section \<open>The status of a chain\<close>

partial_function (option) checkJobs ::
  "'r results_impl \<Rightarrow> ext \<Rightarrow> ('b, 'r) world \<Rightarrow> string \<Rightarrow> chain_message \<Rightarrow> job_message
     \<Rightarrow> chain_message outcome option" where
  "checkJobs R E w cid c cj =
     (if Status cj = StatusFailed
      then Some (Ok (c\<lparr>PrevJobs := PrevJobs c @ [ID cj], ChainStatus := StatusFailed\<rparr>))
      else if Status cj = StatusStarted \<or> Status cj = StatusProcessing
              \<or> Status cj = StatusRetrying
      then Some (Ok (c\<lparr>ChainStatus := StatusProcessing\<rparr>))
      else if Status cj = StatusDone
      then (let c = c\<lparr>PrevJobs := PrevJobs c @ [ID cj]\<rparr> in
            case OnSuccessIDs cj of
              [] \<Rightarrow> Some (Ok (c\<lparr>ChainStatus := StatusDone\<rparr>))
            | next_id # _ \<Rightarrow>
                (case GetJob R E w next_id of
                   Ok nxt \<Rightarrow> checkJobs R E w cid c nxt
                 | Err e \<Rightarrow> Some (Err (Wrapped (''failed to get next job '' @ next_id @
                                         '' in chain '' @ cid @ '': '') e))
                 | Panic \<Rightarrow> Some Panic
                 | Diverge \<Rightarrow> Some Diverge))
      else Some (Ok c))"

definition GetChain ::
  "'r results_impl \<Rightarrow> ext \<Rightarrow> ('b, 'r) world \<Rightarrow> string \<Rightarrow> ('b, 'r) world \<times> chain_message outcome" where
  "GetChain R E w cid =
     on_ok (w, getChainMessage R E w cid) (\<lambda>w c.
       if ChainStatus c = StatusDone \<or> ChainStatus c = StatusFailed then (w, Ok c)
       else
         on_ok (wrap_err (''failed to get current job '' @ JobID c @ '' in chain '' @ cid @ '': '')
                  (w, GetJob R E w (JobID c)))
           (\<lambda>w cj. case checkJobs R E w cid c cj of
              None \<Rightarrow> (w, Diverge)
            | Some res \<Rightarrow>
                on_ok (w, res) (\<lambda>w c.
                on_ok (wrap_err (''failed to save chain message for chain '' @ cid @ '': '')
                         (setChainMessage R E w c))
                  (\<lambda>w _. (w, Ok c)))))"

section \<open>Following a chain through the store\<close>

text \<open>
  \<open>done_path R E w k ids j\<close>: from the identifier \<open>k\<close> the store leads through finished jobs,
  whose messages carry the identifiers \<open>ids\<close>, to the message \<open>j\<close>.
\<close>

inductive done_path ::
  "'r results_impl \<Rightarrow> ext \<Rightarrow> ('b, 'r) world \<Rightarrow> string \<Rightarrow> string list \<Rightarrow> job_message \<Rightarrow> bool"
  for R E w where
  here: "GetJob R E w k = Ok j \<Longrightarrow> done_path R E w k [] j"
| later: "GetJob R E w k = Ok m \<Longrightarrow> Status m = StatusDone \<Longrightarrow> OnSuccessIDs m = k' # ks
    \<Longrightarrow> done_path R E w k' ids j \<Longrightarrow> done_path R E w k (ID m # ids) j"

inductive_cases done_pathE: "done_path R E w k ids j"
inductive_simps done_path_Nil: "done_path R E w k [] j"
inductive_simps done_path_Cons: "done_path R E w k (i # ids) j"

text \<open>A job the chain's status depends on: not finished, or finished without a successor.\<close>

definition chain_stop :: "job_message \<Rightarrow> bool" where
  "chain_stop j \<longleftrightarrow> Status j \<noteq> StatusDone \<or> OnSuccessIDs j = []"

text \<open>The chain message as the job \<open>j\<close> that stops the walk determines it.\<close>

definition chain_verdict :: "chain_message \<Rightarrow> job_message \<Rightarrow> chain_message" where
  "chain_verdict c j =
     (if Status j = StatusFailed
      then c\<lparr>PrevJobs := PrevJobs c @ [ID j], ChainStatus := StatusFailed\<rparr>
      else if Status j = StatusDone
      then c\<lparr>PrevJobs := PrevJobs c @ [ID j], ChainStatus := StatusDone\<rparr>
      else if Status j = StatusStarted \<or> Status j = StatusProcessing \<or> Status j = StatusRetrying
      then c\<lparr>ChainStatus := StatusProcessing\<rparr>
      else c)"

lemma status_distinct [simp]:
  "StatusDone \<noteq> StatusFailed" "StatusDone \<noteq> StatusStarted" "StatusDone \<noteq> StatusProcessing"
  "StatusDone \<noteq> StatusRetrying" "StatusFailed \<noteq> StatusStarted" "StatusFailed \<noteq> StatusProcessing"
  "StatusFailed \<noteq> StatusRetrying" "StatusStarted \<noteq> StatusProcessing"
  "StatusStarted \<noteq> StatusRetrying" "StatusProcessing \<noteq> StatusRetrying"
  "StatusFailed \<noteq> StatusDone" "StatusStarted \<noteq> StatusDone" "StatusProcessing \<noteq> StatusDone"
  "StatusRetrying \<noteq> StatusDone" "StatusStarted \<noteq> StatusFailed" "StatusProcessing \<noteq> StatusFailed"
  "StatusRetrying \<noteq> StatusFailed" "StatusProcessing \<noteq> StatusStarted"
  "StatusRetrying \<noteq> StatusStarted" "StatusRetrying \<noteq> StatusProcessing"
  by (simp_all add: status_defs)

lemma checkJobs_stop: "chain_stop j \<Longrightarrow> checkJobs R E w cid c j = Some (Ok (chain_verdict c j))"
  by (subst checkJobs.simps) (auto simp: chain_stop_def chain_verdict_def)

lemma checkJobs_next:
  assumes "Status m = StatusDone" "OnSuccessIDs m = k # ks" "GetJob R E w k = Ok m'"
  shows "checkJobs R E w cid c m = checkJobs R E w cid (c\<lparr>PrevJobs := PrevJobs c @ [ID m]\<rparr>) m'"
  using assms by (subst checkJobs.simps) simp

lemma checkJobs_path:
  assumes "done_path R E w k ids j" "GetJob R E w k = Ok m"
  shows "checkJobs R E w cid c m = checkJobs R E w cid (c\<lparr>PrevJobs := PrevJobs c @ ids\<rparr>) j"
  using assms
proof (induction arbitrary: c m rule: done_path.induct)
  case (here k j)
  then show ?case by simp
next
  case (later k m0 k' ks ids j)
  then obtain m' where m': "GetJob R E w k' = Ok m'"
    by (auto elim: done_pathE)
  have "checkJobs R E w cid c m0 = checkJobs R E w cid (c\<lparr>PrevJobs := PrevJobs c @ [ID m0]\<rparr>) m'"
    using later m' by (intro checkJobs_next) auto
  also have "\<dots> = checkJobs R E w cid (c\<lparr>PrevJobs := PrevJobs c @ ID m0 # ids\<rparr>) j"
    using later.IH [OF m'] by simp
  finally show ?case using later by simp
qed

text \<open>The walk ends at a job that stops it, or whose successor cannot be read.\<close>

definition walk_ends :: "'r results_impl \<Rightarrow> ext \<Rightarrow> ('b, 'r) world \<Rightarrow> job_message \<Rightarrow> bool" where
  "walk_ends R E w j \<longleftrightarrow>
     chain_stop j \<or> (\<forall>m. GetJob R E w (hd (OnSuccessIDs j)) \<noteq> Ok m)"

lemma checkJobs_returns_path:
  fixes R :: "'r results_impl" and w :: "('b, 'r) world"
  assumes "checkJobs R E w cid c m = Some r"
  shows "\<forall>k. GetJob R E w k = Ok m \<longrightarrow> (\<exists>ids j. done_path R E w k ids j \<and> walk_ends R E w j)"
proof (rule checkJobs.raw_induct [where P = "\<lambda>R E w cid c m r. \<forall>k. GetJob R E w k = Ok m
    \<longrightarrow> (\<exists>ids j. done_path R E w k ids j \<and> walk_ends R E w j)", OF _ assms])
  fix f and R :: "'r results_impl" and E and w :: "('b, 'r) world" and cid
    and c :: chain_message and m :: job_message and r
  assume IH: "\<And>R E w cid c m r. f R E w cid c m = Some r \<Longrightarrow> \<forall>k. GetJob R E w k = Ok m
      \<longrightarrow> (\<exists>ids j. done_path (R :: 'r results_impl) E (w :: ('b, 'r) world) k ids j \<and> walk_ends R E w j)"
    and eq: "(if Status m = StatusFailed
      then Some (Ok (c\<lparr>PrevJobs := PrevJobs c @ [ID m], ChainStatus := StatusFailed\<rparr>))
      else if Status m = StatusStarted \<or> Status m = StatusProcessing \<or> Status m = StatusRetrying
      then Some (Ok (c\<lparr>ChainStatus := StatusProcessing\<rparr>))
      else if Status m = StatusDone
      then (let c = c\<lparr>PrevJobs := PrevJobs c @ [ID m]\<rparr> in
            case OnSuccessIDs m of
              [] \<Rightarrow> Some (Ok (c\<lparr>ChainStatus := StatusDone\<rparr>))
            | next_id # _ \<Rightarrow>
                (case GetJob R E w next_id of
                   Ok nxt \<Rightarrow> f R E w cid c nxt
                 | Err e \<Rightarrow> Some (Err (Wrapped (''failed to get next job '' @ next_id @
                                         '' in chain '' @ cid @ '': '') e))
                 | Panic \<Rightarrow> Some Panic
                 | Diverge \<Rightarrow> Some Diverge))
      else Some (Ok c)) = Some r"
  show "\<forall>k. GetJob R E w k = Ok m \<longrightarrow> (\<exists>ids j. done_path R E w k ids j \<and> walk_ends R E w j)"
  proof (intro allI impI)
    fix k assume k: "GetJob R E w k = Ok m"
    show "\<exists>ids j. done_path R E w k ids j \<and> walk_ends R E w j"
    proof (cases "walk_ends R E w m")
      case True
      then show ?thesis using k done_path.here by blast
    next
      case False
      then obtain k' ks m' where m': "Status m = StatusDone" "OnSuccessIDs m = k' # ks"
          "GetJob R E w k' = Ok m'"
        by (auto simp: walk_ends_def chain_stop_def neq_Nil_conv)
      then have "f R E w cid (c\<lparr>PrevJobs := PrevJobs c @ [ID m]\<rparr>) m' = Some r"
        using eq by simp
      with m' k show ?thesis using IH done_path.later by metis
    qed
  qed
qed

lemma checkJobs_returns_iff:
  assumes "GetJob R E w k = Ok m"
  shows "checkJobs R E w cid c m \<noteq> None \<longleftrightarrow> (\<exists>ids j. done_path R E w k ids j \<and> walk_ends R E w j)"
proof
  assume "checkJobs R E w cid c m \<noteq> None"
  then show "\<exists>ids j. done_path R E w k ids j \<and> walk_ends R E w j"
    using checkJobs_returns_path assms by blast
next
  assume "\<exists>ids j. done_path R E w k ids j \<and> walk_ends R E w j"
  then obtain ids j where j: "done_path R E w k ids j" "walk_ends R E w j" by blast
  have "checkJobs R E w cid c' j \<noteq> None" for c'
    using j(2) by (subst checkJobs.simps)
      (auto simp: walk_ends_def chain_stop_def Let_def split: list.splits outcome.splits)
  then show "checkJobs R E w cid c m \<noteq> None"
    using checkJobs_path [OF j(1) assms] by simp
qed

text \<open>A set of finished jobs that leads only to itself holds the walk for ever.\<close>

definition done_cycle ::
  "'r results_impl \<Rightarrow> ext \<Rightarrow> ('b, 'r) world \<Rightarrow> string set \<Rightarrow> bool" where
  "done_cycle R E w K \<longleftrightarrow>
     (\<forall>k\<in>K. \<exists>m k' ks. GetJob R E w k = Ok m \<and> Status m = StatusDone
        \<and> OnSuccessIDs m = k' # ks \<and> k' \<in> K)"

lemma done_cycle_path:
  assumes "done_path R E w k ids j" "done_cycle R E w K" "k \<in> K"
  shows "\<not> walk_ends R E w j"
  using assms
proof (induction rule: done_path.induct)
  case (here k j)
  then obtain k' ks where "Status j = StatusDone" "OnSuccessIDs j = k' # ks" "k' \<in> K"
    by (fastforce simp: done_cycle_def)
  with here show ?case by (fastforce simp: done_cycle_def walk_ends_def chain_stop_def)
next
  case (later k m k' ks ids j)
  then show ?case by (fastforce simp: done_cycle_def)
qed

end
