(* ===== verification/Chain_System.thy ===== *)
theory Chain_System
  imports Exec_System Chains
begin

text \<open>
  Chains on a reliable store and a line broker: reading and writing the
  chain message, the result of \<open>GetChain\<close> from the path of finished jobs in the store, and
  the run of a whole chain.
\<close>

definition chain_stored ::
  "'r results_impl \<Rightarrow> ext \<Rightarrow> ('b, 'r) world \<Rightarrow> chain_message \<Rightarrow> ('b, 'r) world" where
  "chain_stored R E w c =
     w\<lparr>rst := put R (rst w) (chainPrefix @ ChainID c) (encode (chain_codec E) c)\<rparr>"

lemma chain_stored_sel [simp]:
  "bst (chain_stored R E w c) = bst w" "uuid_calls (chain_stored R E w c) = uuid_calls w"
  by (simp_all add: chain_stored_def)

lemma done_path_cong:
  assumes "done_path R E w k ids j" "\<And>k. GetJob R E w' k = GetJob R E w k"
  shows "done_path R E w' k ids j"
  using assms by (induction rule: done_path.induct) (auto intro: done_path.intros)

lemma chain_verdict_sel [simp]:
  "ChainID (chain_verdict c j) = ChainID c" "JobID (chain_verdict c j) = JobID c"
  by (simp_all add: chain_verdict_def)

text \<open>The identifiers of a list of jobs enqueued one after the other.\<close>

definition job_id :: "ext \<Rightarrow> nat \<Rightarrow> job \<Rightarrow> string" where
  "job_id E n t = (if OptID (Opts t) = [] then uuid_NewString E n else OptID (Opts t))"

fun ids_from :: "ext \<Rightarrow> nat \<Rightarrow> job list \<Rightarrow> string list" where
  "ids_from E n [] = []"
| "ids_from E n (t # ts) = job_id E n t # ids_from E (next_uuids n t) ts"

lemma ID_default_meta: "ID (default_meta E n prev t) = job_id E n t"
  by (simp add: default_meta_def job_id_def)

lemma default_meta_cong:
  "Opts t = Opts u \<Longrightarrow> default_meta E n prev t = default_meta E n prev u"
  "Opts t = Opts u \<Longrightarrow> next_uuids n t = next_uuids n u"
  by (simp_all add: default_meta_def next_uuids_def)

lemma hd_link_jobs [simp]:
  "Opts (hd (link_jobs (t # js))) = Opts t" "Task (hd (link_jobs (t # js))) = Task t"
  "Payload (hd (link_jobs (t # js))) = Payload t" "OnError (hd (link_jobs (t # js))) = OnError t"
  by (cases js; simp add: Let_def)+

text \<open>The message of a chain just enqueued.\<close>

definition chain_id :: "ext \<Rightarrow> nat \<Rightarrow> chain \<Rightarrow> string" where
  "chain_id E n c = (if ChainOptID (ChainOpts c) = [] then uuid_NewString E n else ChainOptID (ChainOpts c))"

definition chain_uuids :: "nat \<Rightarrow> chain \<Rightarrow> nat" where
  "chain_uuids n c = (if ChainOptID (ChainOpts c) = [] then Suc n else n)"

definition new_chain_message :: "ext \<Rightarrow> nat \<Rightarrow> chain \<Rightarrow> job \<Rightarrow> chain_message" where
  "new_chain_message E n c t =
     \<lparr>ChainID = chain_id E n c, ChainStatus = StatusProcessing,
      JobID = job_id E (chain_uuids n c) t, PrevJobs = []\<rparr>"

lemma chain_message_of_eq:
  "chain_message_of E w c =
     (w\<lparr>uuid_calls := chain_uuids (uuid_calls w) c\<rparr>,
      \<lparr>ChainID = chain_id E (uuid_calls w) c, ChainStatus = StatusProcessing, JobID = [], PrevJobs = []\<rparr>)"
  by (simp add: chain_message_of_def chain_id_def chain_uuids_def new_uuid_def)

text \<open>
  Each of the jobs has a task whose attempts, under any identifier that \<open>P\<close> admits, succeed and
  save a result.
\<close>

definition chain_tasks_save ::
  "(string \<Rightarrow> bool) \<Rightarrow> ('r \<Rightarrow> bool) \<Rightarrow> ('r \<Rightarrow> string \<Rightarrow> bytes option) \<Rightarrow> (string, ('b, 'r) task) gomap \<Rightarrow> job list
     \<Rightarrow> (job \<Rightarrow> ('b, 'r) selected) \<Rightarrow> bool" where
  "chain_tasks_save P r_inv view ts js sel \<longleftrightarrow>
     (\<forall>t\<in>set js. \<exists>task. map_of ts (Task t) = Some task \<and>
        (\<forall>t' msg. Task t' = Task t \<longrightarrow> Payload t' = Payload t \<longrightarrow> P (ID msg) \<longrightarrow>
           (\<exists>res. succeeds r_inv view task t' msg (sel t) (\<lambda>_. Some res))))"

context job_system
begin

lemma chain_message_eq:
  assumes "r_inv (rst w)" "codec_ok (chain_codec E)"
  shows "setChainMessage R E w c = (chain_stored R E w c, Ok ())"
    "r_inv (rst (chain_stored R E w c))"
    "view (rst (chain_stored R E w c)) =
       (view (rst w))(chainPrefix @ ChainID c \<mapsto> encode (chain_codec E) c)"
    "getChainMessage R E (chain_stored R E w c) (ChainID c) = Ok c"
  using assms
  by (simp_all add: setChainMessage_def getChainMessage_def chain_stored_def store_Set_eq encode_simps
      GetResult_eq)

lemma GetJob_chain_stored:
  "r_inv (rst w) \<Longrightarrow> codec_ok (chain_codec E) \<Longrightarrow>
     GetJob R E (chain_stored R E w c) k = GetJob R E w k"
  by (rule GetJob_cong) (simp_all add: chain_message_eq)

lemma GetChain_eq:
  assumes "r_inv (rst w)" "codec_ok (chain_codec E)" "getChainMessage R E w cid = Ok c"
    and "ChainStatus c \<noteq> StatusDone" "ChainStatus c \<noteq> StatusFailed"
    and "done_path R E w (JobID c) ids j" "chain_stop j"
    and c': "c' = chain_verdict (c\<lparr>PrevJobs := PrevJobs c @ ids\<rparr>) j"
  shows "GetChain R E w cid = (chain_stored R E w c', Ok c')"
proof -
  obtain m where m: "GetJob R E w (JobID c) = Ok m"
    using assms(6) by (auto elim: done_pathE)
  have "checkJobs R E w cid c m = Some (Ok c')"
    using checkJobs_path [OF assms(6) m] checkJobs_stop [OF assms(7)] c' by simp
  then show ?thesis
    using assms m by (simp add: GetChain_def chain_message_eq)
qed

lemma GetJob_no_Diverge: "r_inv (rst w) \<Longrightarrow> GetJob R E w k \<noteq> Diverge"
  by (cases "view (rst w) (jobPrefix @ k)")
    (simp_all add: GetJob_def GetResult_eq of_sum_def split: sum.splits)

lemma checkJobs_no_Diverge:
  assumes "r_inv (rst w)" "GetJob R E w k = Ok m"
  shows "checkJobs R E w cid c m \<noteq> Some Diverge"
proof
  assume div: "checkJobs R E w cid c m = Some Diverge"
  then obtain ids j where j: "done_path R E w k ids j" "walk_ends R E w j"
    using checkJobs_returns_iff [OF assms(2), of cid c] by auto
  then have "checkJobs R E w cid (c\<lparr>PrevJobs := PrevJobs c @ ids\<rparr>) j = Some Diverge"
    using checkJobs_path [OF j(1) assms(2), of cid c] div by simp
  then show False
    using j(2) GetJob_no_Diverge [OF assms(1)]
    by (subst (asm) checkJobs.simps)
      (auto simp: walk_ends_def chain_stop_def Let_def split: if_splits list.splits outcome.splits)
qed

lemma GetChain_returns_iff:
  assumes "r_inv (rst w)" "codec_ok (chain_codec E)" "getChainMessage R E w cid = Ok c"
    and "ChainStatus c \<noteq> StatusDone" "ChainStatus c \<noteq> StatusFailed" "GetJob R E w (JobID c) = Ok m"
  shows "snd (GetChain R E w cid) \<noteq> Diverge \<longleftrightarrow>
    (\<exists>ids j. done_path R E w (JobID c) ids j \<and> walk_ends R E w j)"
proof -
  have "snd (GetChain R E w cid) \<noteq> Diverge \<longleftrightarrow> checkJobs R E w cid c m \<noteq> None"
  proof (cases "checkJobs R E w cid c m")
    case None
    then show ?thesis using assms by (simp add: GetChain_def)
  next
    case (Some res)
    then show ?thesis
      using assms checkJobs_no_Diverge [OF assms(1,6), of cid c]
      by (cases res) (simp_all add: GetChain_def chain_message_eq)
  qed
  then show ?thesis
    using checkJobs_returns_iff [OF assms(6)] by simp
qed

lemma EnqueueChain_eq:
  assumes "r_inv (rst w)" "b_inv (bst w)" "codec_ok (job_codec E)" "codec_ok (chain_codec E)"
    and "ChainJobs c = t # ts" "immediate t" "length (line (bst w) (OptQueue (Opts t))) < capacity"
    and n: "n = chain_uuids (uuid_calls w) c"
    and w1: "w1 = enqueued R B E (w\<lparr>uuid_calls := next_uuids n t\<rparr>) t (default_meta E n [] t)"
  shows "EnqueueChain R B E w c =
    (chain_stored R E w1 (new_chain_message E (uuid_calls w) c t), Ok (chain_id E (uuid_calls w) c))"
proof -
  let ?w = "w\<lparr>uuid_calls := next_uuids n t\<rparr>"
  have "enqueueWithMeta R B E ?w t (default_meta E n [] t) = (w1, Ok (job_id E n t))"
    using assms by (simp add: enqueueWithMeta_eq ID_default_meta)
  moreover have "r_inv (rst w1)"
    using enqueued_facts(1) [where w = ?w and m = "default_meta E n [] t"] assms by simp
  ultimately show ?thesis
    using assms(4,5) n
    by (simp add: EnqueueChain_def chain_message_of_eq Enqueue_def DefaultMeta_eq new_chain_message_def
        chain_message_eq Let_def)
qed

section \<open>The run of a chain\<close>

text \<open>
  The first job of a chain, alone in its queue, followed by as many turns of the worker as
  the chain has jobs.
\<close>

lemma chain_turn:
  assumes "r_inv (rst w)" "b_inv (bst w)" "codec_ok (job_codec E)"
    and "chain_tasks_save P r_inv view ts (t # js) sel"
    and t': "t' = with_OnSuccess us t" "\<And>u. u \<in> set us \<Longrightarrow> immediate u"
    and "OptQueue (Opts t) = q" "line (bst w) q = [job_bytes E (job_message_of t' m)]"
    and "m = default_meta E n prev t" "P (job_id E n t)"
    and "\<And>q. length (line (bst w) q) + length us \<le> capacity" "\<And>i. P i \<Longrightarrow> plain_id i"
  obtains w1 n' res where
    "\<And>sels. work_queue R B E ts q w (sel t # sels) = work_queue R B E ts q w1 sels"
    "r_inv (rst w1)" "b_inv (bst w1)"
    "\<And>p. line (bst w1) p = join (((line (bst w))(q := [])) p)
         (bytes_for E p (messages_from E (uuid_calls w) res us))"
    "GetJob R E w1 (job_id E n t) = Ok ((job_message_of t' m)\<lparr>ProcessedAt := n', Status := StatusDone,
       OnSuccessIDs := map ID (metas_from E (uuid_calls w) res us)\<rparr>)"
    "uuid_calls w1 = foldl next_uuids (uuid_calls w) us"
    "\<And>k. k \<noteq> job_id E n t \<Longrightarrow> k \<notin> ID ` set (metas_from E (uuid_calls w) res us)
       \<Longrightarrow> GetJob R E w1 k = GetJob R E w k"
    "\<And>k. view (rst w1) (chainPrefix @ k) = view (rst w) (chainPrefix @ k)"
proof -
  let ?msg = "job_message_of t' m"
  have ID: "ID ?msg = job_id E n t" by (simp add: assms(9) ID_default_meta)
  obtain task res where task: "map_of ts (Task t') = Some task"
    and succ: "succeeds r_inv view task t' ?msg (sel t) (\<lambda>_. Some res)"
    using assms(4,10) t'(1) ID by (fastforce simp: chain_tasks_save_def)
  have q: "Queue ?msg = q" "OnSuccess t' = us" using assms(7,9) t'(1) by simp_all
  show ?thesis
    using succeeding_turn [where msg = ?msg and j = t' and prev = res, OF assms(1-3) _ task _ succ]
      assms(8,11) assms(12) [OF assms(10)] t'(2) q ID that by (auto simp: assms(9))
qed

text \<open>The turn of a job that another of the chain follows: the other is alone in the queue.\<close>

lemma chain_link_turn:
  assumes "r_inv (rst w)" "b_inv (bst w)" "codec_ok (job_codec E)"
    and "chain_tasks_save P r_inv view ts (t # u # us) sel"
    and simple: "\<And>v. v \<in> set (t # u # us) \<Longrightarrow> immediate v \<and> OnSuccess v = [] \<and> OptQueue (Opts v) = q"
    and "line (bst w) q = [job_bytes E (job_message_of (hd (link_jobs (t # u # us))) m)]"
    and "m = default_meta E n prev t" "P (job_id E n t)"
    and room: "\<And>q. length (line (bst w) q) < capacity" and P: "\<And>i. P i \<Longrightarrow> plain_id i"
  obtains w1 n' res where
    "\<And>sels. work_queue R B E ts q w (sel t # sels) = work_queue R B E ts q w1 sels"
    "r_inv (rst w1)" "b_inv (bst w1)"
    "line (bst w1) = (line (bst w))(q := [job_bytes E
       (job_message_of (hd (link_jobs (u # us))) (default_meta E (uuid_calls w) res u))])"
    "GetJob R E w1 (job_id E n t) =
       Ok ((job_message_of (with_OnSuccess [hd (link_jobs (u # us))] t) m)
         \<lparr>ProcessedAt := n', Status := StatusDone, OnSuccessIDs := [job_id E (uuid_calls w) u]\<rparr>)"
    "uuid_calls w1 = next_uuids (uuid_calls w) u"
    "\<And>k. k \<noteq> job_id E n t \<Longrightarrow> k \<noteq> job_id E (uuid_calls w) u \<Longrightarrow> GetJob R E w1 k = GetJob R E w k"
    "\<And>k. view (rst w1) (chainPrefix @ k) = view (rst w) (chainPrefix @ k)"
proof -
  let ?rest = "hd (link_jobs (u # us))"
  let ?t = "with_OnSuccess [?rest] t"
  have hd: "hd (link_jobs (t # u # us)) = ?t"
    using simple [of t] by (simp add: Let_def)
  have u: "immediate ?rest" "OptQueue (Opts u) = q" "OptQueue (Opts t) = q"
    using simple by (simp_all add: immediate_def)
  have m: "default_meta E n' p ?rest = default_meta E n' p u" "next_uuids n' ?rest = next_uuids n' u" for n' p
    by (simp_all add: default_meta_cong [where t = ?rest and u = u])
  have room': "length (line (bst w) p) + length [?rest] \<le> capacity" for p
    using room by (simp add: Suc_le_eq)
  have imm: "immediate v" if "v \<in> set [?rest]" for v using that u by simp
  have lt: "line (bst w) q = [job_bytes E (job_message_of ?t m)]" using assms(6) hd by simp
  show thesis
  proof (rule chain_turn [OF assms(1-4) refl imm u(3) lt assms(7,8) room' P], assumption, assumption)
    fix w1 n' res
    assume a: "\<And>sels. work_queue R B E ts q w (sel t # sels) = work_queue R B E ts q w1 sels"
        "r_inv (rst w1)" "b_inv (bst w1)"
      and l: "\<And>p. line (bst w1) p = join (((line (bst w))(q := [])) p)
         (bytes_for E p (messages_from E (uuid_calls w) res [?rest]))"
      and g: "GetJob R E w1 (job_id E n t) = Ok ((job_message_of ?t m)\<lparr>ProcessedAt := n',
         Status := StatusDone, OnSuccessIDs := map ID (metas_from E (uuid_calls w) res [?rest])\<rparr>)"
      and c: "uuid_calls w1 = foldl next_uuids (uuid_calls w) [?rest]"
      and f: "\<And>k. k \<noteq> job_id E n t \<Longrightarrow> k \<notin> ID ` set (metas_from E (uuid_calls w) res [?rest])
         \<Longrightarrow> GetJob R E w1 k = GetJob R E w k"
      and ch: "\<And>k. view (rst w1) (chainPrefix @ k) = view (rst w) (chainPrefix @ k)"
    show thesis
    proof (rule that [OF a])
      show "line (bst w1) = (line (bst w))(q := [job_bytes E
          (job_message_of ?rest (default_meta E (uuid_calls w) res u))])"
        using l u by (auto simp: fun_eq_iff bytes_for_def m)
    qed (use g c f ch in \<open>simp_all add: m ID_default_meta\<close>)
  qed
qed

lemma chain_run:
  assumes "r_inv (rst w)" "b_inv (bst w)" "codec_ok (job_codec E)"
    and "chain_tasks_save P r_inv view ts (t # js) sel"
    and "\<And>u. u \<in> set (t # js) \<Longrightarrow> immediate u \<and> OnSuccess u = [] \<and> OptQueue (Opts u) = q"
    and "line (bst w) q = [job_bytes E (job_message_of (hd (link_jobs (t # js))) m)]"
    and "m = default_meta E n prev t" "uuid_calls w = next_uuids n t"
    and "distinct (ids_from E n (t # js))" "\<And>i. i \<in> set (ids_from E n (t # js)) \<Longrightarrow> P i"
    and "\<And>q. length (line (bst w) q) < capacity" "\<And>i. P i \<Longrightarrow> plain_id i"
  shows "\<exists>j. let w1 = work_queue R B E ts q w (map sel (t # js)) in
    r_inv (rst w1) \<and> b_inv (bst w1) \<and> line (bst w1) = (line (bst w))(q := [])
    \<and> done_path R E w1 (job_id E n t) (butlast (ids_from E n (t # js))) j
    \<and> Status j = StatusDone \<and> OnSuccessIDs j = [] \<and> ID j = last (ids_from E n (t # js))
    \<and> (\<forall>k. k \<notin> set (ids_from E n (t # js)) \<longrightarrow> GetJob R E w1 k = GetJob R E w k)
    \<and> (\<forall>k. view (rst w1) (chainPrefix @ k) = view (rst w) (chainPrefix @ k))"
  using assms
proof (induction js arbitrary: w t m n prev)
  case Nil
  have t: "t = with_OnSuccess [] t" using Nil.prems(5) [of t] by (cases t) (simp add: with_OnSuccess_def)
  have room: "length (line (bst w) p) + length ([] :: job list) \<le> capacity" for p
    using Nil.prems(11) by (simp add: less_imp_le)
  obtain w1 n' where w1: "\<And>sels. work_queue R B E ts q w (sel t # sels) = work_queue R B E ts q w1 sels"
      "r_inv (rst w1)" "b_inv (bst w1)" "\<And>p. line (bst w1) p = ((line (bst w))(q := [])) p"
      "GetJob R E w1 (job_id E n t) =
         Ok ((job_message_of t m)\<lparr>ProcessedAt := n', Status := StatusDone, OnSuccessIDs := []\<rparr>)"
      "\<And>k. k \<noteq> job_id E n t \<Longrightarrow> GetJob R E w1 k = GetJob R E w k"
      "\<And>k. view (rst w1) (chainPrefix @ k) = view (rst w) (chainPrefix @ k)"
    by (rule chain_turn [OF Nil.prems(1-4) t, where q = q and m = m and n = n and prev = prev])
      (use Nil.prems room in auto)
  then have "work_queue R B E ts q w (map sel [t]) = w1" by simp
  then show ?case
    using w1 done_path.here [OF w1(5)] Nil.prems(7) by (auto simp: Let_def ID_default_meta intro!: exI)
next
  case (Cons u us)
  let ?rest = "hd (link_jobs (u # us))" and ?m = "\<lambda>res. default_meta E (uuid_calls w) res u"
  let ?t = "with_OnSuccess [?rest] t" and ?ids = "ids_from E (uuid_calls w) (u # us)"
  have ids: "ids_from E n (t # u # us) = job_id E n t # ?ids" by (simp add: Cons.prems(8))
  have bl: "butlast (ids_from E n (t # u # us)) = job_id E n t # butlast ?ids"
    "last (ids_from E n (t # u # us)) = last ?ids" by (simp_all add: Cons.prems(8))
  have pid: "P (job_id E n t)" using Cons.prems(10) ids by simp
  obtain w1 n' res where turn: "\<And>sels. work_queue R B E ts q w (sel t # sels) = work_queue R B E ts q w1 sels"
    and inv: "r_inv (rst w1)" "b_inv (bst w1)"
    and lw: "line (bst w1) = (line (bst w))(q := [job_bytes E (job_message_of ?rest (?m res))])"
    and g1: "GetJob R E w1 (job_id E n t) = Ok ((job_message_of ?t m)
         \<lparr>ProcessedAt := n', Status := StatusDone, OnSuccessIDs := [job_id E (uuid_calls w) u]\<rparr>)"
    and u1: "uuid_calls w1 = next_uuids (uuid_calls w) u"
    and fr1: "\<And>k. k \<noteq> job_id E n t \<Longrightarrow> k \<noteq> job_id E (uuid_calls w) u \<Longrightarrow> GetJob R E w1 k = GetJob R E w k"
    and ch: "\<And>k. view (rst w1) (chainPrefix @ k) = view (rst w) (chainPrefix @ k)"
    by (rule chain_link_turn [OF Cons.prems(1-7) pid Cons.prems(11,12)]; assumption?) blast
  have cts: "chain_tasks_save P r_inv view ts (u # us) sel"
    using Cons.prems(4) by (simp add: chain_tasks_save_def)
  have simple: "immediate v \<and> OnSuccess v = [] \<and> OptQueue (Opts v) = q" if "v \<in> set (u # us)" for v
    using that Cons.prems(5) [of v] by simp
  have lu: "line (bst w1) q = [job_bytes E (job_message_of ?rest (?m res))]" using lw by simp
  have dist: "distinct ?ids" using Cons.prems(9) ids by simp
  have plain: "P i" if "i \<in> set ?ids" for i using that Cons.prems(10) ids by simp
  have room1: "length (line (bst w1) p) < capacity" for p
    using Cons.prems(6) Cons.prems(11) [of q] Cons.prems(11) [of p] by (simp add: lw)
  let ?w2 = "work_queue R B E ts q w1 (map sel (u # us))"
  have run: "work_queue R B E ts q w (map sel (t # u # us)) = ?w2"
    using turn by simp
  obtain j where fin: "r_inv (rst ?w2)" "b_inv (bst ?w2)" "line (bst ?w2) = (line (bst w1))(q := [])"
      "done_path R E ?w2 (job_id E (uuid_calls w) u) (butlast ?ids) j"
      "Status j = StatusDone" "OnSuccessIDs j = []" "ID j = last ?ids"
      "\<And>k. k \<notin> set ?ids \<Longrightarrow> GetJob R E ?w2 k = GetJob R E w1 k"
      "\<And>k. view (rst ?w2) (chainPrefix @ k) = view (rst w1) (chainPrefix @ k)"
    using Cons.IH [OF inv Cons.prems(3) cts simple lu refl u1 dist plain room1 Cons.prems(12)]
    unfolding Let_def by blast
  have g: "GetJob R E ?w2 (job_id E n t) = Ok ((job_message_of ?t m)
      \<lparr>ProcessedAt := n', Status := StatusDone, OnSuccessIDs := [job_id E (uuid_calls w) u]\<rparr>)"
    using fin(8) g1 Cons.prems(9) ids by simp
  have "done_path R E ?w2 (job_id E n t) (butlast (ids_from E n (t # u # us))) j"
    using done_path.later [OF g _ _ fin(4)] Cons.prems(7) unfolding bl by (simp add: ID_default_meta)
  then show ?case
    unfolding run Let_def bl using fin lw ids fr1 ch by (intro exI [of _ j]) simp
qed

lemma getChainMessage_cong:
  assumes "r_inv (rst w)" "r_inv (rst w')"
    and "view (rst w') (chainPrefix @ k) = view (rst w) (chainPrefix @ k)"
  shows "getChainMessage R E w' k = getChainMessage R E w k"
  using assms by (simp add: getChainMessage_def GetResult_eq)

text \<open>A new chain, enqueued: its first job is alone in the queue.\<close>

lemma chain_enqueued:
  assumes "r_inv (rst w)" "b_inv (bst w)" "codec_ok (job_codec E)" "codec_ok (chain_codec E)"
    and c: "ChainJobs c = link_jobs (t # us)" and "immediate t" "OptQueue (Opts t) = q"
    and "line (bst w) q = []" "\<And>p. length (line (bst w) p) < capacity" "1 < capacity"
    and n: "n = chain_uuids (uuid_calls w) c"
  obtains w1 where "EnqueueChain R B E w c = (w1, Ok (chain_id E (uuid_calls w) c))"
    "r_inv (rst w1)" "b_inv (bst w1)" "uuid_calls w1 = next_uuids n t"
    "line (bst w1) q = [job_bytes E (job_message_of (hd (link_jobs (t # us))) (default_meta E n [] t))]"
    "\<And>p. length (line (bst w1) p) < capacity"
    "getChainMessage R E w1 (chain_id E (uuid_calls w) c) = Ok (new_chain_message E (uuid_calls w) c t)"
proof -
  let ?root = "hd (link_jobs (t # us))" and ?m = "default_meta E n [] t"
  let ?msg = "new_chain_message E (uuid_calls w) c t" and ?cid = "chain_id E (uuid_calls w) c"
  let ?w = "w\<lparr>uuid_calls := next_uuids n t\<rparr>"
  let ?v = "enqueued R B E ?w ?root ?m"
  let ?u = "chain_stored R E ?v ?msg"
  have root: "ChainJobs c = ?root # tl (link_jobs (t # us))"
    unfolding c by (cases us) (simp_all add: Let_def)
  have o: "Opts ?root = Opts t" by simp
  have imm: "immediate ?root" using assms(6) by (simp add: immediate_def)
  have eqs: "default_meta E n p ?root = default_meta E n p t" "next_uuids n ?root = next_uuids n t"
    "new_chain_message E n c ?root = new_chain_message E n c t" for n p
    by (simp_all only: default_meta_cong [OF o] new_chain_message_def job_id_def o)
  have enq: "EnqueueChain R B E w c = (?u, Ok ?cid)"
    using EnqueueChain_eq [OF assms(1-4) root imm assms(9) n refl] by (simp only: eqs)
  have room: "length (line (bst ?w) (Queue ?m)) < capacity" using assms(9) by simp
  have iw: "r_inv (rst ?w)" "b_inv (bst ?w)" using assms by simp_all
  note facts = enqueued_facts [where m = ?m and t = ?root and E = E, OF iw room]
  have ln: "line (bst ?u) p = (if p = q then [job_bytes E (job_message_of ?root ?m)] else line (bst w) p)" for p
    using facts(6) assms(7,8) by simp
  have "getChainMessage R E ?u ?cid = Ok ?msg"
    using chain_message_eq(4) [OF facts(1) assms(4), of ?msg] by (simp add: new_chain_message_def)
  then show ?thesis
    using that [OF enq] facts(1,2) ln assms(4,9,10) by (simp add: chain_message_eq)
qed

text \<open>From \<open>NewChain\<close> to the final status: a chain of jobs that all save a result.\<close>

lemma chain_completes:
  assumes "r_inv (rst w)" "b_inv (bst w)" "codec_ok (job_codec E)" "codec_ok (chain_codec E)"
    and chain: "NewChain js opts = Ok c" and "chain_tasks_save P r_inv view ts js sel"
    and simple: "\<And>t. t \<in> set js \<Longrightarrow> immediate t \<and> OnSuccess t = [] \<and> OptQueue (Opts t) = q"
    and room: "line (bst w) q = []" "\<And>p. length (line (bst w) p) < capacity" "1 < capacity"
    and ids: "ids = ids_from E (chain_uuids (uuid_calls w) c) js"
    and "distinct ids" "\<And>i. i \<in> set ids \<Longrightarrow> P i" and P: "\<And>i. P i \<Longrightarrow> plain_id i"
  shows "\<exists>w1 w2 m. EnqueueChain R B E w c = (w1, Ok (chain_id E (uuid_calls w) c))
    \<and> GetChain R E (work_queue R B E ts q w1 (map sel js)) (chain_id E (uuid_calls w) c) = (w2, Ok m)
    \<and> ChainStatus m = StatusDone \<and> PrevJobs m = ids"
proof -
  obtain t us where js: "js = t # us" and c: "ChainJobs c = link_jobs (t # us)"
    using chain by (cases js) (auto simp: NewChain_def split: if_splits)
  have t: "immediate t" "OptQueue (Opts t) = q" using simple by (simp_all add: js)
  let ?n = "chain_uuids (uuid_calls w) c" and ?cid = "chain_id E (uuid_calls w) c"
  let ?msg = "new_chain_message E (uuid_calls w) c t"
  obtain w1 where w1: "EnqueueChain R B E w c = (w1, Ok ?cid)"
    and inv: "r_inv (rst w1)" "b_inv (bst w1)" and cnt: "uuid_calls w1 = next_uuids ?n t"
    and lq: "line (bst w1) q = [job_bytes E (job_message_of (hd (link_jobs (t # us))) (default_meta E ?n [] t))]"
    and lp: "\<And>p. length (line (bst w1) p) < capacity"
    and msg: "getChainMessage R E w1 ?cid = Ok ?msg"
    by (rule chain_enqueued [OF assms(1-4) c t room refl]) blast
  let ?w2 = "work_queue R B E ts q w1 (map sel (t # us))"
  have tasks: "chain_tasks_save P r_inv view ts (t # us) sel"
    and simple': "\<And>v. v \<in> set (t # us) \<Longrightarrow> immediate v \<and> OnSuccess v = [] \<and> OptQueue (Opts v) = q"
    and dist: "distinct (ids_from E ?n (t # us))"
    and plain: "\<And>i. i \<in> set (ids_from E ?n (t # us)) \<Longrightarrow> P i"
    using assms(6) simple assms(12,13) by (simp_all add: js ids)
  obtain j where fin: "r_inv (rst ?w2)" "done_path R E ?w2 (job_id E ?n t) (butlast ids) j"
      "Status j = StatusDone" "OnSuccessIDs j = []" "ID j = last ids"
      "\<And>k. view (rst ?w2) (chainPrefix @ k) = view (rst w1) (chainPrefix @ k)"
    using chain_run [OF inv assms(3) tasks simple' lq refl cnt dist plain lp P]
    unfolding Let_def ids js by blast
  have "getChainMessage R E ?w2 ?cid = Ok ?msg"
    using getChainMessage_cong [OF inv(1) fin(1) fin(6)] msg by simp
  moreover have "ids \<noteq> []" by (simp add: ids js)
  ultimately show ?thesis
    using GetChain_eq [OF fin(1) assms(4), of ?cid ?msg "butlast ids" j] fin w1
    by (simp add: js new_chain_message_def chain_stop_def chain_verdict_def)
qed

text \<open>
  The run up to a job inside a chain: the jobs before it have finished, each naming the next
  as its successor, and the job is alone in the queue.
\<close>

lemma chain_run_prefix:
  assumes "r_inv (rst w)" "b_inv (bst w)" "codec_ok (job_codec E)"
    and "js = pre @ t # us" "chain_tasks_save P r_inv view ts js sel"
    and "\<And>v. v \<in> set js \<Longrightarrow> immediate v \<and> OnSuccess v = [] \<and> OptQueue (Opts v) = q"
    and "line (bst w) q = [job_bytes E (job_message_of (hd (link_jobs js)) (default_meta E n prev (hd js)))]"
    and "uuid_calls w = next_uuids n (hd js)"
    and "ids = ids_from E n (pre @ [t])" "distinct ids" "\<And>i. i \<in> set ids \<Longrightarrow> P i"
    and "\<And>q. length (line (bst w) q) < capacity" "\<And>i. P i \<Longrightarrow> plain_id i"
  shows "\<exists>w1 n1 prev1.
    (\<forall>sels. work_queue R B E ts q w (map sel pre @ sels) = work_queue R B E ts q w1 sels)
    \<and> r_inv (rst w1) \<and> b_inv (bst w1)
    \<and> line (bst w1) = (line (bst w))(q := [job_bytes E
        (job_message_of (hd (link_jobs (t # us))) (default_meta E n1 prev1 t))])
    \<and> uuid_calls w1 = next_uuids n1 t \<and> job_id E n1 t = last ids
    \<and> (\<forall>k\<in>set (butlast ids). \<exists>m k' ks. GetJob R E w1 k = Ok m \<and> Status m = StatusDone
         \<and> OnSuccessIDs m = k' # ks \<and> k' \<in> set ids)
    \<and> (\<forall>k. k \<notin> set ids \<longrightarrow> GetJob R E w1 k = GetJob R E w k)
    \<and> (\<forall>k. view (rst w1) (chainPrefix @ k) = view (rst w) (chainPrefix @ k))"
  using assms
proof (induction pre arbitrary: w js n prev ids)
  case Nil
  then show ?case
    by (intro exI [of _ w] exI [of _ n] exI [of _ prev]) (simp add: fun_upd_idem)
next
  case (Cons a pre)
  obtain b bs where b: "pre @ t # us = b # bs" by (cases pre) auto
  obtain r where r: "ids_from E (next_uuids n a) (pre @ [t]) = job_id E (next_uuids n a) b # r"
    using b by (cases pre) auto
  have js: "js = a # b # bs" using Cons.prems(4) b by simp
  let ?ids = "ids_from E (uuid_calls w) (pre @ [t])"
  have ids: "ids = job_id E n a # ?ids" "?ids \<noteq> []" "hd ?ids = job_id E (uuid_calls w) b"
    using Cons.prems(8,9) js r by simp_all
  have pa: "P (job_id E n a)" using Cons.prems(11) ids by simp
  obtain w1 n' res where turn: "\<And>sels. work_queue R B E ts q w (sel a # sels) = work_queue R B E ts q w1 sels"
    and inv: "r_inv (rst w1)" "b_inv (bst w1)"
    and lw: "line (bst w1) = (line (bst w))(q := [job_bytes E
         (job_message_of (hd (link_jobs (b # bs))) (default_meta E (uuid_calls w) res b))])"
    and g: "GetJob R E w1 (job_id E n a) = Ok ((job_message_of (with_OnSuccess [hd (link_jobs (b # bs))] a)
         (default_meta E n prev a))
         \<lparr>ProcessedAt := n', Status := StatusDone, OnSuccessIDs := [job_id E (uuid_calls w) b]\<rparr>)"
    and u1: "uuid_calls w1 = next_uuids (uuid_calls w) b"
    and fr: "\<And>k. k \<noteq> job_id E n a \<Longrightarrow> k \<noteq> job_id E (uuid_calls w) b \<Longrightarrow> GetJob R E w1 k = GetJob R E w k"
    and ch: "\<And>k. view (rst w1) (chainPrefix @ k) = view (rst w) (chainPrefix @ k)"
    by (rule chain_link_turn [OF Cons.prems(1-3) Cons.prems(5-7) [unfolded js list.sel] refl pa
          Cons.prems(12,13)]; assumption?) blast
  have tasks: "chain_tasks_save P r_inv view ts (pre @ t # us) sel"
    using Cons.prems(4,5) by (simp add: chain_tasks_save_def)
  have simple: "immediate v \<and> OnSuccess v = [] \<and> OptQueue (Opts v) = q" if "v \<in> set (pre @ t # us)" for v
    using that Cons.prems(4,6) by simp
  have lq: "line (bst w1) q = [job_bytes E (job_message_of (hd (link_jobs (pre @ t # us)))
      (default_meta E (uuid_calls w) res (hd (pre @ t # us))))]"
    unfolding b list.sel by (simp add: lw)
  have cnt: "uuid_calls w1 = next_uuids (uuid_calls w) (hd (pre @ t # us))" unfolding b by (simp add: u1)
  have dist: "distinct ?ids" "\<And>i. i \<in> set ?ids \<Longrightarrow> P i" using Cons.prems(10,11) ids by simp_all
  have room: "length (line (bst w1) p) < capacity" for p
    using Cons.prems(7) Cons.prems(12) [of q] Cons.prems(12) [of p] by (simp add: lw)
  obtain w2 n1 prev1 where run: "\<And>sels. work_queue R B E ts q w1 (map sel pre @ sels) = work_queue R B E ts q w2 sels"
    and inv2: "r_inv (rst w2)" "b_inv (bst w2)"
    and l2: "line (bst w2) = (line (bst w1))(q := [job_bytes E
        (job_message_of (hd (link_jobs (t # us))) (default_meta E n1 prev1 t))])"
    and u2: "uuid_calls w2 = next_uuids n1 t" "job_id E n1 t = last ?ids"
    and path: "\<And>k. k \<in> set (butlast ?ids) \<Longrightarrow> \<exists>m k' ks. GetJob R E w2 k = Ok m \<and> Status m = StatusDone
         \<and> OnSuccessIDs m = k' # ks \<and> k' \<in> set ?ids"
    and fr2: "\<And>k. k \<notin> set ?ids \<Longrightarrow> GetJob R E w2 k = GetJob R E w1 k"
    and ch2: "\<And>k. view (rst w2) (chainPrefix @ k) = view (rst w1) (chainPrefix @ k)"
    using Cons.IH [OF inv Cons.prems(3) refl tasks simple lq cnt refl dist room Cons.prems(13)] by blast
  have bl: "butlast ids = job_id E n a # butlast ?ids" "last ids = last ?ids" using ids by simp_all
  have hin: "job_id E (uuid_calls w) b \<in> set ?ids" using ids(2,3) by (metis hd_in_set)
  have "GetJob R E w2 (job_id E n a) = GetJob R E w1 (job_id E n a)"
    using fr2 Cons.prems(10) ids(1) by simp
  then have "\<exists>m k' ks. GetJob R E w2 k = Ok m \<and> Status m = StatusDone \<and> OnSuccessIDs m = k' # ks \<and> k' \<in> set ids"
    if "k \<in> set (butlast ids)" for k
    using that path [of k] g hin unfolding bl by (auto simp: ids(1))
  moreover have "GetJob R E w2 k = GetJob R E w k" if "k \<notin> set ids" for k
    using that fr [of k] fr2 [of k] hin by (auto simp: ids(1))
  moreover have "work_queue R B E ts q w (map sel (a # pre) @ sels) = work_queue R B E ts q w2 sels" for sels
    by (simp add: turn run)
  moreover have "line (bst w2) = (line (bst w))(q := [job_bytes E
        (job_message_of (hd (link_jobs (t # us))) (default_meta E n1 prev1 t))])"
    unfolding l2 lw by simp
  ultimately show ?case
    using inv2 u2 bl ch ch2 by (intro exI [of _ w2] exI [of _ n1] exI [of _ prev1]) simp
qed

text \<open>
  Two neighbouring jobs of a chain with the same identifier: when the first of them has
  finished and the second is queued, the stored message is its own successor.
\<close>

lemma repeated_id_cycle:
  assumes "r_inv (rst w)" "b_inv (bst w)" "codec_ok (job_codec E)" "codec_ok (chain_codec E)"
    and c: "ChainJobs c = link_jobs js" and js: "js = pre @ t # u # us"
    and tasks: "chain_tasks_save P r_inv view ts js sel"
    and simple: "\<And>v. v \<in> set js \<Longrightarrow> immediate v \<and> OnSuccess v = [] \<and> OptQueue (Opts v) = q"
    and room: "line (bst w) q = []" "\<And>p. length (line (bst w) p) < capacity" "1 < capacity"
    and i: "OptID (Opts t) = i" "OptID (Opts u) = i" "i \<noteq> []"
    and ids: "ids = ids_from E (chain_uuids (uuid_calls w) c) (pre @ [t])" "distinct ids"
      "\<And>i. i \<in> set ids \<Longrightarrow> P i" and P: "\<And>i. P i \<Longrightarrow> plain_id i"
  shows "\<exists>w1. EnqueueChain R B E w c = (w1, Ok (chain_id E (uuid_calls w) c))
    \<and> snd (GetChain R E (work_queue R B E ts q w1 (map sel (pre @ [t]))) (chain_id E (uuid_calls w) c)) = Diverge"
proof -
  obtain a as where a: "js = a # as" using js by (cases pre) auto
  have first: "immediate a" "OptQueue (Opts a) = q" using simple a by simp_all
  let ?n = "chain_uuids (uuid_calls w) c" and ?cid = "chain_id E (uuid_calls w) c"
  let ?msg = "new_chain_message E (uuid_calls w) c a"
  obtain w1 where w1: "EnqueueChain R B E w c = (w1, Ok ?cid)"
    and inv: "r_inv (rst w1)" "b_inv (bst w1)" and cnt: "uuid_calls w1 = next_uuids ?n a"
    and lq: "line (bst w1) q = [job_bytes E (job_message_of (hd (link_jobs (a # as))) (default_meta E ?n [] a))]"
    and lp: "\<And>p. length (line (bst w1) p) < capacity"
    and msg: "getChainMessage R E w1 ?cid = Ok ?msg"
    by (rule chain_enqueued [OF assms(1-4) c [unfolded a] first room refl]) blast
  have lq': "line (bst w1) q = [job_bytes E (job_message_of (hd (link_jobs js)) (default_meta E ?n [] (hd js)))]"
    and cnt': "uuid_calls w1 = next_uuids ?n (hd js)" using lq cnt by (simp_all add: a)
  obtain w2 n1 prev1 where run: "\<And>sels. work_queue R B E ts q w1 (map sel pre @ sels) = work_queue R B E ts q w2 sels"
    and inv2: "r_inv (rst w2)" "b_inv (bst w2)"
    and l2: "line (bst w2) = (line (bst w1))(q := [job_bytes E
        (job_message_of (hd (link_jobs (t # u # us))) (default_meta E n1 prev1 t))])"
    and u2: "uuid_calls w2 = next_uuids n1 t" "job_id E n1 t = last ids"
    and path: "\<And>k. k \<in> set (butlast ids) \<Longrightarrow> \<exists>m k' ks. GetJob R E w2 k = Ok m \<and> Status m = StatusDone
         \<and> OnSuccessIDs m = k' # ks \<and> k' \<in> set ids"
    and ch2: "\<And>k. view (rst w2) (chainPrefix @ k) = view (rst w1) (chainPrefix @ k)"
    using chain_run_prefix [OF inv assms(3) js tasks simple lq' cnt' ids lp P] by blast
  have same: "job_id E n t = i" "job_id E n u = i" for n using i by (simp_all add: job_id_def)
  have li: "last ids = i" using u2(2) same by simp
  have ne: "ids \<noteq> []" unfolding ids(1) by (cases pre) simp_all
  have split: "ids = butlast ids @ [i]" using append_butlast_last_id [OF ne] li by simp
  then have other: "k \<noteq> i" if "k \<in> set (butlast ids)" for k
    using that ids(2) by (metis disjoint_iff distinct_append list.set_intros(1))
  have iin: "i \<in> set ids" using split by (metis in_set_conv_decomp)
  have pid: "P (job_id E n1 t)" using iin ids(3) same by simp
  have tasks2: "chain_tasks_save P r_inv view ts (t # u # us) sel"
    using tasks js by (simp add: chain_tasks_save_def)
  have simple2: "immediate v \<and> OnSuccess v = [] \<and> OptQueue (Opts v) = q" if "v \<in> set (t # u # us)" for v
    using that simple [of v] js by auto
  have lt: "line (bst w2) q = [job_bytes E (job_message_of (hd (link_jobs (t # u # us))) (default_meta E n1 prev1 t))]"
    by (simp add: l2)
  have room2: "length (line (bst w2) p) < capacity" for p
    using room(3) lp [of p] by (simp add: l2)
  obtain w3 m where turn: "work_queue R B E ts q w2 [sel t] = w3" and inv3: "r_inv (rst w3)"
    and m: "GetJob R E w3 i = Ok m" "Status m = StatusDone" "OnSuccessIDs m = [i]"
    and fr: "\<And>k. k \<noteq> i \<Longrightarrow> GetJob R E w3 k = GetJob R E w2 k"
    and ch3: "\<And>k. view (rst w3) (chainPrefix @ k) = view (rst w2) (chainPrefix @ k)"
    by (rule chain_link_turn [OF inv2 assms(3) tasks2 simple2 lt refl pid room2 P]; (assumption)?)
      (auto simp: same)
  have gc: "getChainMessage R E w3 ?cid = Ok ?msg"
    using getChainMessage_cong [OF inv(1) inv3] msg ch2 ch3 by simp
  have "\<exists>m k' ks. GetJob R E w3 k = Ok m \<and> Status m = StatusDone \<and> OnSuccessIDs m = k' # ks \<and> k' \<in> set ids"
    if "k \<in> set ids" for k
  proof (cases "k = i")
    case True
    then show ?thesis using m iin by simp
  next
    case False
    then have "k \<in> set (butlast ids)" using that split by (metis in_set_conv_decomp in_set_butlast_appendI
          UnE set_append list.set(1,2) singletonD)
    then show ?thesis using path [of k] fr [OF False] by simp
  qed
  then have cyc: "done_cycle R E w3 (set ids)" by (simp add: done_cycle_def)
  have hd: "JobID ?msg \<in> set ids"
    using a js unfolding ids(1) by (cases pre) (simp_all add: new_chain_message_def)
  then obtain m' where "GetJob R E w3 (JobID ?msg) = Ok m'" using cyc by (auto simp: done_cycle_def)
  moreover have "\<not> (\<exists>ids j. done_path R E w3 (JobID ?msg) ids j \<and> walk_ends R E w3 j)"
    using done_cycle_path [OF _ cyc hd] by blast
  ultimately have "snd (GetChain R E w3 ?cid) = Diverge"
    using GetChain_returns_iff [OF inv3 assms(4) gc, of m'] by (auto simp: new_chain_message_def)
  then show ?thesis using w1 turn run [of "[sel t]"] by auto
qed

end

end
