(* ===== verification/Job_Groups.thy ===== *)
theory Job_Groups
  imports Jobs
begin

text \<open>
  Groups, \<open>groups.go\<close>: enqueueing all jobs of a group, and the status of a group computed
  from the statuses of its jobs. The order in which Go's \<open>range\<close> visits a map is the
  function \<open>range_entries\<close> of the external packages.
\<close>

definition group_message_of ::
  "ext \<Rightarrow> ('b, 'r) world \<Rightarrow> group \<Rightarrow> ('b, 'r) world \<times> group_message" where
  "group_message_of E w t =
     (let (w, ident) = (if GroupOptID (GroupOpts t) = [] then new_uuid E w
                        else (w, GroupOptID (GroupOpts t)));
          t = t\<lparr>GroupOpts := \<lparr>GroupOptID = ident\<rparr>\<rparr>
      in (w, \<lparr>GroupID = ident, GroupStatus = StatusProcessing, JobStatus = [], MsgGroup = Some t\<rparr>))"

definition setGroupMessage ::
  "'r results_impl \<Rightarrow> ext \<Rightarrow> ('b, 'r) world \<Rightarrow> group_message \<Rightarrow> ('b, 'r) world \<times> unit outcome" where
  "setGroupMessage R E w g =
     on_ok (w, of_sum (marshal (group_codec E) g))
       (\<lambda>w b. store_Set R w (groupPrefix @ GroupID g) b)"

definition getGroupMessage ::
  "'r results_impl \<Rightarrow> ext \<Rightarrow> ('b, 'r) world \<Rightarrow> string \<Rightarrow> group_message outcome" where
  "getGroupMessage R E w k =
     bind_ok (GetResult R w (groupPrefix @ k)) (\<lambda>b. of_sum (unmarshal (group_codec E) b))"

text \<open>The loop of \<open>EnqueueGroup\<close> over the jobs, with the map of their statuses.\<close>

fun enqueue_group_jobs ::
  "'r results_impl \<Rightarrow> 'b broker_impl \<Rightarrow> ext \<Rightarrow> ('b, 'r) world \<Rightarrow> (string, string) gomap \<Rightarrow> job list
     \<Rightarrow> ('b, 'r) world \<times> (string, string) gomap outcome" where
  "enqueue_group_jobs R B E w st [] = (w, Ok st)"
| "enqueue_group_jobs R B E w st (v # vs) =
     on_ok (wrap_err ''could not enqueue group : '' (Enqueue R B E w v))
       (\<lambda>w uid. enqueue_group_jobs R B E w (AList.update uid StatusStarted st) vs)"

definition EnqueueGroup ::
  "'r results_impl \<Rightarrow> 'b broker_impl \<Rightarrow> ext \<Rightarrow> ('b, 'r) world \<Rightarrow> group
     \<Rightarrow> ('b, 'r) world \<times> string outcome" where
  "EnqueueGroup R B E w t =
     (let (w, msg) = group_message_of E w t in
      on_ok (enqueue_group_jobs R B E w (JobStatus msg) (GroupJobs t)) (\<lambda>w st.
        let msg = msg\<lparr>JobStatus := st\<rparr> in
        on_ok (setGroupMessage R E w msg) (\<lambda>w _. (w, Ok (GroupID msg)))))"

section \<open>The status of a group\<close>

text \<open>The loop of \<open>getGroupStatus\<close> over the statuses, in the order of the range.\<close>

fun group_status_loop :: "string \<Rightarrow> string list \<Rightarrow> string" where
  "group_status_loop status [] = status"
| "group_status_loop status (st # sts) =
     (if st = StatusFailed then StatusFailed
      else group_status_loop (if st \<noteq> StatusDone then StatusProcessing else status) sts)"

definition getGroupStatus :: "ext \<Rightarrow> (string, string) gomap \<Rightarrow> string" where
  "getGroupStatus E jobStatus = group_status_loop StatusDone (map snd (range_entries E jobStatus))"

text \<open>
  The loop of \<open>GetGroup\<close>: final statuses stay, others are looked up, and a status that is
  none of the five is dropped, as the switch has no default case.
\<close>

fun refresh_statuses ::
  "'r results_impl \<Rightarrow> ext \<Rightarrow> ('b, 'r) world \<Rightarrow> (string, string) gomap \<Rightarrow> (string \<times> string) list
     \<Rightarrow> (string, string) gomap outcome" where
  "refresh_statuses R E w acc [] = Ok acc"
| "refresh_statuses R E w acc ((k, status) # es) =
     (if status = StatusFailed \<or> status = StatusDone
      then refresh_statuses R E w (AList.update k status acc) es
      else if status = StatusStarted \<or> status = StatusProcessing \<or> status = StatusRetrying
      then bind_ok (GetJob R E w k)
             (\<lambda>j. refresh_statuses R E w (AList.update k (Status j) acc) es)
      else refresh_statuses R E w acc es)"

definition GetGroup ::
  "'r results_impl \<Rightarrow> ext \<Rightarrow> ('b, 'r) world \<Rightarrow> string \<Rightarrow> ('b, 'r) world \<times> group_message outcome" where
  "GetGroup R E w gid =
     on_ok (w, getGroupMessage R E w gid) (\<lambda>w g.
       if GroupStatus g = StatusDone \<or> GroupStatus g = StatusFailed then (w, Ok g)
       else
         on_ok (w, refresh_statuses R E w [] (range_entries E (JobStatus g))) (\<lambda>w st.
           let g = g\<lparr>JobStatus := st, GroupStatus := getGroupStatus E st\<rparr> in
           on_ok (setGroupMessage R E w g) (\<lambda>w _. (w, Ok g))))"

end
