(* ===== verification/Group_System.thy ===== *)
theory Group_System
  imports Exec_System Job_Groups
begin

text \<open>
  Groups on a reliable store and a line broker: the status of a group as a
  function of the statuses of its jobs, whatever the order of the range over them; and
  \<open>EnqueueGroup\<close> and \<open>GetGroup\<close> run symbolically.
\<close>

section \<open>The status of a group\<close>

lemma group_status_loop_eq:
  "group_status_loop s sts =
     (if StatusFailed \<in> set sts then StatusFailed
      else if \<exists>st\<in>set sts. st \<noteq> StatusDone then StatusProcessing else s)"
  by (induction sts arbitrary: s) auto

lemma getGroupStatus_eq:
  assumes "range_of (range_entries E)"
  shows "getGroupStatus E st =
     (if StatusFailed \<in> set (map snd st) then StatusFailed
      else if \<exists>s\<in>set (map snd st). s \<noteq> StatusDone then StatusProcessing else StatusDone)"
  using range_of_set [OF assms, of st] by (simp add: getGroupStatus_def group_status_loop_eq)

text \<open>A status that \<open>GetGroup\<close> keeps, and one for which it looks the job up.\<close>

definition final_status :: "string \<Rightarrow> bool" where
  "final_status s \<longleftrightarrow> s = StatusFailed \<or> s = StatusDone"

definition live_status :: "string \<Rightarrow> bool" where
  "live_status s \<longleftrightarrow> s = StatusStarted \<or> s = StatusProcessing \<or> s = StatusRetrying"

text \<open>The status \<open>GetGroup\<close> gives to one job, when the job can be read.\<close>

definition refreshed ::
  "'r results_impl \<Rightarrow> ext \<Rightarrow> ('b, 'r) world \<Rightarrow> string \<Rightarrow> string \<Rightarrow> string option" where
  "refreshed R E w k s =
     (if final_status s then Some s
      else if live_status s then (case GetJob R E w k of Ok j \<Rightarrow> Some (Status j) | _ \<Rightarrow> None)
      else None)"

definition readable ::
  "'r results_impl \<Rightarrow> ext \<Rightarrow> ('b, 'r) world \<Rightarrow> (string \<times> string) list \<Rightarrow> bool" where
  "readable R E w es \<longleftrightarrow>
     (\<forall>(k, s)\<in>set es. \<not> final_status s \<longrightarrow> live_status s \<longrightarrow> (\<exists>j. GetJob R E w k = Ok j))"

definition refresh ::
  "'r results_impl \<Rightarrow> ext \<Rightarrow> ('b, 'r) world \<Rightarrow> string \<times> string \<Rightarrow> (string, string) gomap
     \<Rightarrow> (string, string) gomap" where
  "refresh R E w e acc =
     (case refreshed R E w (fst e) (snd e) of
        None \<Rightarrow> acc | Some s \<Rightarrow> AList.update (fst e) s acc)"

lemma refresh_statuses_ok:
  "readable R E w es \<Longrightarrow> refresh_statuses R E w acc es = Ok (fold (refresh R E w) es acc)"
proof (induction es arbitrary: acc)
  case Nil
  then show ?case by simp
next
  case (Cons e es)
  obtain k s where e: "e = (k, s)" by fastforce
  have rd: "readable R E w es" using Cons.prems by (simp add: readable_def)
  have "refresh_statuses R E w acc (e # es) = refresh_statuses R E w (refresh R E w e acc) es"
    using Cons.prems
    by (auto simp: e readable_def refresh_def refreshed_def final_status_def live_status_def)
  then show ?case using Cons.IH [OF rd] by simp
qed

lemma refresh_statuses_err:
  assumes "\<not> readable R E w es"
  shows "\<exists>k s. (k, s) \<in> set es \<and> (\<forall>j. GetJob R E w k \<noteq> Ok j)
    \<and> refresh_statuses R E w acc es =
        (case GetJob R E w k of Err e \<Rightarrow> Err e | Diverge \<Rightarrow> Diverge | _ \<Rightarrow> Panic)"
  using assms
proof (induction es arbitrary: acc)
  case Nil
  then show ?case by (simp add: readable_def)
next
  case (Cons e es)
  obtain k s where e: "e = (k, s)" by fastforce
  show ?case
  proof (cases "readable R E w [e]")
    case True
    then have "\<not> readable R E w es" using Cons.prems by (simp add: readable_def)
    moreover have "refresh_statuses R E w acc (e # es) = refresh_statuses R E w (refresh R E w e acc) es"
      using True by (auto simp: e readable_def refresh_def refreshed_def final_status_def live_status_def)
    ultimately show ?thesis using Cons.IH by (metis list.set_intros(2))
  next
    case False
    then have bad: "\<not> final_status s" "live_status s" "\<And>j. GetJob R E w k \<noteq> Ok j"
      by (auto simp: readable_def e)
    then have "refresh_statuses R E w acc (e # es) =
        (case GetJob R E w k of Err e \<Rightarrow> Err e | Diverge \<Rightarrow> Diverge | _ \<Rightarrow> Panic)"
      by (cases "GetJob R E w k") (auto simp: e final_status_def live_status_def)
    then show ?thesis using bad(3) e by (metis list.set_intros(1))
  qed
qed

lemma map_of_fold_refresh:
  "distinct (map fst es) \<Longrightarrow>
   map_of (fold (refresh R E w) es acc) k =
     (case map_of es k of
        None \<Rightarrow> map_of acc k
      | Some s \<Rightarrow> (case refreshed R E w k s of None \<Rightarrow> map_of acc k | Some s' \<Rightarrow> Some s'))"
proof (induction es arbitrary: acc)
  case Nil
  then show ?case by simp
next
  case (Cons e es)
  have "map_of (refresh R E w e acc) k =
      (if k = fst e then case refreshed R E w k (snd e) of None \<Rightarrow> map_of acc k | Some s' \<Rightarrow> Some s'
       else map_of acc k)"
    by (simp add: refresh_def split: option.splits)
  moreover have "k = fst e \<Longrightarrow> map_of es k = None"
    using Cons.prems by (simp add: map_of_eq_None_iff)
  ultimately show ?case
    using Cons by (cases e) (auto split: option.splits)
qed

lemma distinct_fold_refresh:
  "distinct (map fst acc) \<Longrightarrow> distinct (map fst (fold (refresh R E w) es acc))"
  by (induction es arbitrary: acc) (simp_all add: refresh_def distinct_update split: option.splits)

lemma range_entries_map_of:
  assumes "range_of ord" "distinct (map fst xs)"
  shows "distinct (map fst (ord xs))" "map_of (ord xs) = map_of xs"
proof -
  have "mset (map fst (ord xs)) = mset (map fst xs)"
    using assms(1) by (simp add: range_of_def)
  then show d: "distinct (map fst (ord xs))"
    using assms(2) by (metis mset_eq_imp_distinct_iff)
  show "map_of (ord xs) = map_of xs"
    using assms d range_of_set [OF assms(1), of xs] by (simp add: map_of_inject_set)
qed

section \<open>Enqueueing a group\<close>

definition group_id :: "ext \<Rightarrow> nat \<Rightarrow> group \<Rightarrow> string" where
  "group_id E n g = (if GroupOptID (GroupOpts g) = [] then uuid_NewString E n else GroupOptID (GroupOpts g))"

definition group_uuids :: "nat \<Rightarrow> group \<Rightarrow> nat" where
  "group_uuids n g = (if GroupOptID (GroupOpts g) = [] then Suc n else n)"

text \<open>The map of statuses of newly queued jobs.\<close>

definition started :: "string list \<Rightarrow> (string, string) gomap \<Rightarrow> (string, string) gomap" where
  "started ids st = fold (\<lambda>i. AList.update i StatusStarted) ids st"

lemma started_simps [simp]:
  "started [] st = st" "started (i # ids) st = started ids (AList.update i StatusStarted st)"
  by (simp_all add: started_def)

lemma map_of_started: "map_of (started ids st) k = (if k \<in> set ids then Some StatusStarted else map_of st k)"
  by (induction ids arbitrary: st) auto

lemma distinct_started: "distinct (map fst st) \<Longrightarrow> distinct (map fst (started ids st))"
  by (induction ids arbitrary: st) (simp_all add: distinct_update)

text \<open>The message of a group just enqueued, and the state with a group's message stored.\<close>

definition new_group_message :: "ext \<Rightarrow> nat \<Rightarrow> group \<Rightarrow> group_message" where
  "new_group_message E n g =
     \<lparr>GroupID = group_id E n g, GroupStatus = StatusProcessing,
      JobStatus = started (map ID (metas_from E (group_uuids n g) [] (GroupJobs g))) [],
      MsgGroup = Some (g\<lparr>GroupOpts := \<lparr>GroupOptID = group_id E n g\<rparr>\<rparr>)\<rparr>"

definition group_stored ::
  "'r results_impl \<Rightarrow> ext \<Rightarrow> ('b, 'r) world \<Rightarrow> group_message \<Rightarrow> ('b, 'r) world" where
  "group_stored R E w g =
     w\<lparr>rst := put R (rst w) (groupPrefix @ GroupID g) (encode (group_codec E) g)\<rparr>"

lemma group_stored_sel [simp]:
  "bst (group_stored R E w g) = bst w" "uuid_calls (group_stored R E w g) = uuid_calls w"
  by (simp_all add: group_stored_def)

lemma group_message_of_eq:
  "group_message_of E w g =
     (w\<lparr>uuid_calls := group_uuids (uuid_calls w) g\<rparr>,
      (new_group_message E (uuid_calls w) g)\<lparr>JobStatus := []\<rparr>)"
  by (simp add: group_message_of_def new_group_message_def group_id_def group_uuids_def new_uuid_def)

lemma enqueue_group_jobs_append:
  "enqueue_group_jobs R B E w st (xs @ ys) =
     on_ok (enqueue_group_jobs R B E w st xs) (\<lambda>w st. enqueue_group_jobs R B E w st ys)"
  by (induction xs arbitrary: w st) (simp_all add: on_ok_assoc)

context job_system
begin

lemma group_message_eq:
  assumes "r_inv (rst w)" "codec_ok (group_codec E)"
  shows "setGroupMessage R E w g = (group_stored R E w g, Ok ())"
    "r_inv (rst (group_stored R E w g))"
    "view (rst (group_stored R E w g)) =
       (view (rst w))(groupPrefix @ GroupID g \<mapsto> encode (group_codec E) g)"
    "getGroupMessage R E (group_stored R E w g) (GroupID g) = Ok g"
  using assms
  by (simp_all add: setGroupMessage_def getGroupMessage_def group_stored_def store_Set_eq encode_simps
      GetResult_eq)

lemma GetJob_group_stored:
  "r_inv (rst w) \<Longrightarrow> codec_ok (group_codec E) \<Longrightarrow>
     GetJob R E (group_stored R E w g) k = GetJob R E w k"
  by (rule GetJob_cong) (simp_all add: group_message_eq)

lemma enqueue_group_jobs_eq:
  assumes "r_inv (rst w)" "b_inv (bst w)" "codec_ok (job_codec E)" "\<And>t. t \<in> set ts \<Longrightarrow> immediate t"
    and "\<And>q. length (line (bst w) q) + length ts \<le> capacity"
  shows "enqueue_group_jobs R B E w st ts =
    (enqueued_list R B E [] w ts, Ok (started (map ID (metas_from E (uuid_calls w) [] ts)) st))"
  using assms
proof (induction ts arbitrary: w st)
  case Nil
  then show ?case by simp
next
  case (Cons t ts)
  let ?w = "w\<lparr>uuid_calls := next_uuids (uuid_calls w) t\<rparr>"
  let ?m = "default_meta E (uuid_calls w) [] t"
  let ?w1 = "enqueued R B E ?w t ?m"
  have room: "length (line (bst ?w) (Queue ?m)) < capacity"
    using Cons.prems(5) [of "Queue ?m"] by simp
  note facts = enqueued_facts [where w = ?w and m = ?m and t = t and E = E, OF _ _ room]
  have "\<And>q. length (line (bst ?w1) q) + length ts \<le> capacity"
    using Cons.prems by (intro enqueued_room) auto
  then have "enqueue_group_jobs R B E ?w1 st' ts = (enqueued_list R B E [] ?w1 ts,
      Ok (started (map ID (metas_from E (uuid_calls ?w1) [] ts)) st'))" for st'
    using Cons.prems facts by (intro Cons.IH) auto
  moreover have "enqueueWithMeta R B E ?w t ?m = (?w1, Ok (ID ?m))"
    using Cons.prems room by (intro enqueueWithMeta_eq) auto
  ultimately show ?case by (simp add: Enqueue_def DefaultMeta_eq)
qed

lemma EnqueueGroup_eq:
  assumes "r_inv (rst w)" "b_inv (bst w)" "codec_ok (job_codec E)" "codec_ok (group_codec E)"
    and "\<And>t. t \<in> set (GroupJobs g) \<Longrightarrow> immediate t"
    and "\<And>q. length (line (bst w) q) + length (GroupJobs g) \<le> capacity"
  shows "EnqueueGroup R B E w g =
    (group_stored R E (enqueued_list R B E [] (w\<lparr>uuid_calls := group_uuids (uuid_calls w) g\<rparr>) (GroupJobs g))
       (new_group_message E (uuid_calls w) g), Ok (group_id E (uuid_calls w) g))"
proof -
  let ?w = "w\<lparr>uuid_calls := group_uuids (uuid_calls w) g\<rparr>"
  have "enqueue_group_jobs R B E ?w [] (GroupJobs g) = (enqueued_list R B E [] ?w (GroupJobs g),
      Ok (started (map ID (metas_from E (uuid_calls ?w) [] (GroupJobs g))) []))"
    using assms by (intro enqueue_group_jobs_eq) auto
  moreover have "r_inv (rst (enqueued_list R B E [] ?w (GroupJobs g)))"
    using enqueued_list_facts [where w = ?w and ts = "GroupJobs g"] assms by simp
  ultimately show ?thesis
    using assms by (simp add: EnqueueGroup_def group_message_of_eq new_group_message_def group_message_eq)
qed

lemma GetGroup_eq:
  assumes "r_inv (rst w)" "codec_ok (group_codec E)" "getGroupMessage R E w gid = Ok g"
    and "\<not> final_status (GroupStatus g)" "range_of (range_entries E)" "readable R E w (JobStatus g)"
    and st: "st = fold (refresh R E w) (range_entries E (JobStatus g)) []"
    and g': "g' = g\<lparr>JobStatus := st, GroupStatus := getGroupStatus E st\<rparr>"
  shows "GetGroup R E w gid = (group_stored R E w g', Ok g')"
proof -
  have "readable R E w (range_entries E (JobStatus g))"
    using assms(6) range_of_set [OF assms(5)] by (simp add: readable_def)
  then have "refresh_statuses R E w [] (range_entries E (JobStatus g)) = Ok st"
    unfolding st by (rule refresh_statuses_ok)
  then show ?thesis
    using assms by (simp add: GetGroup_def final_status_def group_message_eq Let_def)
qed

text \<open>A job that cannot be read makes the whole call fail, and nothing is stored.\<close>

lemma GetGroup_unreadable:
  assumes "getGroupMessage R E w gid = Ok g" "\<not> final_status (GroupStatus g)"
    and "range_of (range_entries E)" "\<not> readable R E w (JobStatus g)"
  shows "\<exists>k s. (k, s) \<in> set (JobStatus g) \<and> (\<forall>j. GetJob R E w k \<noteq> Ok j) \<and> GetGroup R E w gid =
    (w, case GetJob R E w k of Err e \<Rightarrow> Err e | Diverge \<Rightarrow> Diverge | _ \<Rightarrow> Panic)"
proof -
  have set: "set (range_entries E (JobStatus g)) = set (JobStatus g)"
    by (rule range_of_set [OF assms(3)])
  then have "\<not> readable R E w (range_entries E (JobStatus g))"
    using assms(4) by (simp add: readable_def)
  from refresh_statuses_err [OF this, of "[]"] obtain k s
    where ks: "(k, s) \<in> set (JobStatus g)" "\<And>j. GetJob R E w k \<noteq> Ok j"
      "refresh_statuses R E w [] (range_entries E (JobStatus g)) =
        (case GetJob R E w k of Err e \<Rightarrow> Err e | Diverge \<Rightarrow> Diverge | _ \<Rightarrow> Panic)"
    unfolding set by blast
  have "GetGroup R E w gid =
      (w, case GetJob R E w k of Err e \<Rightarrow> Err e | Diverge \<Rightarrow> Diverge | _ \<Rightarrow> Panic)"
    using assms ks by (cases "GetJob R E w k") (simp_all add: GetGroup_def final_status_def)
  then show ?thesis using ks by blast
qed

end

lemma set_snd_ran: "distinct (map fst st) \<Longrightarrow> set (map snd st) = ran (map_of st)"
  by (simp add: ran_distinct)

end
