(* ===== verification/InMemory_Broker.thy ===== *)
theory InMemory_Broker
  imports Jobs
begin

text \<open>
  The in-process broker, \<open>brokers/in-memory/broker.go\<close>: a buffered channel of capacity 100
  for each queue, and beside it the list of pending messages that the inspection methods
  read. This theory has the methods as calls that run without interference; the theory
  \<open>Broker_Interleaving\<close> splits them at their lock operations and runs several goroutines.
  A send on a full channel does not return until a consumer receives: \<open>Diverge\<close>.
\<close>

record inmem_broker =
  bqueues :: "(string, bytes list) gomap"
  bpending :: "(string, string list) gomap"

definition chan_cap :: nat where "chan_cap = 100"

definition ib_New :: inmem_broker where
  "ib_New = \<lparr>bqueues = [], bpending = []\<rparr>"

text \<open>A missing key of a Go map reads as the zero value, here the nil slice.\<close>

definition pending_of :: "inmem_broker \<Rightarrow> string \<Rightarrow> string list" where
  "pending_of b q = (case map_of (bpending b) q of None \<Rightarrow> [] | Some p \<Rightarrow> p)"

definition chan_of :: "inmem_broker \<Rightarrow> string \<Rightarrow> bytes list" where
  "chan_of b q = (case map_of (bqueues b) q of None \<Rightarrow> [] | Some c \<Rightarrow> c)"

text \<open>The lookup that creates the channel of a queue not seen before.\<close>

definition ensure_chan :: "inmem_broker \<Rightarrow> string \<Rightarrow> inmem_broker" where
  "ensure_chan b q =
     (case map_of (bqueues b) q of
        None \<Rightarrow> b\<lparr>bqueues := AList.update q [] (bqueues b)\<rparr>
      | Some _ \<Rightarrow> b)"

text \<open>One turn of the loop of \<open>Consume\<close>.\<close>

definition ib_Consume :: "inmem_broker \<Rightarrow> string \<Rightarrow> inmem_broker \<times> bytes option outcome" where
  "ib_Consume b q =
     (let b = ensure_chan b q in
      case chan_of b q of
        [] \<Rightarrow> (b, Ok None)
      | d # ds \<Rightarrow>
          (let b = b\<lparr>bqueues := AList.update q ds (bqueues b)\<rparr> in
           case pending_of b q of
             [] \<Rightarrow> (b, Panic)
           | _ # ps \<Rightarrow> (b\<lparr>bpending := AList.update q ps (bpending b)\<rparr>, Ok (Some d))))"

definition ib_Enqueue :: "inmem_broker \<Rightarrow> bytes \<Rightarrow> string \<Rightarrow> inmem_broker \<times> unit outcome" where
  "ib_Enqueue b msg q =
     (let b = ensure_chan b q;
          b = b\<lparr>bpending := AList.update q (pending_of b q @ [msg]) (bpending b)\<rparr>
      in if length (chan_of b q) < chan_cap
         then (b\<lparr>bqueues := AList.update q (chan_of b q @ [msg]) (bqueues b)\<rparr>, Ok ())
         else (b, Diverge))"

definition ib_GetPending :: "inmem_broker \<Rightarrow> string \<Rightarrow> string list outcome" where
  "ib_GetPending b q =
     (case map_of (bpending b) q of
        None \<Rightarrow> Err (ErrorString ''non existend queue provided'')
      | Some p \<Rightarrow> Ok p)"

text \<open>
  Pagination, on 64-bit machine integers as the code has them: \<open>offset + limit\<close> wraps
  around, and a slice expression out of range panics.
\<close>

definition clamp_limit :: "int64 \<Rightarrow> int64" where
  "clamp_limit limit =
     (let limit = (if limit \<le>s 0 then 100 else limit)
      in if 10000 <s limit then 10000 else limit)"

definition ib_GetPendingWithPagination ::
  "inmem_broker \<Rightarrow> string \<Rightarrow> int64 \<Rightarrow> int64 \<Rightarrow> (string list \<times> int64) outcome" where
  "ib_GetPendingWithPagination b q offset limit =
     (case map_of (bpending b) q of
        None \<Rightarrow> Ok ([], 0)
      | Some pending \<Rightarrow>
          (let total = of_nat (length pending) :: int64 in
           if total = 0 then Ok ([], 0)
           else
             (let offset = (if offset <s 0 then 0 else offset) in
              if total \<le>s offset then Ok ([], total)
              else
                (let limit = clamp_limit limit;
                     end = offset + limit;
                     end = (if total <s end then total else end)
                 in if offset \<le>s end \<and> 0 \<le>s offset \<and> end \<le>s total
                    then Ok (take (nat (sint (end - offset))) (drop (nat (sint offset)) pending), total)
                    else Panic))))"

definition ib_GetPendingCount :: "inmem_broker \<Rightarrow> string \<Rightarrow> int64 outcome" where
  "ib_GetPendingCount b q =
     (case map_of (bpending b) q of
        None \<Rightarrow> Ok 0
      | Some pending \<Rightarrow> Ok (of_nat (length pending)))"

definition ib_EnqueueScheduled ::
  "inmem_broker \<Rightarrow> bytes \<Rightarrow> string \<Rightarrow> time \<Rightarrow> inmem_broker \<times> unit outcome" where
  "ib_EnqueueScheduled b msg q ts =
     (b, Err (ErrorString ''in-memory broker does not support this method''))"

definition inmem_broker_impl :: "inmem_broker broker_impl" where
  "inmem_broker_impl =
     \<lparr>b_Enqueue = ib_Enqueue, b_EnqueueScheduled = ib_EnqueueScheduled, b_Consume = ib_Consume,
      b_GetPending = ib_GetPending, b_GetPendingWithPagination = ib_GetPendingWithPagination,
      b_GetPendingCount = ib_GetPendingCount\<rparr>"

lemma inmem_broker_impl_sel [simp]:
  "b_Enqueue inmem_broker_impl = ib_Enqueue"
  "b_EnqueueScheduled inmem_broker_impl = ib_EnqueueScheduled"
  "b_Consume inmem_broker_impl = ib_Consume" "b_GetPending inmem_broker_impl = ib_GetPending"
  "b_GetPendingWithPagination inmem_broker_impl = ib_GetPendingWithPagination"
  "b_GetPendingCount inmem_broker_impl = ib_GetPendingCount"
  by (simp_all add: inmem_broker_impl_def)

section \<open>The pending list mirrors the channel\<close>

definition ib_inv :: "inmem_broker \<Rightarrow> bool" where
  "ib_inv b \<longleftrightarrow> (\<forall>q. pending_of b q = chan_of b q) \<and> (\<forall>q. length (chan_of b q) \<le> chan_cap)"

lemma ib_inv_New: "ib_inv ib_New"
  by (simp add: ib_inv_def ib_New_def pending_of_def chan_of_def)

lemma pending_of_simps [simp]:
  "pending_of (b\<lparr>bqueues := c\<rparr>) q = pending_of b q"
  "pending_of (b\<lparr>bpending := AList.update q' p m\<rparr>) q =
     (if q = q' then p else pending_of (b\<lparr>bpending := m\<rparr>) q)"
  "pending_of (b\<lparr>bpending := bpending b'\<rparr>) q = pending_of b' q"
  "pending_of (ensure_chan b q') q = pending_of b q"
  by (simp_all add: pending_of_def ensure_chan_def split: option.splits)

lemma chan_of_simps [simp]:
  "chan_of (b\<lparr>bpending := p\<rparr>) q = chan_of b q"
  "chan_of (b\<lparr>bqueues := AList.update q' c m\<rparr>) q =
     (if q = q' then c else chan_of (b\<lparr>bqueues := m\<rparr>) q)"
  "chan_of (b\<lparr>bqueues := bqueues b'\<rparr>) q = chan_of b' q"
  "chan_of (ensure_chan b q') q = chan_of b q"
  by (auto simp: chan_of_def ensure_chan_def split: option.splits)

lemma bpending_ensure_chan [simp]: "bpending (ensure_chan b q) = bpending b"
  by (simp add: ensure_chan_def split: option.splits)

lemma ib_Enqueue_Ok:
  "ib_Enqueue b m q = (b', Ok u) \<longleftrightarrow>
     length (chan_of b q) < chan_cap \<and> b' = fst (ib_Enqueue b m q)"
  by (auto simp: ib_Enqueue_def Let_def split: if_splits)

lemma ib_Enqueue_chan_of:
  "length (chan_of b q) < chan_cap \<Longrightarrow>
     chan_of (fst (ib_Enqueue b m q)) = (chan_of b)(q := chan_of b q @ [m])"
  by (rule ext) (simp add: ib_Enqueue_def Let_def)

lemma ib_Enqueue_pending_of:
  "pending_of (fst (ib_Enqueue b m q)) = (pending_of b)(q := pending_of b q @ [m])"
  by (rule ext) (simp add: ib_Enqueue_def Let_def)

lemma ib_Enqueue_inv:
  "ib_inv b \<Longrightarrow> length (chan_of b q) < chan_cap \<Longrightarrow> ib_inv (fst (ib_Enqueue b m q))"
  by (simp add: ib_inv_def ib_Enqueue_chan_of ib_Enqueue_pending_of)

text \<open>A turn of the consumer under the invariant: the head of the channel, or nothing.\<close>

lemma ib_Consume_Nil:
  "chan_of b q = [] \<Longrightarrow> ib_Consume b q = (ensure_chan b q, Ok None)"
  by (simp add: ib_Consume_def Let_def)

lemma ib_Consume_Cons:
  assumes "chan_of b q = d # ds" "pending_of b q = p # ps"
  shows "ib_Consume b q =
    ((ensure_chan b q)\<lparr>bqueues := AList.update q ds (bqueues (ensure_chan b q)),
       bpending := AList.update q ps (bpending (ensure_chan b q))\<rparr>, Ok (Some d))"
  using assms by (simp add: ib_Consume_def Let_def)

lemma ib_Consume_Cons_state:
  assumes "ib_inv b" "chan_of b q = d # ds"
  shows "\<exists>b'. ib_Consume b q = (b', Ok (Some d)) \<and> chan_of b' = (chan_of b)(q := ds)
    \<and> pending_of b' = (pending_of b)(q := ds) \<and> ib_inv b'"
proof -
  have p: "pending_of b q = d # ds"
    using assms by (simp add: ib_inv_def)
  have len: "length ds \<le> chan_cap"
    using assms by (metis ib_inv_def length_Cons Suc_leD)
  show ?thesis
    unfolding ib_Consume_Cons [OF assms(2) p]
    using assms(1) len by (auto simp: fun_eq_iff ib_inv_def)
qed

lemma ib_Consume_Nil_state:
  assumes "ib_inv b" "chan_of b q = []"
  shows "\<exists>b'. ib_Consume b q = (b', Ok None) \<and> chan_of b' = chan_of b \<and> ib_inv b'"
  using assms by (simp add: ib_Consume_Nil ib_inv_def fun_eq_iff)

lemma ib_Consume_cases:
  assumes "ib_inv b"
  obtains (none) b' where "chan_of b q = []" "ib_Consume b q = (b', Ok None)"
      "chan_of b' = chan_of b" "ib_inv b'"
  | (some) b' d ds where "chan_of b q = d # ds" "ib_Consume b q = (b', Ok (Some d))"
      "chan_of b' = (chan_of b)(q := ds)" "ib_inv b'"
  using ib_Consume_Cons_state [OF assms] ib_Consume_Nil_state [OF assms] by (cases "chan_of b q") blast+

interpretation im_broker: line_broker inmem_broker_impl chan_of ib_inv "(@)" chan_cap
proof (unfold_locales, goal_cases)
  case (1 b m q b' u)
  then show ?case
    by (auto simp: ib_Enqueue_Ok ib_Enqueue_chan_of)
next
  case (2 b m q b' e)
  then show ?case
    by (auto simp: ib_Enqueue_def Let_def split: if_splits)
next
  case (3 b m q b' u)
  then show ?case
    by (auto simp: ib_Enqueue_Ok ib_Enqueue_inv)
next
  case (4 b q b' m)
  then show ?case
    by (auto simp: fun_eq_iff elim!: ib_Consume_cases [of b q])
next
  case (5 b q b')
  then show ?case
    by (auto elim: ib_Consume_cases [of b q])
next
  case (6 b q)
  then show ?case
    by (auto elim: ib_Consume_cases [of b q])
next
  case (7 b q b' r)
  then show ?case
    by (auto elim: ib_Consume_cases [of b q])
next
  case (12 b m q b' u)
  then show ?case
    by (auto simp: ib_Enqueue_Ok ib_Enqueue_chan_of)
next
  case (13 b q m)
  then show ?case
    by (simp add: ib_Enqueue_def Let_def)
next
  case (14 b q m ms)
  then show ?case
    using ib_Consume_Cons_state by fastforce
next
  case (15 b q)
  then show ?case
    using ib_Consume_Nil_state by fastforce
qed simp_all

section \<open>Pagination\<close>

text \<open>The effective bounds of a page.\<close>

definition page_start :: "int64 \<Rightarrow> nat" where
  "page_start offset = nat (sint offset)"

definition page_length :: "int64 \<Rightarrow> nat" where
  "page_length limit = (if sint limit \<le> 0 then 100 else min (nat (sint limit)) 10000)"

lemma sint_clamp_limit: "sint (clamp_limit limit) = int (page_length limit)"
  by (auto simp: clamp_limit_def page_length_def Let_def word_sle_eq word_sless_alt)

lemma ib_GetPendingWithPagination_eq:
  assumes "length (pending_of b q) < 2 ^ 63 - 10000"
  shows "ib_GetPendingWithPagination b q offset limit =
    Ok (take (page_length limit) (drop (page_start offset) (pending_of b q)), of_nat (length (pending_of b q)))"
proof (cases "pending_of b q = []")
  case True
  then show ?thesis
    by (auto simp: ib_GetPendingWithPagination_def pending_of_def Let_def split: option.splits)
next
  case False
  then obtain ps where ps: "map_of (bpending b) q = Some ps" "pending_of b q = ps" "ps \<noteq> []"
    by (auto simp: pending_of_def split: option.splits)
  let ?t = "of_nat (length ps) :: int64"
  have n: "length ps < 2 ^ 63 - 10000" "0 < length ps" using assms ps by simp_all
  have t: "sint ?t = int (length ps)" using n by (intro sint_of_nat_int64) simp
  then have t0: "?t \<noteq> 0" using n(2) by (metis of_nat_0_less_iff less_irrefl signed_0)
  define o' where "o' = (if offset <s 0 then 0 else offset)"
  have o': "sint o' = int (page_start offset)"
    by (auto simp: o'_def page_start_def word_sless_alt)
  show ?thesis
  proof (cases "length ps \<le> page_start offset")
    case True
    then have "?t \<le>s o'" by (simp add: word_sle_eq t o')
    then show ?thesis
      using ps t0 True by (simp add: ib_GetPendingWithPagination_def Let_def flip: o'_def)
  next
    case False
    then have no: "\<not> ?t \<le>s o'" by (simp add: word_sle_eq t o')
    have len: "page_length limit \<le> 10000" by (simp add: page_length_def)
    define e where "e = o' + clamp_limit limit"
    have e: "sint e = int (page_start offset + page_length limit)"
      unfolding e_def using False n len by (subst sint_add_int64) (simp_all add: o' sint_clamp_limit)
    define e' where "e' = (if ?t <s e then ?t else e)"
    have e': "sint e' = int (min (length ps) (page_start offset + page_length limit))"
      by (auto simp: e'_def word_sless_alt t e)
    have ok: "o' \<le>s e' \<and> 0 \<le>s o' \<and> e' \<le>s ?t"
      using False by (simp add: word_sle_eq o' e' t)
    have "sint (e' - o') = int (min (length ps) (page_start offset + page_length limit) - page_start offset)"
      using False n by (subst sint_diff_int64) (simp_all add: o' e')
    then have "take (nat (sint (e' - o'))) (drop (nat (sint o')) ps) =
        take (page_length limit) (drop (page_start offset) ps)"
      by (simp add: o' min_def)
    then show ?thesis
      using ps t0 no ok unfolding e'_def
      by (cases "?t <s e") (simp_all add: ib_GetPendingWithPagination_def Let_def flip: o'_def e_def)
  qed
qed
end
