(* ===== verification/InMemory_Results.thy ===== *)
theory InMemory_Results
  imports Jobs
begin

text \<open>
  The in-process results store, \<open>results/in-memory/results.go\<close>. Each method runs under the
  store's mutex, so a method is one step. The sets \<open>failed\<close> and \<open>success\<close> are maps to the
  empty struct in the code; here the list of their keys. The methods that range over a map
  take the runtime's iteration order.
\<close>

record inmem_results =
  rstore :: "(string, bytes) gomap"
  rfailed :: "(string, unit) gomap"
  rsuccess :: "(string, unit) gomap"
  rtasks :: "(string, bytes) gomap"

definition ir_New :: inmem_results where
  "ir_New = \<lparr>rstore = [], rfailed = [], rsuccess = [], rtasks = []\<rparr>"

definition ir_Get :: "inmem_results \<Rightarrow> string \<Rightarrow> bytes outcome" where
  "ir_Get r k = (case map_of (rstore r) k of None \<Rightarrow> Err InMemoryErrNotFound | Some v \<Rightarrow> Ok v)"

definition ir_NilError :: go_error where
  "ir_NilError = InMemoryErrNotFound"

definition ir_DeleteJob :: "inmem_results \<Rightarrow> string \<Rightarrow> inmem_results \<times> unit outcome" where
  "ir_DeleteJob r k =
     (r\<lparr>rstore := AList.delete k (rstore r), rfailed := AList.delete k (rfailed r),
        rsuccess := AList.delete k (rsuccess r)\<rparr>, Ok ())"

definition ir_Set :: "inmem_results \<Rightarrow> string \<Rightarrow> bytes \<Rightarrow> inmem_results \<times> unit outcome" where
  "ir_Set r k b = (r\<lparr>rstore := AList.update k b (rstore r)\<rparr>, Ok ())"

definition ir_SetSuccess :: "inmem_results \<Rightarrow> string \<Rightarrow> inmem_results \<times> unit outcome" where
  "ir_SetSuccess r k = (r\<lparr>rsuccess := AList.update k () (rsuccess r)\<rparr>, Ok ())"

definition ir_SetFailed :: "inmem_results \<Rightarrow> string \<Rightarrow> inmem_results \<times> unit outcome" where
  "ir_SetFailed r k = (r\<lparr>rfailed := AList.update k () (rfailed r)\<rparr>, Ok ())"

text \<open>
  \<open>make([]string, len(m))\<close> is a slice of that many empty strings; the loop appends the
  keys behind them.
\<close>

definition ir_GetSuccess :: "(string list \<Rightarrow> string list) \<Rightarrow> inmem_results \<Rightarrow> string list outcome" where
  "ir_GetSuccess ord r =
     Ok (replicate (length (rsuccess r)) [] @ ord (map fst (rsuccess r)))"

definition ir_GetFailed :: "(string list \<Rightarrow> string list) \<Rightarrow> inmem_results \<Rightarrow> string list outcome" where
  "ir_GetFailed ord r =
     Ok (replicate (length (rfailed r)) [] @ ord (map fst (rfailed r)))"

definition ir_SetTask :: "inmem_results \<Rightarrow> string \<Rightarrow> bytes \<Rightarrow> inmem_results \<times> unit outcome" where
  "ir_SetTask r name task = (r\<lparr>rtasks := AList.update name task (rtasks r)\<rparr>, Ok ())"

definition ir_GetTask :: "inmem_results \<Rightarrow> string \<Rightarrow> bytes outcome" where
  "ir_GetTask r name = (case map_of (rtasks r) name of None \<Rightarrow> Err InMemoryErrNotFound | Some t \<Rightarrow> Ok t)"

definition ir_GetAllTasks :: "(bytes list \<Rightarrow> bytes list) \<Rightarrow> inmem_results \<Rightarrow> bytes list outcome" where
  "ir_GetAllTasks ord r = Ok (ord (map snd (rtasks r)))"

definition ir_DeleteTask :: "inmem_results \<Rightarrow> string \<Rightarrow> inmem_results \<times> unit outcome" where
  "ir_DeleteTask r name = (r\<lparr>rtasks := AList.delete name (rtasks r)\<rparr>, Ok ())"

text \<open>The method table; \<open>ord\<close> is the iteration order of maps.\<close>

definition inmem_results_impl :: "(bytes list \<Rightarrow> bytes list) \<Rightarrow> inmem_results results_impl" where
  "inmem_results_impl ord =
     \<lparr>r_Get = ir_Get, r_NilError = ir_NilError, r_Set = ir_Set, r_DeleteJob = ir_DeleteJob,
      r_GetFailed = ir_GetFailed ord, r_GetSuccess = ir_GetSuccess ord,
      r_SetFailed = ir_SetFailed, r_SetSuccess = ir_SetSuccess, r_SetTask = ir_SetTask,
      r_GetTask = ir_GetTask, r_GetAllTasks = ir_GetAllTasks ord, r_DeleteTask = ir_DeleteTask\<rparr>"

lemma inmem_results_impl_sel [simp]:
  "r_Get (inmem_results_impl ord) = ir_Get" "r_NilError (inmem_results_impl ord) = ir_NilError"
  "r_Set (inmem_results_impl ord) = ir_Set" "r_DeleteJob (inmem_results_impl ord) = ir_DeleteJob"
  "r_GetFailed (inmem_results_impl ord) = ir_GetFailed ord"
  "r_GetSuccess (inmem_results_impl ord) = ir_GetSuccess ord"
  "r_SetFailed (inmem_results_impl ord) = ir_SetFailed"
  "r_SetSuccess (inmem_results_impl ord) = ir_SetSuccess"
  "r_SetTask (inmem_results_impl ord) = ir_SetTask" "r_GetTask (inmem_results_impl ord) = ir_GetTask"
  "r_GetAllTasks (inmem_results_impl ord) = ir_GetAllTasks ord"
  "r_DeleteTask (inmem_results_impl ord) = ir_DeleteTask"
  by (simp_all add: inmem_results_impl_def)

declare
  ir_Get_def [store_ops] ir_NilError_def [store_ops] ir_DeleteJob_def [store_ops] ir_Set_def [store_ops]
  ir_SetSuccess_def [store_ops] ir_SetFailed_def [store_ops] ir_GetSuccess_def [store_ops]
  ir_GetFailed_def [store_ops] ir_SetTask_def [store_ops] ir_GetTask_def [store_ops]
  ir_GetAllTasks_def [store_ops] ir_DeleteTask_def [store_ops]

section \<open>The store's invariant and contract\<close>

text \<open>Go map keys are unique; every method keeps the association lists so.\<close>

definition ir_inv :: "inmem_results \<Rightarrow> bool" where
  "ir_inv r \<longleftrightarrow> distinct (map fst (rstore r)) \<and> distinct (map fst (rfailed r)) \<and>
     distinct (map fst (rsuccess r)) \<and> distinct (map fst (rtasks r))"

definition ir_view :: "inmem_results \<Rightarrow> string \<Rightarrow> bytes option" where
  "ir_view r = map_of (rstore r)"

definition ir_succ :: "inmem_results \<Rightarrow> string set" where
  "ir_succ r = dom (map_of (rsuccess r))"

definition ir_fail :: "inmem_results \<Rightarrow> string set" where
  "ir_fail r = dom (map_of (rfailed r))"

lemma ir_inv_New: "ir_inv ir_New"
  by (simp add: ir_inv_def ir_New_def)

lemma ir_inv_step:
  assumes "ir_inv r"
  shows "ir_inv (fst (ir_Set r k b))" "ir_inv (fst (ir_DeleteJob r k))"
    "ir_inv (fst (ir_SetSuccess r k))" "ir_inv (fst (ir_SetFailed r k))"
    "ir_inv (fst (ir_SetTask r k b))" "ir_inv (fst (ir_DeleteTask r k))"
  using assms by (simp_all add: ir_inv_def store_ops distinct_update distinct_delete)

interpretation im_store: reliable_store "inmem_results_impl ord" ir_view ir_succ ir_fail ir_inv "\<lambda>_. True"
  for ord
  by unfold_locales
    (auto simp: ir_view_def ir_succ_def ir_fail_def store_ops ir_inv_def distinct_update
      distinct_delete split: option.splits if_splits)

end
