(* ===== verification/Reference_Ext.thy ===== *)
theory Reference_Ext
  imports Tasqueue_Interfaces
begin

text \<open>
  A concrete instance of the external packages, for the closed examples: it shows that the
  laws the theorems assume of \<open>msgpack\<close> and \<open>uuid\<close> can hold together. Values are encoded
  as self-describing trees of numbers, strings and lists, the shape of \<open>msgpack\<close>'s data
  model; nothing here models code of the repository.
\<close>

section \<open>Self-describing values\<close>

datatype vtree = N nat | S bytes | L "vtree list"

fun enc_nat :: "nat \<Rightarrow> bytes" where
  "enc_nat 0 = [CHR ''0'']"
| "enc_nat (Suc n) = CHR ''1'' # enc_nat n"

fun dec_nat :: "bytes \<Rightarrow> (nat \<times> bytes) option" where
  "dec_nat [] = None"
| "dec_nat (c # s) =
     (if c = CHR ''0'' then Some (0, s)
      else case dec_nat s of None \<Rightarrow> None | Some (n, r) \<Rightarrow> Some (Suc n, r))"

lemma dec_enc_nat [simp]: "dec_nat (enc_nat n @ r) = Some (n, r)"
  by (induction n) auto

lemma length_enc_nat [simp]: "length (enc_nat n) = Suc n"
  by (induction n) auto

fun ser :: "vtree \<Rightarrow> bytes" where
  "ser (N n) = CHR ''n'' # enc_nat n"
| "ser (S s) = CHR ''s'' # enc_nat (length s) @ s"
| "ser (L vs) = CHR ''l'' # enc_nat (length vs) @ concat (map ser vs)"

fun parse :: "nat \<Rightarrow> bytes \<Rightarrow> (vtree \<times> bytes) option"
  and parse_n :: "nat \<Rightarrow> nat \<Rightarrow> bytes \<Rightarrow> (vtree list \<times> bytes) option" where
  "parse 0 s = None"
| "parse (Suc f) [] = None"
| "parse (Suc f) (c # s) =
     (case dec_nat s of
        None \<Rightarrow> None
      | Some (n, r) \<Rightarrow>
          if c = CHR ''n'' then Some (N n, r)
          else if c = CHR ''s''
          then (if length r < n then None else Some (S (take n r), drop n r))
          else (case parse_n f n r of None \<Rightarrow> None | Some (vs, t) \<Rightarrow> Some (L vs, t)))"
| "parse_n f 0 s = Some ([], s)"
| "parse_n 0 (Suc k) s = None"
| "parse_n (Suc f) (Suc k) s =
     (case parse f s of
        None \<Rightarrow> None
      | Some (v, r) \<Rightarrow>
          (case parse_n f k r of None \<Rightarrow> None | Some (vs, t) \<Rightarrow> Some (v # vs, t)))"

text \<open>As much fuel as the encoding is long is enough.\<close>

lemma parse_n_ser:
  assumes "\<And>v f r. v \<in> set vs \<Longrightarrow> length (ser v) \<le> f \<Longrightarrow> parse f (ser v @ r) = Some (v, r)"
    and "length (concat (map ser vs)) + length vs \<le> f"
  shows "parse_n f (length vs) (concat (map ser vs) @ r) = Some (vs, r)"
  using assms
proof (induction vs arbitrary: f)
  case Nil
  then show ?case by simp
next
  case (Cons v vs)
  then obtain g where f: "f = Suc g" by (cases f) auto
  have "parse g (ser v @ (concat (map ser vs) @ r)) = Some (v, concat (map ser vs) @ r)"
    using Cons.prems f by simp
  moreover have "parse_n g (length vs) (concat (map ser vs) @ r) = Some (vs, r)"
    using Cons.prems f by (intro Cons.IH) auto
  ultimately show ?case by (simp add: f)
qed

lemma parse_ser: "length (ser v) \<le> f \<Longrightarrow> parse f (ser v @ r) = Some (v, r)"
proof (induction v arbitrary: f r)
  case (N n)
  then show ?case by (cases f) auto
next
  case (S s)
  then show ?case by (cases f) auto
next
  case (L vs)
  then obtain g where f: "f = Suc g" by (cases f) auto
  have "parse_n g (length vs) (concat (map ser vs) @ r) = Some (vs, r)"
    using L f by (intro parse_n_ser) auto
  then show ?case by (simp add: f)
qed

definition encode_with :: "('a \<Rightarrow> vtree) \<Rightarrow> 'a \<Rightarrow> go_error + bytes" where
  "encode_with f x = Inr (ser (f x))"

definition decode_with :: "(vtree \<Rightarrow> 'a option) \<Rightarrow> bytes \<Rightarrow> go_error + 'a" where
  "decode_with g b =
     (case parse (length b) b of
        None \<Rightarrow> Inl (External ''msgpack: unexpected code'')
      | Some (v, r) \<Rightarrow> (case g v of
          None \<Rightarrow> Inl (External ''msgpack: unexpected code'')
        | Some x \<Rightarrow> Inr x))"

definition ref_codec :: "('a \<Rightarrow> vtree) \<Rightarrow> (vtree \<Rightarrow> 'a option) \<Rightarrow> 'a codec" where
  "ref_codec f g = \<lparr>marshal = encode_with f, unmarshal = decode_with g\<rparr>"

lemma ref_codec_ok: "(\<And>x. g (f x) = Some x) \<Longrightarrow> codec_ok (ref_codec f g)"
  using parse_ser [where r = "[]"]
  by (auto simp: codec_ok_def ref_codec_def encode_with_def decode_with_def)

section \<open>The program's structs as values\<close>

definition of_int_v :: "int \<Rightarrow> vtree" where
  "of_int_v i = L [N (nat i), N (nat (- i))]"

fun to_int_v :: "vtree \<Rightarrow> int" where
  "to_int_v (L [N a, N b]) = int a - int b"
| "to_int_v _ = 0"

fun to_word_v :: "vtree \<Rightarrow> uint32" where
  "to_word_v (N n) = of_nat n"
| "to_word_v _ = 0"

fun to_bytes_v :: "vtree \<Rightarrow> bytes" where
  "to_bytes_v (S s) = s"
| "to_bytes_v _ = []"

fun to_list_v :: "vtree \<Rightarrow> vtree list" where
  "to_list_v (L vs) = vs"
| "to_list_v _ = []"

lemma to_int_of_int_v [simp]: "to_int_v (of_int_v i) = i"
  by (simp add: of_int_v_def)

lemma to_word_unat_v [simp]: "to_word_v (N (unat u)) = u"
  by simp

definition opts_v :: "job_opts \<Rightarrow> vtree" where
  "opts_v x = L [S (OptID x), of_int_v (ETA x), S (OptQueue x), N (unat (MaxRetries x)),
     S (OptSchedule x), of_int_v (Timeout x)]"

fun v_opts :: "vtree \<Rightarrow> job_opts option" where
  "v_opts (L [a, b, c, d, e, f]) =
     Some \<lparr>OptID = to_bytes_v a, ETA = to_int_v b, OptQueue = to_bytes_v c,
           MaxRetries = to_word_v d, OptSchedule = to_bytes_v e, Timeout = to_int_v f\<rparr>"
| "v_opts _ = None"

lemma v_opts_v [simp]: "v_opts (opts_v x) = Some x"
  by (simp add: opts_v_def)

fun job_v :: "job \<Rightarrow> vtree" where
  "job_v (Job os t p oe opts) = L [L (map job_v os), S t, S p, L (map job_v oe), opts_v opts]"

fun v_job :: "vtree \<Rightarrow> job option" where
  "v_job (L [L os, S t, S p, L oe, opts]) =
     (case those (map v_job os) of
        None \<Rightarrow> None
      | Some js \<Rightarrow> (case those (map v_job oe) of
          None \<Rightarrow> None
        | Some ks \<Rightarrow> map_option (Job js t p ks) (v_opts opts)))"
| "v_job _ = None"

lemma those_map_Some: "(\<And>x. x \<in> set xs \<Longrightarrow> f (g x) = Some x) \<Longrightarrow> those (map (f \<circ> g) xs) = Some xs"
  by (induction xs) auto

lemma v_job_v [simp]: "v_job (job_v j) = Some j"
  by (induction j) (simp add: those_map_Some)

definition meta_v :: "'a meta_scheme \<Rightarrow> vtree list" where
  "meta_v m = [S (ID m), L (map S (OnSuccessIDs m)), S (Status m), S (Queue m), S (Schedule m),
     N (unat (MaxRetry m)), N (unat (Retried m)), S (PrevErr m), of_int_v (ProcessedAt m),
     S (PrevJobResult m)]"

definition message_v :: "job_message \<Rightarrow> vtree" where
  "message_v m = L [L (meta_v m), (case MsgJob m of None \<Rightarrow> N 0 | Some j \<Rightarrow> job_v j)]"

definition opt_job_v :: "vtree \<Rightarrow> job option" where
  "opt_job_v v = v_job v"

fun v_message :: "vtree \<Rightarrow> job_message option" where
  "v_message (L [L [a, b, c, d, e, f, g, h, i, k], j]) =
     Some \<lparr>ID = to_bytes_v a, OnSuccessIDs = map to_bytes_v (to_list_v b), Status = to_bytes_v c,
           Queue = to_bytes_v d, Schedule = to_bytes_v e, MaxRetry = to_word_v f,
           Retried = to_word_v g, PrevErr = to_bytes_v h, ProcessedAt = to_int_v i,
           PrevJobResult = to_bytes_v k, MsgJob = opt_job_v j\<rparr>"
| "v_message _ = None"

lemma to_bytes_S [simp]: "map (to_bytes_v \<circ> S) xs = xs"
  by (induction xs) auto

lemma v_message_v [simp]: "v_message (message_v m) = Some m"
  by (cases m) (simp add: message_v_def meta_v_def opt_job_v_def split: option.splits)

definition chain_v :: "chain_message \<Rightarrow> vtree" where
  "chain_v c = L [S (ChainID c), S (ChainStatus c), S (JobID c), L (map S (PrevJobs c))]"

fun v_chain :: "vtree \<Rightarrow> chain_message option" where
  "v_chain (L [a, b, c, d]) =
     Some \<lparr>ChainID = to_bytes_v a, ChainStatus = to_bytes_v b, JobID = to_bytes_v c,
           PrevJobs = map to_bytes_v (to_list_v d)\<rparr>"
| "v_chain _ = None"

lemma v_chain_v [simp]: "v_chain (chain_v c) = Some c"
  by (simp add: chain_v_def)

definition entry_v :: "string \<times> string \<Rightarrow> vtree" where
  "entry_v e = L [S (fst e), S (snd e)]"

fun v_entry :: "vtree \<Rightarrow> string \<times> string" where
  "v_entry (L [a, b]) = (to_bytes_v a, to_bytes_v b)"
| "v_entry _ = ([], [])"

lemma v_entry_v [simp]: "map (v_entry \<circ> entry_v) xs = xs"
  by (induction xs) (auto simp: entry_v_def)

definition group_v :: "group_message \<Rightarrow> vtree" where
  "group_v g = L [S (GroupID g), S (GroupStatus g), L (map entry_v (JobStatus g)),
     (case MsgGroup g of
        None \<Rightarrow> N 0
      | Some t \<Rightarrow> L [L (map job_v (GroupJobs t)), S (GroupOptID (GroupOpts t))])]"

fun v_group_opt :: "vtree \<Rightarrow> group option" where
  "v_group_opt (L [js, i]) =
     map_option (\<lambda>js. \<lparr>GroupJobs = js, GroupOpts = \<lparr>GroupOptID = to_bytes_v i\<rparr>\<rparr>)
       (those (map v_job (to_list_v js)))"
| "v_group_opt _ = None"

fun v_group :: "vtree \<Rightarrow> group_message option" where
  "v_group (L [a, b, c, d]) =
     Some \<lparr>GroupID = to_bytes_v a, GroupStatus = to_bytes_v b,
           JobStatus = map v_entry (to_list_v c), MsgGroup = v_group_opt d\<rparr>"
| "v_group _ = None"

lemma v_group_v [simp]: "v_group (group_v g) = Some g"
  by (cases g) (simp add: group_v_def those_map_Some split: option.splits)

definition task_v :: "task_info \<Rightarrow> vtree" where
  "task_v t = L [S (Name t), S (InfoQueue t), N (unat (InfoConcurrency t))]"

fun v_task :: "vtree \<Rightarrow> task_info option" where
  "v_task (L [a, b, c]) =
     Some \<lparr>Name = to_bytes_v a, InfoQueue = to_bytes_v b, InfoConcurrency = to_word_v c\<rparr>"
| "v_task _ = None"

lemma v_task_v [simp]: "v_task (task_v t) = Some t"
  by (simp add: task_v_def)

section \<open>The instance\<close>

text \<open>
  Identifiers count up in unary behind a fixed prefix, the clock ticks once a reading, and
  the only schedule that parses is \<open>@hourly\<close> (an hour after the given time).
\<close>

definition ref_ext :: ext where
  "ref_ext =
     \<lparr>uuid_NewString = (\<lambda>n. ''uuid-'' @ replicate n (CHR ''x'')),
      time_Now = (\<lambda>n. int n + 1),
      cron_ParseStandard = (\<lambda>s. if s = ''@hourly'' then Inr (\<lambda>t. t + 3600000000000)
                                else Inl (External ''expected exactly 5 fields'')),
      job_codec = ref_codec message_v v_message, chain_codec = ref_codec chain_v v_chain,
      group_codec = ref_codec group_v v_group, task_codec = ref_codec task_v v_task,
      range_entries = rev\<rparr>"

lemma ref_ext_codecs [simp]:
  "codec_ok (job_codec ref_ext)" "codec_ok (chain_codec ref_ext)"
  "codec_ok (group_codec ref_ext)" "codec_ok (task_codec ref_ext)"
  by (simp_all add: ref_ext_def ref_codec_ok)

lemma ref_ext_sel [simp]:
  "uuid_NewString ref_ext n = ''uuid-'' @ replicate n (CHR ''x'')"
  "time_Now ref_ext n = int n + 1" "range_entries ref_ext = rev"
  "cron_ParseStandard ref_ext ''@hourly'' = Inr (\<lambda>t. t + 3600000000000)"
  by (simp_all add: ref_ext_def)

end
