(* ===== verification/InMemory_System.thy ===== *)
theory InMemory_System
  imports Chain_System Group_System InMemory_Broker InMemory_Results Reference_Ext
begin

text \<open>
  The server over the in-process broker and results store: the interpretation of
  \<open>job_system\<close>.
\<close>

interpretation im: job_system "inmem_results_impl ord" ir_view ir_succ ir_fail ir_inv
    "\<lambda>_. True" inmem_broker_impl chan_of ib_inv "(@)" chan_cap
  for ord
  by unfold_locales

type_synonym im_world = "(inmem_broker, inmem_results) world"

definition im_inv :: "im_world \<Rightarrow> bool" where
  "im_inv w \<longleftrightarrow> ir_inv (rst w) \<and> ib_inv (bst w)"

definition im_New :: im_world where
  "im_New = \<lparr>bst = ib_New, rst = ir_New, uuid_calls = 0, now_calls = 0\<rparr>"

lemma im_inv_New [simp]: "im_inv im_New"
  by (simp add: im_inv_def im_New_def ib_inv_New ir_inv_New)

lemma chan_of_New [simp]: "chan_of ib_New q = []" "bst im_New = ib_New" "uuid_calls im_New = 0"
    "now_calls im_New = 0" "rst im_New = ir_New"
  by (simp_all add: chan_of_def ib_New_def im_New_def)

text \<open>Messages put into the store one by one.\<close>

lemma stored_inv: "im_inv w \<Longrightarrow> im_inv (stored (inmem_results_impl ord) E w m)"
  by (simp add: im_inv_def)

lemma fold_stored_inv: "im_inv w \<Longrightarrow> im_inv (fold (\<lambda>m w. stored (inmem_results_impl ord) E w m) ms w)"
  by (induction ms arbitrary: w) (simp_all add: stored_inv)

lemma GetJob_stored:
  "im_inv w \<Longrightarrow> codec_ok (job_codec E) \<Longrightarrow>
   GetJob (inmem_results_impl ord) E (stored (inmem_results_impl ord) E w m) k =
     (if k = ID m then Ok m else GetJob (inmem_results_impl ord) E w k)"
  by (auto simp: im_inv_def intro: im_store.GetJob_view im_store.GetJob_cong)

end
