(* ===== verification/Job_Properties.thy ===== *)
theory Job_Properties
  imports InMemory_System
begin

text \<open>
  The properties of a job's life over the in-process implementations, with closed examples
  on the reference packages.
\<close>

section \<open>Example jobs and tasks\<close>

definition ex_opts :: job_opts where
  "ex_opts = \<lparr>OptID = ''a'', ETA = 0, OptQueue = ''q'', MaxRetries = 2, OptSchedule = [], Timeout = 0\<rparr>"

definition ex_follow :: job where
  "ex_follow = Job [] ''log'' ''x'' [] (ex_opts\<lparr>OptID := ''b''\<rparr>)"

definition ex_job :: job where
  "ex_job = Job [] ''log'' ''hello'' [ex_follow] ex_opts"

definition ex_first :: job where
  "ex_first = Job [ex_follow] ''log'' ''hello'' [] ex_opts"

definition ex_no_cb :: "('b, 'r) task_opts" where
  "ex_no_cb = \<lparr>Concurrency = 1, TaskQueue = ''q'', SuccessCB = None, ProcessingCB = None,
     RetryingCB = None, FailedCB = None\<rparr>"

definition failing_task :: "(inmem_broker, inmem_results) task" where
  "failing_task = \<lparr>TaskName = ''log'',
     Handler = (\<lambda>p c w. (w, Some (ErrorString ''boom''))), TaskOpts = ex_no_cb\<rparr>"

definition silent_task :: "('b, 'r) task" where
  "silent_task = \<lparr>TaskName = ''log'', Handler = (\<lambda>p c w. (w, None)), TaskOpts = ex_no_cb\<rparr>"

definition saving_task :: "(inmem_broker, inmem_results) task" where
  "saving_task = \<lparr>TaskName = ''log'',
     Handler = (\<lambda>p c w. (fst (Save (inmem_results_impl (\<lambda>xs. xs)) w c p), None)),
     TaskOpts = ex_no_cb\<rparr>"

text \<open>The world after a job has been enqueued on a fresh server.\<close>

definition ex_message :: "job \<Rightarrow> job_message" where
  "ex_message t = job_message_of t (default_meta ref_ext 0 [] t)"

definition ex_world :: "job \<Rightarrow> im_world" where
  "ex_world t = enqueued (inmem_results_impl (\<lambda>xs. xs)) inmem_broker_impl ref_ext im_New t
     (default_meta ref_ext 0 [] t)"

lemmas ex_jobs = ex_opts_def ex_follow_def ex_job_def ex_first_def
lemmas ex_tasks = ex_no_cb_def failing_task_def silent_task_def saving_task_def

lemma im_New_facts: "ir_inv (rst im_New)" "ib_inv (bst im_New)"
    "length (chan_of (bst im_New) q) < chan_cap"
  using im_inv_New by (simp_all add: im_inv_def chan_cap_def)

lemma ex_world_facts:
  "ir_inv (rst (ex_world t))" "ib_inv (bst (ex_world t))"
  "chan_of (bst (ex_world t)) q =
     (if q = OptQueue (Opts t) then [job_bytes ref_ext (ex_message t)] else [])"
  using im.enqueued_facts [where w = im_New and m = "default_meta ref_ext 0 [] t" and t = t
      and E = ref_ext] im_New_facts
  by (simp_all add: ex_world_def ex_message_def)

lemma ex_message_sel [simp]:
  "MsgJob (ex_message t) = Some t" "Queue (ex_message t) = OptQueue (Opts t)"
  "MaxRetry (ex_message t) = MaxRetries (Opts t)" "Retried (ex_message t) = 0"
  by (simp_all add: ex_message_def)

lemma ex_message_q:
  "Queue (ex_message ex_job) = ''q''" "ID (ex_message ex_job) = ''a''"
  "Queue (ex_message ex_first) = ''q''" "ID (ex_message ex_first) = ''a''"
  by (simp_all add: ex_message_def default_meta_def ex_jobs)

section \<open>Enqueueing\<close>

lemma rtasks_ir_Set [simp]: "rtasks (fst (ir_Set r k b)) = rtasks r"
  by (simp add: ir_Set_def)

lemma rtasks_enqueued:
  "rtasks (rst (enqueued (inmem_results_impl ord) inmem_broker_impl E w t m)) = rtasks (rst w)"
  by (simp add: enqueued_def with_status_def stored_def tick_def put_def)

text \<open>
  C1. Enqueueing a job that is due at once, on a queue with room, returns its identifier
  (the client's, or a generated one) and has exactly two effects: the store holds the job's
  message, stamped and with status queued, under the job's key, every other key (of other
  jobs, of chains and groups, of saved results), the lists of failed and successful jobs and
  the registered tasks being as before; and the encoded message is the last of its queue,
  all other queues being unchanged.
\<close>

theorem Enqueue_stores_and_queues:
  fixes w :: im_world
  assumes "im_inv w" "codec_ok (job_codec E)" "immediate t"
    and "length (chan_of (bst w) (OptQueue (Opts t))) < chan_cap"
    and m: "m = default_meta E (uuid_calls w) [] t"
  shows "\<exists>w' now. Enqueue (inmem_results_impl ord) inmem_broker_impl E w t = (w', Ok (ID m))
    \<and> im_inv w'
    \<and> (\<forall>k. GetJob (inmem_results_impl ord) E w' k =
         (if k = ID m then Ok ((job_message_of t m)\<lparr>ProcessedAt := now, Status := StatusStarted\<rparr>)
          else GetJob (inmem_results_impl ord) E w k))
    \<and> ir_view (rst w') = (ir_view (rst w))(jobPrefix @ ID m \<mapsto>
         job_bytes E ((job_message_of t m)\<lparr>ProcessedAt := now, Status := StatusStarted\<rparr>))
    \<and> ir_succ (rst w') = ir_succ (rst w) \<and> ir_fail (rst w') = ir_fail (rst w)
    \<and> rtasks (rst w') = rtasks (rst w)
    \<and> chan_of (bst w') = (chan_of (bst w))(OptQueue (Opts t) :=
         chan_of (bst w) (OptQueue (Opts t)) @ [job_bytes E (job_message_of t m)])"
proof -
  let ?w = "w\<lparr>uuid_calls := next_uuids (uuid_calls w) t\<rparr>"
  have inv: "ir_inv (rst ?w)" "ib_inv (bst ?w)" "length (chan_of (bst ?w) (Queue m)) < chan_cap"
    using assms by (simp_all add: im_inv_def)
  note facts = im.enqueued_facts [where w = ?w and m = m and t = t and E = E, OF inv]
  have "Enqueue (inmem_results_impl ord) inmem_broker_impl E w t =
      (enqueued (inmem_results_impl ord) inmem_broker_impl E ?w t m, Ok (ID m))"
    using im.enqueueWithMeta_eq [OF inv(1,2) assms(2,3) inv(3)] m by (simp add: Enqueue_def DefaultMeta_eq)
  then show ?thesis
    using facts im.GetJob_enqueued [OF inv(1,2) assms(2) inv(3)] m
      im_store.GetJob_cong [where w = w and w' = ?w and E = E and ord = ord] inv
    by (intro exI [of _ "enqueued (inmem_results_impl ord) inmem_broker_impl E ?w t m"]
        exI [of _ "time_Now E (now_calls w)"]) (auto simp: im_inv_def stamp_def rtasks_enqueued)
qed

theorem Enqueue_stores_and_queues_witness:
  "\<exists>w' now. Enqueue (inmem_results_impl rev) inmem_broker_impl ref_ext im_New ex_job = (w', Ok ''a'')
    \<and> GetJob (inmem_results_impl rev) ref_ext w' ''a'' =
        Ok ((ex_message ex_job)\<lparr>ProcessedAt := now, Status := StatusStarted\<rparr>)
    \<and> ir_succ (rst w') = {} \<and> ir_fail (rst w') = {}"
  using Enqueue_stores_and_queues [where w = im_New and E = ref_ext and t = ex_job and ord = rev,
      OF _ _ _ _ refl] im_New_facts
  by (auto simp: immediate_def ex_jobs ex_message_def default_meta_def ir_succ_def ir_fail_def ir_New_def)

section \<open>Jobs that fail\<close>

text \<open>
  C2. A job whose every attempt fails (the handler returns an error or the deadline passes)
  is attempted once more than it has retries left; then its status is failed with all
  retries used, its identifier is among the failed ones, its message is gone from the
  queue, and exactly its \<open>OnError\<close> jobs have been queued.
\<close>

theorem failing_job_exhausts_retries:
  fixes w :: im_world
  assumes "im_inv w" "codec_ok (job_codec E)"
    and "MsgJob msg = Some j" "map_of ts (Task j) = Some task"
    and "\<And>sel. sel \<in> set sels \<Longrightarrow> fails ir_inv ir_view task j sel"
    and "chan_of (bst w) (Queue msg) = [job_bytes E msg]"
    and "length sels = unat (MaxRetry msg - Retried msg) + 1"
    and "\<And>t. t \<in> set (OnError j) \<Longrightarrow> immediate t"
    and "\<And>q. length (chan_of (bst w) q) + length (OnError j) \<le> chan_cap"
  shows "\<exists>n now m. let w1 = work_queue (inmem_results_impl ord) inmem_broker_impl E ts (Queue msg) w sels in
    im_inv w1
    \<and> GetJob (inmem_results_impl ord) E w1 (ID msg) =
        Ok (m\<lparr>ProcessedAt := now, Status := StatusFailed\<rparr>)
    \<and> same_job m msg \<and> Retried m = MaxRetry msg \<and> ID msg \<in> ir_fail (rst w1)
    \<and> (\<forall>q. chan_of (bst w1) q = (if q = Queue msg then [] else chan_of (bst w) q)
         @ bytes_for E q (messages_from E n [] (OnError j)))"
  using im.retries_exhausted [of w E msg j ts task sels ord] assms
  by (fastforce simp: im_inv_def Let_def chan_cap_def)

lemma failing_task_fails: "fails ir_inv ir_view failing_task j HandlerReturned"
  by (simp add: fails_def attempt_def run_handler_def ex_tasks call_cb_def call_cb_err_def
      client_frame_def no_cancel_def)

theorem failing_job_exhausts_retries_witness:
  "\<exists>n now m. let w1 = work_queue (inmem_results_impl rev) inmem_broker_impl ref_ext
        [(''log'', failing_task)] ''q'' (ex_world ex_job) (replicate 3 HandlerReturned) in
    GetJob (inmem_results_impl rev) ref_ext w1 ''a'' =
        Ok (m\<lparr>ProcessedAt := now, Status := StatusFailed\<rparr>)
    \<and> Retried m = 2 \<and> ''a'' \<in> ir_fail (rst w1)
    \<and> chan_of (bst w1) ''q'' = bytes_for ref_ext ''q'' (messages_from ref_ext n [] [ex_follow])"
proof -
  let ?w = "ex_world ex_job" and ?ts = "[(''log'', failing_task)]"
  have inv: "im_inv ?w" by (simp add: im_inv_def ex_world_facts)
  have task: "map_of ?ts (Task ex_job) = Some failing_task" by (simp add: ex_jobs)
  have fs: "fails ir_inv ir_view failing_task ex_job sel" if "sel \<in> set (replicate 3 HandlerReturned)" for sel
    using that failing_task_fails by (auto simp: in_set_replicate)
  have line: "chan_of (bst ?w) (Queue (ex_message ex_job)) = [job_bytes ref_ext (ex_message ex_job)]"
    by (simp add: ex_world_facts)
  have len: "length (replicate 3 (HandlerReturned :: (inmem_broker, inmem_results) selected)) =
      unat (MaxRetry (ex_message ex_job) - Retried (ex_message ex_job)) + 1"
    by (simp add: ex_jobs)
  have imm: "immediate t" if "t \<in> set (OnError ex_job)" for t
    using that by (simp add: ex_jobs immediate_def)
  have room: "length (chan_of (bst ?w) q) + length (OnError ex_job) \<le> chan_cap" for q
    by (simp add: ex_world_facts chan_cap_def ex_jobs)
  show ?thesis
    using failing_job_exhausts_retries [OF inv ref_ext_codecs(1) ex_message_sel(1) task fs line len imm room,
        where ord = rev]
    unfolding ex_message_q Let_def same_job_def by (fastforce simp: ex_jobs)
qed

text \<open>
  C3. As long as retries are left, failed attempts leave the job queued exactly once, its
  count of retries raised by the number of attempts, and its status retrying.
\<close>

theorem failing_job_requeued_while_retries_left:
  fixes w :: im_world
  assumes "im_inv w" "codec_ok (job_codec E)"
    and "MsgJob msg = Some j" "map_of ts (Task j) = Some task"
    and "\<And>sel. sel \<in> set sels \<Longrightarrow> fails ir_inv ir_view task j sel"
    and "chan_of (bst w) (Queue msg) = [job_bytes E msg]"
    and "sels \<noteq> []" "length sels \<le> unat (MaxRetry msg - Retried msg)"
  shows "\<exists>now m. let w1 = work_queue (inmem_results_impl ord) inmem_broker_impl E ts (Queue msg) w sels in
    im_inv w1 \<and> same_job m msg \<and> Retried m = Retried msg + of_nat (length sels)
    \<and> GetJob (inmem_results_impl ord) E w1 (ID msg) =
        Ok (m\<lparr>ProcessedAt := now, Status := StatusRetrying\<rparr>)
    \<and> chan_of (bst w1) = (chan_of (bst w))(Queue msg := [job_bytes E m])"
proof -
  obtain w1 m where run: "\<And>rest. work_queue (inmem_results_impl ord) inmem_broker_impl E ts (Queue msg) w (sels @ rest)
      = work_queue (inmem_results_impl ord) inmem_broker_impl E ts (Queue msg) w1 rest"
    and "ir_inv (rst w1)" "ib_inv (bst w1)" "chan_of (bst w1) = (chan_of (bst w))(Queue msg := [job_bytes E m])"
    and "same_job m msg" "Retried m = Retried msg + of_nat (length sels)"
    and "\<exists>n. GetJob (inmem_results_impl ord) E w1 (ID msg) =
        Ok (m\<lparr>ProcessedAt := n, Status := StatusRetrying\<rparr>)"
    using im.retry_turns [of w E msg j ts task sels ord] assms by (auto simp: im_inv_def chan_cap_def)
  then show ?thesis
    using run [of "[]"] by (auto simp: im_inv_def Let_def)
qed

theorem failing_job_requeued_while_retries_left_witness:
  "\<exists>now m. let w1 = work_queue (inmem_results_impl rev) inmem_broker_impl ref_ext
        [(''log'', failing_task)] ''q'' (ex_world ex_job) [HandlerReturned, HandlerReturned] in
    Retried m = 2 \<and> GetJob (inmem_results_impl rev) ref_ext w1 ''a'' =
        Ok (m\<lparr>ProcessedAt := now, Status := StatusRetrying\<rparr>)
    \<and> chan_of (bst w1) ''q'' = [job_bytes ref_ext m]"
proof -
  let ?w = "ex_world ex_job" and ?ts = "[(''log'', failing_task)]"
  have inv: "im_inv ?w" by (simp add: im_inv_def ex_world_facts)
  have task: "map_of ?ts (Task ex_job) = Some failing_task" by (simp add: ex_jobs)
  have fs: "fails ir_inv ir_view failing_task ex_job sel" if "sel \<in> set [HandlerReturned, HandlerReturned]" for sel
    using that failing_task_fails by simp
  have line: "chan_of (bst ?w) (Queue (ex_message ex_job)) = [job_bytes ref_ext (ex_message ex_job)]"
    by (simp add: ex_world_facts)
  have len: "length [HandlerReturned :: (inmem_broker, inmem_results) selected, HandlerReturned] \<le>
      unat (MaxRetry (ex_message ex_job) - Retried (ex_message ex_job))"
    by (simp add: ex_jobs)
  show ?thesis
    using failing_job_requeued_while_retries_left [OF inv ref_ext_codecs(1) ex_message_sel(1) task fs line _ len,
        where ord = rev]
    unfolding ex_message_q Let_def by (fastforce simp: ex_message_q)
qed

section \<open>Jobs that succeed\<close>

text \<open>
  C4. A job that succeeds, with a saved result when it has successors, ends with status
  successful and its identifier among the successful ones; its message is gone; exactly its
  \<open>OnSuccess\<close> jobs have been queued, in order, each with the saved result as the previous
  job's result; and their identifiers are recorded in its own message.
\<close>

theorem successful_job_hands_over:
  fixes w :: im_world
  assumes "im_inv w" "codec_ok (job_codec E)"
    and "MsgJob msg = Some j" "map_of ts (Task j) = Some task"
    and "chan_of (bst w) (Queue msg) = [job_bytes E msg]"
    and "succeeds ir_inv ir_view task j msg sel result"
    and "OnSuccess j \<noteq> [] \<Longrightarrow> result (ir_view (rst w) (ID msg)) = Some prev \<and> plain_id (ID msg)"
    and "\<And>t. t \<in> set (OnSuccess j) \<Longrightarrow> immediate t"
    and "\<And>q. length (chan_of (bst w) q) + length (OnSuccess j) \<le> chan_cap"
  shows "\<exists>now. let w1 = work_queue (inmem_results_impl ord) inmem_broker_impl E ts (Queue msg) w [sel];
              next = messages_from E (uuid_calls w) prev (OnSuccess j) in
    im_inv w1
    \<and> GetJob (inmem_results_impl ord) E w1 (ID msg) =
        Ok (msg\<lparr>ProcessedAt := now, Status := StatusDone,
                 OnSuccessIDs := OnSuccessIDs msg @ map ID next\<rparr>)
    \<and> ID msg \<in> ir_succ (rst w1)
    \<and> (\<forall>q. chan_of (bst w1) q = (if q = Queue msg then [] else chan_of (bst w) q) @ bytes_for E q next)
    \<and> (\<forall>k. k \<noteq> ID msg \<longrightarrow> k \<notin> ID ` set next \<longrightarrow>
         GetJob (inmem_results_impl ord) E w1 k = GetJob (inmem_results_impl ord) E w k)"
proof -
  note ids = map_ID_messages
  then have "ID ` set (messages_from E n prev js) = ID ` set (metas_from E n prev js)" for n js
    by (metis set_map)
  then show ?thesis
    using im.succeeding_turn [of w E msg j ts task sel result prev ord] assms ids
    by (auto simp: im_inv_def Let_def)
qed

lemma saving_task_succeeds:
  "plain_id (ID msg) \<Longrightarrow>
     succeeds ir_inv ir_view saving_task j msg HandlerReturned (\<lambda>_. Some (Payload j))"
  using plain_id_neq [of "ID msg"]
  by (auto simp: succeeds_def attempt_def run_handler_def ex_tasks call_cb_def client_frame_def
      no_cancel_def Save_def im_store.store_Set_eq meta.defs)

lemma silent_task_succeeds: "succeeds ir_inv ir_view silent_task j msg HandlerReturned (\<lambda>res. res)"
  by (simp add: succeeds_def attempt_def run_handler_def ex_tasks call_cb_def client_frame_def no_cancel_def)

lemma ex_message_plain: "plain_id (ID (ex_message ex_first))"
  by (simp add: ex_message_q plain_id_def jobPrefix_def chainPrefix_def groupPrefix_def)

theorem successful_job_hands_over_witness:
  "\<exists>now. let w1 = work_queue (inmem_results_impl rev) inmem_broker_impl ref_ext
        [(''log'', saving_task)] ''q'' (ex_world ex_first) [HandlerReturned] in
    GetJob (inmem_results_impl rev) ref_ext w1 ''a'' =
      Ok ((ex_message ex_first)\<lparr>ProcessedAt := now, Status := StatusDone, OnSuccessIDs := [''b'']\<rparr>)
    \<and> ''a'' \<in> ir_succ (rst w1)
    \<and> chan_of (bst w1) ''q'' =
        [job_bytes ref_ext (job_message_of ex_follow (default_meta ref_ext 0 ''hello'' ex_follow))]"
proof -
  let ?w = "ex_world ex_first" and ?ts = "[(''log'', saving_task)]"
  have inv: "im_inv ?w" by (simp add: im_inv_def ex_world_facts)
  have task: "map_of ?ts (Task ex_first) = Some saving_task" by (simp add: ex_jobs)
  have line: "chan_of (bst ?w) (Queue (ex_message ex_first)) = [job_bytes ref_ext (ex_message ex_first)]"
    by (simp add: ex_world_facts)
  have imm: "immediate t" if "t \<in> set (OnSuccess ex_first)" for t
    using that by (simp add: ex_jobs immediate_def)
  have room: "length (chan_of (bst ?w) q) + length (OnSuccess ex_first) \<le> chan_cap" for q
    by (simp add: ex_world_facts chan_cap_def ex_jobs)
  have prev: "Some (Payload ex_first) = Some (Payload ex_first) \<and> plain_id (ID (ex_message ex_first))"
    using ex_message_plain by simp
  have one: "OnSuccess ex_first = [ex_follow]" "OnSuccessIDs (ex_message ex_first) = []"
      "ID (default_meta ref_ext n p ex_follow) = ''b''" "OptQueue (Opts ex_follow) = ''q''"
      "Payload ex_first = ''hello''" "uuid_calls ?w = 0" for n p
    by (simp_all add: ex_jobs ex_message_def default_meta_def ex_world_def)
  show ?thesis
    using successful_job_hands_over [OF inv ref_ext_codecs(1) ex_message_sel(1) task line
        saving_task_succeeds [OF ex_message_plain] prev imm room, where ord = rev]
    unfolding ex_message_q Let_def by (force simp: one)
qed

text \<open>
  C5. A job with successors that succeeds without saving a result stops there: fetching the
  result to hand on fails, so no successor is queued, the message is consumed, and the
  job's status stays processing. (The comment on \<open>PrevJobResult\<close> and the README say the
  successor then gets a nil result.)
\<close>

theorem successor_lost_without_result:
  fixes w :: im_world
  assumes "im_inv w" "codec_ok (job_codec E)"
    and "MsgJob msg = Some j" "map_of ts (Task j) = Some task"
    and "chan_of (bst w) q = job_bytes E msg # rest"
    and "succeeds ir_inv ir_view task j msg sel (\<lambda>res. res)"
    and "OnSuccess j \<noteq> []" "plain_id (ID msg)" "ir_view (rst w) (ID msg) = None"
  shows "\<exists>now. let w1 = work_queue (inmem_results_impl ord) inmem_broker_impl E ts q w [sel] in
    im_inv w1 \<and> chan_of (bst w1) = (chan_of (bst w))(q := rest)
    \<and> GetJob (inmem_results_impl ord) E w1 (ID msg) =
        Ok (msg\<lparr>ProcessedAt := now, Status := StatusProcessing\<rparr>)"
proof -
  obtain t js where "OnSuccess j = t # js" using assms(7) by (cases "OnSuccess j") auto
  then obtain w1 n where "ir_inv (rst w1)" "ib_inv (bst w1)" "chan_of (bst w1) = (chan_of (bst w))(q := rest)"
    and "GetJob (inmem_results_impl ord) E w1 (ID msg) =
        Ok (msg\<lparr>ProcessedAt := n, Status := StatusProcessing\<rparr>)"
    and turn: "\<And>sels. work_queue (inmem_results_impl ord) inmem_broker_impl E ts q w (sel # sels)
      = work_queue (inmem_results_impl ord) inmem_broker_impl E ts q w1 sels"
    using im.succeeding_turn_no_result [of w E msg j ts task q rest sel t js ord] assms
    unfolding im_inv_def by blast
  then show ?thesis
    unfolding Let_def im_inv_def turn by auto
qed

theorem successor_lost_without_result_witness:
  "\<exists>now. let w1 = work_queue (inmem_results_impl rev) inmem_broker_impl ref_ext
        [(''log'', silent_task)] ''q'' (ex_world ex_first) [HandlerReturned] in
    chan_of (bst w1) ''q'' = []
    \<and> GetJob (inmem_results_impl rev) ref_ext w1 ''a'' =
        Ok ((ex_message ex_first)\<lparr>ProcessedAt := now, Status := StatusProcessing\<rparr>)"
proof -
  let ?w = "ex_world ex_first" and ?ts = "[(''log'', silent_task)]"
  have inv: "im_inv ?w" by (simp add: im_inv_def ex_world_facts)
  have task: "map_of ?ts (Task ex_first) = Some silent_task" by (simp add: ex_jobs)
  have line: "chan_of (bst ?w) ''q'' = [job_bytes ref_ext (ex_message ex_first)]"
    by (simp add: ex_world_facts ex_jobs)
  have succ: "OnSuccess ex_first \<noteq> []" by (simp add: ex_jobs)
  have none: "ir_view (rst ?w) (ID (ex_message ex_first)) = None"
    using im.enqueued_facts(3) [where w = im_New and m = "default_meta ref_ext 0 [] ex_first"
        and t = ex_first and E = ref_ext, OF im_New_facts] plain_id_neq [OF ex_message_plain]
    by (simp add: ex_world_def ir_view_def ir_New_def)
  show ?thesis
    using successor_lost_without_result [OF inv ref_ext_codecs(1) ex_message_sel(1) task line
        silent_task_succeeds succ ex_message_plain none, where ord = rev]
    unfolding ex_message_q Let_def by fastforce
qed

text \<open>
  C6. When the job's context is cancelled (the server shuts down) before the handler has
  returned, whatever part of its work the handler had done, the attempt is handled like a
  successful one: no retry, no \<open>OnError\<close> job, the success callback runs. If the job has no
  successors, or a result has been saved under its identifier, it is stored as successful
  and listed among the successful ones, and its \<open>OnSuccess\<close> jobs are queued with that result.
  If it has successors and no result has been saved, nothing is stored or queued for it, and
  it is not listed.
\<close>

theorem cancelled_job_marked_successful:
  fixes w :: im_world
  assumes "codec_ok (job_codec E)" "MsgJob msg = Some j"
    and c: "c = \<lparr>Meta = meta.truncate msg\<rparr>"
    and w2: "w2 = call_cb (SuccessCB (TaskOpts task)) c (partial (call_cb (ProcessingCB (TaskOpts task)) c w))"
    and "im_inv w2" "OnSuccess j \<noteq> [] \<Longrightarrow> plain_id (ID msg)"
    and "\<And>t. t \<in> set (OnSuccess j) \<Longrightarrow> immediate t"
    and "\<And>q. length (chan_of (bst w2) q) + length (OnSuccess j) \<le> chan_cap"
  shows "\<exists>w' out. execJob (inmem_results_impl ord) inmem_broker_impl E w msg task
      (JctxDone ContextCanceled partial) = (w', out) \<and> im_inv w'
    \<and> ir_fail (rst w') = ir_fail (rst w2)
    \<and> (if OnSuccess j \<noteq> [] \<and> ir_view (rst w2) (ID msg) = None
       then out = Err ErrNotFound \<and> rst w' = rst w2 \<and> bst w' = bst w2
       else \<exists>now. let next = messages_from E (uuid_calls w2)
                        (the (ir_view (rst w2) (ID msg))) (OnSuccess j) in
         out = Ok ()
         \<and> GetJob (inmem_results_impl ord) E w' (ID msg) =
             Ok (msg\<lparr>OnSuccessIDs := OnSuccessIDs msg @ map ID next,
                      ProcessedAt := now, Status := StatusDone\<rparr>)
         \<and> ir_succ (rst w') = insert (ID msg) (ir_succ (rst w2))
         \<and> (\<forall>q. chan_of (bst w') q = chan_of (bst w2) q @ bytes_for E q next))"
proof -
  let ?R = "inmem_results_impl ord"
  let ?w1 = "partial (call_cb (ProcessingCB (TaskOpts task)) c w)"
  have inv: "ir_inv (rst w2)" "ib_inv (bst w2)" using assms by (simp_all add: im_inv_def)
  have att: "attempt task j msg w (JctxDone ContextCanceled partial) = (?w1, None)"
    by (simp add: attempt_def run_handler_def no_cancel_def c)
  show ?thesis
  proof (cases "OnSuccess j \<noteq> [] \<and> ir_view (rst w2) (ID msg) = None")
    case True
    then obtain t ts where "OnSuccess j = t # ts" by (cases "OnSuccess j") auto
    then have "execJob ?R inmem_broker_impl E w msg task (JctxDone ContextCanceled partial) =
        (w2\<lparr>uuid_calls := next_uuids (uuid_calls w2) t\<rparr>, Err ErrNotFound)"
      using True im.execJob_no_result [OF assms(2) att [unfolded c] w2 [unfolded c]] inv by (simp add: c)
    then show ?thesis using True assms(5) by (simp add: im_inv_def)
  next
    case False
    define prev where "prev = the (ir_view (rst w2) (ID msg))"
    define w3 where "w3 = enqueued_list ?R inmem_broker_impl E prev w2 (OnSuccess j)"
    let ?w3 = "w3\<lparr>rst := mark_done ?R (rst w3) (ID msg)\<rparr>"
    let ?next = "messages_from E (uuid_calls w2) prev (OnSuccess j)"
    let ?msg = "msg\<lparr>OnSuccessIDs := OnSuccessIDs msg @ map ID ?next\<rparr>"
    have "execJob ?R inmem_broker_impl E w msg task (JctxDone ContextCanceled partial) =
        (with_status ?R E ?w3 StatusDone ?msg, Ok ())"
      unfolding map_ID_messages using False assms(6)
      by (intro im.execJob_success [OF assms(2) att [unfolded c] w2 [unfolded c] w3_def inv assms(1,7,8)])
         (auto simp: prev_def)
    moreover note facts = im.enqueued_list_facts [OF inv assms(8), of ord E prev, folded w3_def]
    ultimately show ?thesis
      using False facts im_store.GetJob_with_status [where w = ?w3 and t = ?msg and E = E and ord = ord] assms(1)
      by (auto simp: im_inv_def prev_def [symmetric] Let_def stamp_def)
  qed
qed



text \<open>The handler saves its payload before the context is cancelled, or saves nothing.\<close>

theorem cancelled_job_marked_successful_witness:
  "\<exists>w1 w' now e.
    execJob (inmem_results_impl rev) inmem_broker_impl ref_ext im_New (ex_message ex_first) failing_task
      (JctxDone ContextCanceled (\<lambda>w. w)) = (w1, Err e) \<and> ir_succ (rst w1) = {}
    \<and> execJob (inmem_results_impl rev) inmem_broker_impl ref_ext im_New (ex_message ex_first) failing_task
      (JctxDone ContextCanceled (\<lambda>w. fst (store_Set (inmem_results_impl rev) w ''a'' ''hello''))) = (w', Ok ())
    \<and> GetJob (inmem_results_impl rev) ref_ext w' ''a'' =
        Ok ((ex_message ex_first)\<lparr>OnSuccessIDs := [''b''], ProcessedAt := now, Status := StatusDone\<rparr>)
    \<and> ir_succ (rst w') = {''a''}
    \<and> chan_of (bst w') ''q'' =
        [job_bytes ref_ext (job_message_of ex_follow (default_meta ref_ext 0 ''hello'' ex_follow))]"
proof -
  let ?saved = "fst (store_Set (inmem_results_impl rev) im_New ''a'' ''hello'')"
  have saved: "?saved = im_New\<lparr>rst := put (inmem_results_impl rev) (rst im_New) ''a'' ''hello''\<rparr>"
    using im_store.store_Set_eq [where w = im_New and k = "''a''" and b = "''hello''" and ord = rev]
    by (simp add: ir_inv_New)
  have plain: "plain_id (ID (ex_message ex_first))" by (rule ex_message_plain)
  have imm: "immediate t" if "t \<in> set (OnSuccess ex_first)" for t
    using that by (simp add: ex_jobs immediate_def)
  have room: "length (chan_of (bst w) q) + length (OnSuccess ex_first) \<le> chan_cap"
    if "bst w = ib_New" for w :: im_world and q
    using that by (simp add: chan_cap_def ex_jobs)
  have cb: "call_cb (SuccessCB (TaskOpts failing_task)) c (f (call_cb (ProcessingCB (TaskOpts failing_task)) c im_New))
      = f im_New" for c f
    by (simp add: call_cb_def ex_tasks)
  have inv: "im_inv ?saved" by (simp add: saved im_inv_def ib_inv_New ir_inv_New)
  have views: "ir_view (rst ?saved) ''a'' = Some ''hello''" "ir_view ir_New ''a'' = None"
      "ir_succ (rst ?saved) = {}" "ir_succ ir_New = {}"
    using im_store.put_facts [where r = ir_New and k = "''a''" and b = "''hello''" and ord = rev]
    by (simp_all add: saved ir_inv_New) (simp_all add: ir_view_def ir_succ_def ir_New_def)
  have one: "OnSuccess ex_first = [ex_follow]" "OnSuccessIDs (ex_message ex_first) = []"
      "ID (default_meta ref_ext n p ex_follow) = ''b''" "OptQueue (Opts ex_follow) = ''q''" for n p
    by (simp_all add: ex_jobs ex_message_def default_meta_def)
  have br: "bst ?saved = ib_New" "uuid_calls ?saved = 0" by (simp_all add: saved)
  note att = cancelled_job_marked_successful [where w = im_New and ord = rev and task = failing_task,
      OF ref_ext_codecs(1) ex_message_sel(1) refl _ _ plain imm]
  have saves: "\<exists>w' now. execJob (inmem_results_impl rev) inmem_broker_impl ref_ext im_New (ex_message ex_first)
      failing_task (JctxDone ContextCanceled (\<lambda>w. fst (store_Set (inmem_results_impl rev) w ''a'' ''hello'')))
        = (w', Ok ())
    \<and> GetJob (inmem_results_impl rev) ref_ext w' ''a'' =
        Ok ((ex_message ex_first)\<lparr>OnSuccessIDs := [''b''], ProcessedAt := now, Status := StatusDone\<rparr>)
    \<and> ir_succ (rst w') = {''a''}
    \<and> chan_of (bst w') ''q'' =
        [job_bytes ref_ext (job_message_of ex_follow (default_meta ref_ext 0 ''hello'' ex_follow))]"
    using att [where partial = "\<lambda>w. fst (store_Set (inmem_results_impl rev) w ''a'' ''hello'')" and ?w2.0 = ?saved,
      OF cb [symmetric] inv _ room [OF br(1)], unfolded ex_message_q]
    apply (simp add: views br one)
    apply (auto simp: Let_def) []
    done
  have "\<exists>w1 e. execJob (inmem_results_impl rev) inmem_broker_impl ref_ext im_New (ex_message ex_first)
      failing_task (JctxDone ContextCanceled (\<lambda>w. w)) = (w1, Err e) \<and> ir_succ (rst w1) = {}"
    using att [where partial = "\<lambda>w. w" and ?w2.0 = im_New, OF cb [symmetric] im_inv_New _ room [OF chan_of_New(2)],
      unfolded ex_message_q] by (auto simp: views one)
  with saves show ?thesis by metis
qed

end
