(* ===== verification/Chain_Properties.thy ===== *)
theory Chain_Properties
  imports Job_Properties
begin

text \<open>
  The properties of chains over the in-process implementations: building a chain, its run
  from the first job to the last, what \<open>GetChain\<close> reports, and when it does not return.
\<close>

section \<open>An example in the store\<close>

text \<open>
  Two jobs of a chain, the first finished and the second running, and the message of the
  chain, in the store.
\<close>

definition ex_done :: job_message where
  "ex_done = (ex_message ex_job)\<lparr>Status := StatusDone, OnSuccessIDs := [''b'']\<rparr>"

definition ex_running :: job_message where
  "ex_running = (ex_message ex_follow)\<lparr>Status := StatusProcessing\<rparr>"

definition ex_loop :: job_message where
  "ex_loop = (ex_message ex_job)\<lparr>Status := StatusDone, OnSuccessIDs := [''a'']\<rparr>"

definition ex_chain_message :: chain_message where
  "ex_chain_message = \<lparr>ChainID = ''c'', ChainStatus = StatusProcessing, JobID = ''a'', PrevJobs = []\<rparr>"

definition ex_chain_world :: "job_message list \<Rightarrow> im_world" where
  "ex_chain_world ms =
     chain_stored (inmem_results_impl rev) ref_ext
       (fold (\<lambda>m w. stored (inmem_results_impl rev) ref_ext w m) ms im_New) ex_chain_message"

lemma ex_ids:
  "ID ex_done = ''a''" "ID ex_running = ''b''" "ID ex_loop = ''a''" "Status ex_done = StatusDone"
  "Status ex_loop = StatusDone" "Status ex_running = StatusProcessing"
  "OnSuccessIDs ex_done = [''b'']" "OnSuccessIDs ex_loop = [''a'']"
  by (simp_all add: ex_done_def ex_running_def ex_loop_def ex_message_def default_meta_def ex_jobs)

lemma ex_chain_world_inv [simp]: "im_inv (ex_chain_world ms)"
  using fold_stored_inv [OF im_inv_New, where ms = ms and ord = rev and E = ref_ext]
  by (simp add: ex_chain_world_def im_inv_def im.chain_message_eq)

lemma ex_chain_world_message [simp]:
  "getChainMessage (inmem_results_impl rev) ref_ext (ex_chain_world ms) ''c'' = Ok ex_chain_message"
proof -
  let ?w = "fold (\<lambda>m w. stored (inmem_results_impl rev) ref_ext w m) ms im_New"
  have "ir_inv (rst ?w)"
    using fold_stored_inv [OF im_inv_New, where ms = ms and ord = rev and E = ref_ext] by (simp add: im_inv_def)
  then show ?thesis
    using im.chain_message_eq(4) [where w = ?w and E = ref_ext and ord = rev and c = ex_chain_message]
    by (simp add: ex_chain_world_def ex_chain_message_def)
qed

lemma GetJob_ex_chain_world:
  "GetJob (inmem_results_impl rev) ref_ext (ex_chain_world [m1, m2]) k =
     (if k = ID m2 then Ok m2 else if k = ID m1 then Ok m1
      else GetJob (inmem_results_impl rev) ref_ext im_New k)"
proof -
  let ?u = "stored (inmem_results_impl rev) ref_ext im_New m1"
  have inv: "im_inv ?u" "im_inv (stored (inmem_results_impl rev) ref_ext ?u m2)"
    by (simp_all add: stored_inv)
  then have "ir_inv (rst (stored (inmem_results_impl rev) ref_ext ?u m2))" by (simp add: im_inv_def)
  then show ?thesis
    by (simp add: ex_chain_world_def im.GetJob_chain_stored GetJob_stored [OF inv(1)]
        GetJob_stored [OF im_inv_New])
qed

lemma ex_path:
  "done_path (inmem_results_impl rev) ref_ext (ex_chain_world [ex_done, ex_running]) ''a'' [''a''] ex_running"
  by (simp add: done_path_Cons done_path_Nil GetJob_ex_chain_world ex_ids)

section \<open>Building a chain\<close>

text \<open>
  C7. \<open>NewChain\<close> refuses fewer than two jobs; otherwise it keeps the number of jobs and
  gives each but the last one further successor, behind those it has: the next job of the
  chain, as linked itself. The last job is unchanged.
\<close>

theorem NewChain_links:
  "(length js < 2 \<longrightarrow> NewChain js opts = Err (ErrorString ''minimum 2 tasks required to form chain''))
   \<and> (2 \<le> length js \<longrightarrow> (\<exists>c. NewChain js opts = Ok c \<and> ChainOpts c = opts
        \<and> length (ChainJobs c) = length js \<and> last (ChainJobs c) = last js
        \<and> (\<forall>i. Suc i < length js \<longrightarrow> ChainJobs c ! i =
              with_OnSuccess (OnSuccess (js ! i) @ [ChainJobs c ! Suc i]) (js ! i))))"
proof -
  have last: "last (link_jobs js) = last js" if "2 \<le> length js"
  proof -
    have "length (link_jobs js) \<noteq> 0" "js \<noteq> []" using that by (auto simp del: length_0_conv)
    then have "link_jobs js \<noteq> []" "js \<noteq> []" by (metis list.size(3), blast)
    then show ?thesis using nth_link_jobs [of "length js - 1" js] by (simp add: last_conv_nth)
  qed
  then show ?thesis
    by (auto simp: NewChain_def nth_link_jobs last)
qed

theorem NewChain_links_witness:
  "NewChain [ex_job] \<lparr>ChainOptID = []\<rparr> = Err (ErrorString ''minimum 2 tasks required to form chain'')
   \<and> (\<exists>c. NewChain [ex_job, ex_follow] \<lparr>ChainOptID = []\<rparr> = Ok c
        \<and> length (ChainJobs c) = 2 \<and> last (ChainJobs c) = ex_follow
        \<and> ChainJobs c ! 0 = with_OnSuccess [ChainJobs c ! 1] ex_job)"
proof -
  have "OnSuccess ex_job = []" by (simp add: ex_jobs)
  then show ?thesis
    using NewChain_links [of "[ex_job]" "\<lparr>ChainOptID = []\<rparr>"]
      NewChain_links [of "[ex_job, ex_follow]" "\<lparr>ChainOptID = []\<rparr>"] by auto
qed

section \<open>The status of a chain\<close>

text \<open>
  C8. \<open>GetChain\<close>, when the chain's last reported status is not final: from the chain's
  first job it follows the first successor of each finished job to the first job that is
  not finished or has no successor. That job's status, if final, becomes the chain's;
  otherwise the chain is processing. The jobs passed (and the last, if its status is
  final) are appended to the reported previous jobs; the new message is stored, and no
  job's message changes.
\<close>

theorem GetChain_follows_jobs:
  fixes w :: im_world
  assumes "im_inv w" "codec_ok (chain_codec E)"
    and "getChainMessage (inmem_results_impl ord) E w cid = Ok c"
    and "ChainStatus c \<notin> {StatusDone, StatusFailed}"
    and "done_path (inmem_results_impl ord) E w (JobID c) ids j" "chain_stop j"
    and "Status j \<in> {StatusStarted, StatusProcessing, StatusRetrying, StatusDone, StatusFailed}"
  shows "\<exists>w' c'. GetChain (inmem_results_impl ord) E w cid = (w', Ok c') \<and> im_inv w'
    \<and> ChainStatus c' = (if Status j \<in> {StatusDone, StatusFailed} then Status j else StatusProcessing)
    \<and> PrevJobs c' = PrevJobs c @ ids @ (if Status j \<in> {StatusDone, StatusFailed} then [ID j] else [])
    \<and> ChainID c' = ChainID c \<and> JobID c' = JobID c
    \<and> getChainMessage (inmem_results_impl ord) E w' (ChainID c) = Ok c'
    \<and> (\<forall>k. GetJob (inmem_results_impl ord) E w' k = GetJob (inmem_results_impl ord) E w k)"
proof -
  let ?c = "chain_verdict (c\<lparr>PrevJobs := PrevJobs c @ ids\<rparr>) j"
  let ?w = "chain_stored (inmem_results_impl ord) E w ?c"
  have inv: "ir_inv (rst w)" using assms(1) by (simp add: im_inv_def)
  have "GetChain (inmem_results_impl ord) E w cid = (?w, Ok ?c)"
    using assms inv by (intro im.GetChain_eq) auto
  then show ?thesis
    using assms inv im.chain_message_eq [OF inv assms(2), of ord ?c]
      im.GetJob_chain_stored [OF inv assms(2), of ord ?c]
    by (intro exI [of _ ?w] exI [of _ ?c]) (auto simp: im_inv_def chain_verdict_def)
qed

theorem GetChain_follows_jobs_witness:
  "\<exists>w' c'. GetChain (inmem_results_impl rev) ref_ext (ex_chain_world [ex_done, ex_running]) ''c'' = (w', Ok c')
    \<and> ChainStatus c' = StatusProcessing \<and> PrevJobs c' = [''a'']"
  using GetChain_follows_jobs [where w = "ex_chain_world [ex_done, ex_running]" and E = ref_ext and ord = rev
      and cid = "''c''" and c = ex_chain_message and ids = "[''a'']" and j = ex_running] ex_path
  by (auto simp: ex_chain_message_def [THEN arg_cong [where f = ChainStatus]]
      ex_chain_message_def [THEN arg_cong [where f = JobID]]
      ex_chain_message_def [THEN arg_cong [where f = PrevJobs]] ex_ids chain_stop_def)

text \<open>
  C9. On a fixed state of the store, \<open>GetChain\<close> returns for a chain that is not final
  exactly when the walk through finished jobs comes to a job that is not finished, has no
  successor, or whose successor cannot be read.
\<close>

theorem GetChain_terminates_iff:
  fixes w :: im_world
  assumes "im_inv w" "codec_ok (chain_codec E)"
    and "getChainMessage (inmem_results_impl ord) E w cid = Ok c"
    and "ChainStatus c \<notin> {StatusDone, StatusFailed}"
    and "GetJob (inmem_results_impl ord) E w (JobID c) = Ok m"
  shows "snd (GetChain (inmem_results_impl ord) E w cid) \<noteq> Diverge \<longleftrightarrow>
    (\<exists>ids j. done_path (inmem_results_impl ord) E w (JobID c) ids j
       \<and> walk_ends (inmem_results_impl ord) E w j)"
  using assms by (intro im.GetChain_returns_iff) (auto simp: im_inv_def)

theorem GetChain_terminates_iff_witness:
  "snd (GetChain (inmem_results_impl rev) ref_ext (ex_chain_world [ex_done, ex_running]) ''c'') \<noteq> Diverge
   \<and> snd (GetChain (inmem_results_impl rev) ref_ext (ex_chain_world [ex_loop, ex_running]) ''c'') = Diverge"
proof -
  let ?R = "inmem_results_impl rev"
  have sel: "ChainStatus ex_chain_message \<notin> {StatusDone, StatusFailed}" "JobID ex_chain_message = ''a''"
    by (simp_all add: ex_chain_message_def)
  have ab: "GetJob ?R ref_ext (ex_chain_world [ex_done, ex_running]) (JobID ex_chain_message) = Ok ex_done"
    "GetJob ?R ref_ext (ex_chain_world [ex_loop, ex_running]) (JobID ex_chain_message) = Ok ex_loop"
    by (simp_all add: GetJob_ex_chain_world ex_ids sel)
  have "walk_ends ?R ref_ext w ex_running" for w :: im_world
    by (simp add: walk_ends_def chain_stop_def ex_ids)
  moreover have "done_cycle ?R ref_ext (ex_chain_world [ex_loop, ex_running]) {''a''}"
    by (simp add: done_cycle_def GetJob_ex_chain_world ex_ids)
  then have "\<not> (\<exists>ids j. done_path ?R ref_ext (ex_chain_world [ex_loop, ex_running]) ''a'' ids j
      \<and> walk_ends ?R ref_ext (ex_chain_world [ex_loop, ex_running]) j)"
    using done_cycle_path by fastforce
  ultimately show ?thesis
    using ex_path GetChain_terminates_iff [OF ex_chain_world_inv ref_ext_codecs(2) ex_chain_world_message sel(1) ab(1)]
      GetChain_terminates_iff [OF ex_chain_world_inv ref_ext_codecs(2) ex_chain_world_message sel(1) ab(2)]
    by (auto simp: sel)
qed

text \<open>
  C10. Each call of \<open>GetChain\<close> while a chain is processing starts again at the chain's first
  job and appends the finished jobs to those already reported: after \<open>n\<close> calls on an
  otherwise unchanged store each of them is listed \<open>n\<close> times more.
\<close>

theorem GetChain_polls_repeat_jobs:
  fixes w :: im_world
  assumes "im_inv w" "codec_ok (chain_codec E)"
    and "getChainMessage (inmem_results_impl ord) E w (ChainID c) = Ok c"
    and "ChainStatus c = StatusProcessing"
    and "done_path (inmem_results_impl ord) E w (JobID c) ids j"
    and "Status j \<in> {StatusStarted, StatusProcessing, StatusRetrying}"
  shows "getChainMessage (inmem_results_impl ord) E
      (((\<lambda>w. fst (GetChain (inmem_results_impl ord) E w (ChainID c))) ^^ n) w) (ChainID c)
    = Ok (c\<lparr>PrevJobs := PrevJobs c @ concat (replicate n ids)\<rparr>)"
proof -
  let ?R = "inmem_results_impl ord" and ?poll = "\<lambda>w. fst (GetChain (inmem_results_impl ord) E w (ChainID c))"
  have "im_inv ((?poll ^^ n) w) \<and> (\<forall>k. GetJob ?R E ((?poll ^^ n) w) k = GetJob ?R E w k)
    \<and> getChainMessage ?R E ((?poll ^^ n) w) (ChainID c) = Ok (c\<lparr>PrevJobs := PrevJobs c @ concat (replicate n ids)\<rparr>)"
  proof (induction n)
    case 0
    then show ?case using assms by simp
  next
    case (Suc n)
    let ?w = "(?poll ^^ n) w" and ?c = "c\<lparr>PrevJobs := PrevJobs c @ concat (replicate n ids)\<rparr>"
    let ?d = "chain_verdict (?c\<lparr>PrevJobs := PrevJobs ?c @ ids\<rparr>) j"
    have inv: "ir_inv (rst ?w)" using Suc by (simp add: im_inv_def)
    have path: "done_path ?R E ?w (JobID ?c) ids j"
      using Suc by (auto intro: done_path_cong [OF assms(5)])
    have comm: "concat (replicate n ids) @ ids = ids @ concat (replicate n ids)"
      by (induction n) simp_all
    have d: "?d = c\<lparr>PrevJobs := PrevJobs c @ concat (replicate (Suc n) ids)\<rparr>"
      using assms(4,6) comm by (auto simp: chain_verdict_def)
    have msg: "getChainMessage ?R E ?w (ChainID c) = Ok ?c" using Suc by simp
    have "GetChain ?R E ?w (ChainID c) = (chain_stored ?R E ?w ?d, Ok ?d)"
      using assms(4,6) by (intro im.GetChain_eq [OF inv assms(2) msg _ _ path]) (auto simp: chain_stop_def)
    then show ?case
      using Suc im.chain_message_eq [OF inv assms(2), of ord ?d]
        im.GetJob_chain_stored [OF inv assms(2), of ord ?d] unfolding d by (simp add: im_inv_def)
  qed
  then show ?thesis by blast
qed

theorem GetChain_polls_repeat_jobs_witness:
  "\<exists>c. getChainMessage (inmem_results_impl rev) ref_ext
      (((\<lambda>w. fst (GetChain (inmem_results_impl rev) ref_ext w ''c'')) ^^ 3)
         (ex_chain_world [ex_done, ex_running])) ''c'' = Ok c
    \<and> PrevJobs c = [''a'', ''a'', ''a'']"
proof -
  have sel: "ChainID ex_chain_message = ''c''" "ChainStatus ex_chain_message = StatusProcessing"
    "JobID ex_chain_message = ''a''" "PrevJobs ex_chain_message = []"
    by (simp_all add: ex_chain_message_def)
  show ?thesis
    using GetChain_polls_repeat_jobs [where w = "ex_chain_world [ex_done, ex_running]" and E = ref_ext
        and ord = rev and c = ex_chain_message and ids = "[''a'']" and j = ex_running and n = 3] ex_path
    by (simp add: sel ex_ids numeral_3_eq_3)
qed

section \<open>The run of a whole chain\<close>

text \<open>
  C11. A chain of two or more jobs with distinct identifiers, all of one empty queue and
  each succeeding with a saved result, is completed by as many turns of the queue's worker
  as it has jobs: then \<open>GetChain\<close> reports the chain successful, with the identifiers of all
  its jobs, in order.
\<close>

theorem chain_runs_to_completion:
  fixes w :: im_world
  assumes "im_inv w" "codec_ok (job_codec E)" "codec_ok (chain_codec E)"
    and "NewChain js opts = Ok c" "chain_tasks_save plain_id ir_inv ir_view ts js sel"
    and "\<And>t. t \<in> set js \<Longrightarrow> immediate t \<and> OnSuccess t = [] \<and> OptQueue (Opts t) = q"
    and "chan_of (bst w) q = []" "\<And>p. length (chan_of (bst w) p) < chan_cap"
    and "ids = ids_from E (chain_uuids (uuid_calls w) c) js"
    and "distinct ids" "\<And>i. i \<in> set ids \<Longrightarrow> plain_id i"
  shows "\<exists>w1 cid w2 m. EnqueueChain (inmem_results_impl ord) inmem_broker_impl E w c = (w1, Ok cid)
    \<and> GetChain (inmem_results_impl ord) E
        (work_queue (inmem_results_impl ord) inmem_broker_impl E ts q w1 (map sel js)) cid = (w2, Ok m)
    \<and> ChainStatus m = StatusDone \<and> PrevJobs m = ids"
proof -
  have cap: "1 < chan_cap" by (simp add: chan_cap_def)
  have inv: "ir_inv (rst w)" "ib_inv (bst w)" using assms(1) by (simp_all add: im_inv_def)
  show ?thesis
    using im.chain_completes [OF inv assms(2-8) cap assms(9-11)] by blast
qed

lemma ex_chain_tasks:
  "chain_tasks_save plain_id ir_inv ir_view [(''log'', saving_task)] [ex_job, ex_follow] (\<lambda>_. HandlerReturned)"
  using saving_task_succeeds by (auto simp: chain_tasks_save_def ex_jobs)

theorem chain_runs_to_completion_witness:
  "\<exists>c w1 cid w2 m. NewChain [ex_job, ex_follow] \<lparr>ChainOptID = []\<rparr> = Ok c
    \<and> EnqueueChain (inmem_results_impl rev) inmem_broker_impl ref_ext im_New c = (w1, Ok cid)
    \<and> GetChain (inmem_results_impl rev) ref_ext (work_queue (inmem_results_impl rev) inmem_broker_impl
        ref_ext [(''log'', saving_task)] ''q'' w1 [HandlerReturned, HandlerReturned]) cid = (w2, Ok m)
    \<and> ChainStatus m = StatusDone \<and> PrevJobs m = [''a'', ''b'']"
proof -
  obtain c where c: "NewChain [ex_job, ex_follow] \<lparr>ChainOptID = []\<rparr> = Ok c"
    by (simp add: NewChain_def)
  have ids: "[''a'', ''b''] = ids_from ref_ext n [ex_job, ex_follow]" for n
    by (simp add: job_id_def next_uuids_def ex_jobs)
  have simple: "immediate t \<and> OnSuccess t = [] \<and> OptQueue (Opts t) = ''q''" if "t \<in> set [ex_job, ex_follow]" for t
    using that by (auto simp: immediate_def ex_jobs)
  have plain: "plain_id i" if "i \<in> set [''a'', ''b'']" for i
    using that by (auto simp: plain_id_def jobPrefix_def chainPrefix_def groupPrefix_def)
  have empty: "chan_of (bst im_New) ''q'' = []" by simp
  show ?thesis
    using chain_runs_to_completion [OF im_inv_New ref_ext_codecs(1,2) c ex_chain_tasks simple empty
        im_New_facts(3) ids _ plain, where ord = rev] c by simp
qed

text \<open>
  C12. A chain of which two neighbouring jobs, anywhere in it, carry the same client-chosen
  identifier, the jobs up to the first of the two having distinct identifiers: after the
  first of the two has finished, while the second is still queued, \<open>GetChain\<close> does not
  return (the stored message of that identifier is done and lists itself as its successor).
\<close>

theorem repeated_id_holds_GetChain:
  fixes w :: im_world
  assumes "im_inv w" "codec_ok (job_codec E)" "codec_ok (chain_codec E)"
    and "js = pre @ t # u # us" "NewChain js opts = Ok c" "chain_tasks_save plain_id ir_inv ir_view ts js sel"
    and "\<And>v. v \<in> set js \<Longrightarrow> immediate v \<and> OnSuccess v = [] \<and> OptQueue (Opts v) = q"
    and "chan_of (bst w) q = []" "\<And>p. length (chan_of (bst w) p) < chan_cap"
    and "OptID (Opts t) = i" "OptID (Opts u) = i" "i \<noteq> []"
    and "ids = ids_from E (chain_uuids (uuid_calls w) c) (pre @ [t])"
    and "distinct ids" "\<And>i. i \<in> set ids \<Longrightarrow> plain_id i"
  shows "\<exists>w1 cid. EnqueueChain (inmem_results_impl ord) inmem_broker_impl E w c = (w1, Ok cid)
    \<and> snd (GetChain (inmem_results_impl ord) E
        (work_queue (inmem_results_impl ord) inmem_broker_impl E ts q w1 (map sel (pre @ [t]))) cid) = Diverge"
proof -
  have cap: "1 < chan_cap" by (simp add: chan_cap_def)
  have inv: "ir_inv (rst w)" "ib_inv (bst w)" using assms(1) by (simp_all add: im_inv_def)
  have c: "ChainJobs c = link_jobs js" using assms(5) by (auto simp: NewChain_def split: if_splits)
  show ?thesis
    using im.repeated_id_cycle [OF inv assms(2,3) c assms(4,6-9) cap assms(10-15)] by blast
qed

text \<open>The chain of \<open>b\<close>, \<open>a\<close> and \<open>a\<close> again, after two turns.\<close>

theorem repeated_id_holds_GetChain_witness:
  "\<exists>c w1 cid. NewChain [ex_follow, ex_job, ex_job] \<lparr>ChainOptID = []\<rparr> = Ok c
    \<and> EnqueueChain (inmem_results_impl rev) inmem_broker_impl ref_ext im_New c = (w1, Ok cid)
    \<and> snd (GetChain (inmem_results_impl rev) ref_ext (work_queue (inmem_results_impl rev) inmem_broker_impl
        ref_ext [(''log'', saving_task)] ''q'' w1 [HandlerReturned, HandlerReturned]) cid) = Diverge"
proof -
  obtain c where c: "NewChain [ex_follow, ex_job, ex_job] \<lparr>ChainOptID = []\<rparr> = Ok c"
    by (simp add: NewChain_def)
  have js: "[ex_follow, ex_job, ex_job] = [ex_follow] @ ex_job # ex_job # []" by simp
  have id: "OptID (Opts ex_job) = ''a''" "''a'' \<noteq> ([] :: string)" by (simp_all add: ex_jobs)
  have ids: "[''b'', ''a''] = ids_from ref_ext n ([ex_follow] @ [ex_job])" for n
    by (simp add: job_id_def next_uuids_def ex_jobs)
  have simple: "immediate t \<and> OnSuccess t = [] \<and> OptQueue (Opts t) = ''q''"
    if "t \<in> set [ex_follow, ex_job, ex_job]" for t
    using that by (auto simp: immediate_def ex_jobs)
  have plain: "plain_id i" if "i \<in> set [''b'', ''a'']" for i
    using that by (auto simp: plain_id_def jobPrefix_def chainPrefix_def groupPrefix_def)
  have empty: "chan_of (bst im_New) ''q'' = []" by simp
  have tasks: "chain_tasks_save plain_id ir_inv ir_view [(''log'', saving_task)] [ex_follow, ex_job, ex_job]
      (\<lambda>_. HandlerReturned)"
    using ex_chain_tasks by (simp add: chain_tasks_save_def)
  show ?thesis
    using repeated_id_holds_GetChain [OF im_inv_New ref_ext_codecs(1,2) js c tasks simple empty
        im_New_facts(3) id(1) id(1) id(2) ids _ plain, where ord = rev] c by auto
qed

end
