(* ===== verification/Group_Properties.thy ===== *)
theory Group_Properties
  imports Job_Properties
begin

text \<open>
  The properties of groups over the in-process implementations: what enqueueing a group
  leaves, also when it fails half way, and the status that \<open>GetGroup\<close> reports.
\<close>

lemma GetJob_Ok_or_Err:
  fixes w :: im_world
  assumes "ir_inv (rst w)"
  shows "(\<exists>m. GetJob (inmem_results_impl ord) E w k = Ok m) \<or> (\<exists>e. GetJob (inmem_results_impl ord) E w k = Err e)"
  using assms
  by (auto simp: GetJob_def im_store.GetResult_eq of_sum_def split: option.splits sum.splits)

section \<open>Enqueueing a group\<close>

text \<open>
  C13. Enqueueing a group of jobs with distinct identifiers, all due at once, on queues with
  room: every job is stored with status queued and its message is in its queue, in the
  group's order and behind what was there; and the group's message is stored, with status
  processing and exactly its jobs, each as queued.
\<close>

theorem EnqueueGroup_queues_all:
  fixes w :: im_world
  assumes "im_inv w" "codec_ok (job_codec E)" "codec_ok (group_codec E)"
    and "\<And>t. t \<in> set (GroupJobs g) \<Longrightarrow> immediate t"
    and "\<And>q. length (chan_of (bst w) q) + length (GroupJobs g) \<le> chan_cap"
    and ms: "ms = messages_from E (group_uuids (uuid_calls w) g) [] (GroupJobs g)"
    and "distinct (map ID ms)"
  shows "\<exists>w' gm. EnqueueGroup (inmem_results_impl ord) inmem_broker_impl E w g = (w', Ok (GroupID gm))
    \<and> im_inv w' \<and> getGroupMessage (inmem_results_impl ord) E w' (GroupID gm) = Ok gm
    \<and> GroupStatus gm = StatusProcessing
    \<and> (\<forall>k. map_of (JobStatus gm) k = (if k \<in> ID ` set ms then Some StatusStarted else None))
    \<and> distinct (map fst (JobStatus gm))
    \<and> (\<forall>m\<in>set ms. \<exists>now. GetJob (inmem_results_impl ord) E w' (ID m) =
         Ok (m\<lparr>ProcessedAt := now, Status := StatusStarted\<rparr>))
    \<and> (\<forall>q. chan_of (bst w') q = chan_of (bst w) q @ bytes_for E q ms)"
proof -
  let ?R = "inmem_results_impl ord" and ?n = "group_uuids (uuid_calls w) g"
  let ?v = "w\<lparr>uuid_calls := ?n\<rparr>" and ?gm = "new_group_message E (uuid_calls w) g"
  let ?u = "enqueued_list ?R inmem_broker_impl E [] ?v (GroupJobs g)"
  let ?w = "group_stored ?R E ?u ?gm"
  have ids: "map ID ms = map ID (metas_from E ?n [] (GroupJobs g))"
    unfolding ms by (rule map_ID_messages)
  have inv: "ir_inv (rst ?v)" "ib_inv (bst ?v)" using assms(1) by (simp_all add: im_inv_def)
  have room: "\<And>q. length (chan_of (bst ?v) q) + length (GroupJobs g) \<le> chan_cap" using assms(5) by simp
  have "EnqueueGroup ?R inmem_broker_impl E w g = (?w, Ok (GroupID ?gm))"
    using inv assms(2-5) by (subst im.EnqueueGroup_eq) (simp_all add: new_group_message_def)
  moreover have u: "ir_inv (rst ?u)" "ib_inv (bst ?u)"
      "\<And>q. chan_of (bst ?u) q = chan_of (bst w) q @ bytes_for E q ms"
    using im.enqueued_list_facts [OF inv room, where E = E and ord = ord and prev = "[]"] by (simp_all add: ms)
  moreover have "\<exists>now. GetJob ?R E ?u (ID m) = Ok (m\<lparr>ProcessedAt := now, Status := StatusStarted\<rparr>)"
    if "m \<in> set ms" for m
    using im.GetJob_enqueued_list [OF inv assms(2) room] that assms(7) ids by (simp add: ms)
  moreover have "map_of (JobStatus ?gm) k = (if k \<in> ID ` set ms then Some StatusStarted else None)" for k
    using arg_cong [OF ids, of set] by (simp add: new_group_message_def map_of_started)
  moreover have "distinct (map fst (JobStatus ?gm))"
    by (simp add: new_group_message_def distinct_started)
  ultimately show ?thesis
    using im.group_message_eq [OF u(1) assms(3), of ord ?gm] im.GetJob_group_stored [OF u(1) assms(3), of ord ?gm]
    by (intro exI [of _ ?w] exI [of _ ?gm]) (simp add: im_inv_def new_group_message_def)
qed

definition ex_group :: group where
  "ex_group = NewGroup [ex_job, ex_follow] \<lparr>GroupOptID = ''g''\<rparr>"

lemma ex_group_messages:
  "messages_from ref_ext (group_uuids n ex_group) [] (GroupJobs ex_group) = [ex_message ex_job, ex_message ex_follow]"
  by (simp add: ex_group_def NewGroup_def group_uuids_def ex_message_def default_meta_def next_uuids_def ex_jobs)

theorem EnqueueGroup_queues_all_witness:
  "\<exists>w' gm. EnqueueGroup (inmem_results_impl rev) inmem_broker_impl ref_ext im_New ex_group = (w', Ok (GroupID gm))
    \<and> getGroupMessage (inmem_results_impl rev) ref_ext w' (GroupID gm) = Ok gm
    \<and> map_of (JobStatus gm) ''b'' = Some StatusStarted
    \<and> chan_of (bst w') ''q'' = [job_bytes ref_ext (ex_message ex_job), job_bytes ref_ext (ex_message ex_follow)]"
proof -
  have imm: "immediate t" if "t \<in> set (GroupJobs ex_group)" for t
    using that by (auto simp: ex_group_def NewGroup_def immediate_def ex_jobs)
  have room: "length (chan_of (bst im_New) q) + length (GroupJobs ex_group) \<le> chan_cap" for q
    by (simp add: chan_cap_def ex_group_def NewGroup_def)
  have ids: "ID (ex_message ex_job) = ''a''" "ID (ex_message ex_follow) = ''b''"
      "OptQueue (Opts ex_job) = ''q''" "OptQueue (Opts ex_follow) = ''q''"
    by (simp_all add: ex_message_def default_meta_def ex_jobs)
  have dist: "distinct (map ID (messages_from ref_ext (group_uuids (uuid_calls im_New) ex_group) []
      (GroupJobs ex_group)))"
    unfolding ex_group_messages by (simp add: ids)
  obtain w' gm where
    "EnqueueGroup (inmem_results_impl rev) inmem_broker_impl ref_ext im_New ex_group = (w', Ok (GroupID gm))"
    "getGroupMessage (inmem_results_impl rev) ref_ext w' (GroupID gm) = Ok gm"
    "\<forall>k. map_of (JobStatus gm) k = (if k \<in> ID ` set [ex_message ex_job, ex_message ex_follow]
       then Some StatusStarted else None)"
    "\<forall>q. chan_of (bst w') q = chan_of (bst im_New) q @ bytes_for ref_ext q [ex_message ex_job, ex_message ex_follow]"
    using EnqueueGroup_queues_all [OF im_inv_New ref_ext_codecs(1,3) imm room refl dist, where ord = rev]
    unfolding ex_group_messages by blast
  then show ?thesis by (intro exI [of _ w'] exI [of _ gm]) (simp add: ids)
qed

section \<open>A group that cannot be enqueued in full\<close>

text \<open>
  The in-process broker takes no job with an ETA: the job's message is stored, with status
  queued, before the broker refuses it.
\<close>

lemma enqueueWithMeta_refused:
  fixes w :: im_world
  assumes "im_inv w" "codec_ok (job_codec E)" "OptSchedule (Opts t) = []" "ETA (Opts t) \<noteq> 0"
  shows "enqueueWithMeta (inmem_results_impl ord) inmem_broker_impl E w t m =
    (with_status (inmem_results_impl ord) E w StatusStarted (job_message_of t m),
     Err (ErrorString ''in-memory broker does not support this method''))"
  using assms
  by (simp add: enqueueWithMeta_def schedule_job_def Let_def im_inv_def im_store.status_eq enqueueScheduled_def
      job_codec_simps broker_EnqueueScheduled_def ib_EnqueueScheduled_def with_status_def stored_def tick_def)

text \<open>
  C14. A group with a job that the broker refuses: the call fails, but the jobs before it
  stay stored and queued; the refused job is stored with status queued, though no queue
  has it; the jobs after it are not looked at, and no message of the group is written.
\<close>

theorem EnqueueGroup_stops_half_way:
  fixes w :: im_world
  assumes "im_inv w" "codec_ok (job_codec E)" "codec_ok (group_codec E)"
    and "GroupJobs g = xs @ t # ys" "\<And>u. u \<in> set xs \<Longrightarrow> immediate u"
    and "OptSchedule (Opts t) = []" "ETA (Opts t) \<noteq> 0"
    and "\<And>q. length (chan_of (bst w) q) + length xs \<le> chan_cap"
    and n: "n = group_uuids (uuid_calls w) g"
    and ms: "ms = messages_from E n [] xs"
    and m: "m = job_message_of t (default_meta E (foldl next_uuids n xs) [] t)"
    and "ID m \<notin> ID ` set ms" "distinct (map ID ms)"
  shows "\<exists>w' e. EnqueueGroup (inmem_results_impl ord) inmem_broker_impl E w g = (w', Err e) \<and> im_inv w'
    \<and> (\<forall>x\<in>set ms. \<exists>now. GetJob (inmem_results_impl ord) E w' (ID x) =
         Ok (x\<lparr>ProcessedAt := now, Status := StatusStarted\<rparr>))
    \<and> (\<exists>now. GetJob (inmem_results_impl ord) E w' (ID m) =
         Ok (m\<lparr>ProcessedAt := now, Status := StatusStarted\<rparr>))
    \<and> (\<forall>q. chan_of (bst w') q = chan_of (bst w) q @ bytes_for E q ms)
    \<and> (\<forall>k. getGroupMessage (inmem_results_impl ord) E w' k = getGroupMessage (inmem_results_impl ord) E w k)"
proof -
  let ?R = "inmem_results_impl ord" and ?v = "w\<lparr>uuid_calls := n\<rparr>"
  let ?u = "enqueued_list ?R inmem_broker_impl E [] ?v xs"
  let ?x = "?u\<lparr>uuid_calls := next_uuids (uuid_calls ?u) t\<rparr>"
  let ?w = "with_status ?R E ?x StatusStarted m"
  have inv: "ir_inv (rst ?v)" "ib_inv (bst ?v)" using assms(1) by (simp_all add: im_inv_def)
  have room: "\<And>q. length (chan_of (bst ?v) q) + length xs \<le> chan_cap" using assms(8) by simp
  note facts = im.enqueued_list_facts [OF inv room, where E = E and ord = ord and prev = "[]"]
  have u: "im_inv ?u" "im_inv ?x" "ir_inv (rst ?x)" "ir_inv (rst ?u)" using facts by (simp_all add: im_inv_def)
  have cnt: "uuid_calls ?u = foldl next_uuids n xs" by (simp add: uuid_calls_enqueued_list)
  have ids: "map ID ms = map ID (metas_from E n [] xs)" unfolding ms by (rule map_ID_messages)
  have "Enqueue ?R inmem_broker_impl E ?u t =
      (?w, Err (ErrorString ''in-memory broker does not support this method''))"
    using enqueueWithMeta_refused [OF u(2) assms(2,6,7)] by (simp add: Enqueue_def DefaultMeta_eq cnt m)
  then have run: "EnqueueGroup ?R inmem_broker_impl E w g = (?w, Err (Wrapped ''could not enqueue group : ''
      (ErrorString ''in-memory broker does not support this method'')))"
    using im.enqueue_group_jobs_eq [OF inv assms(2,5) room, where ord = ord]
    by (simp add: EnqueueGroup_def group_message_of_eq assms(4) enqueue_group_jobs_append n
        new_group_message_def)
  have get: "GetJob ?R E ?w k = (if k = ID m then Ok (stamp E ?x StatusStarted m) else GetJob ?R E ?u k)" for k
    using im_store.GetJob_with_status [OF u(3) assms(2)] im_store.GetJob_cong [OF u(4,3)] by simp
  have jobs: "\<exists>now. GetJob ?R E ?u (ID x) = Ok (x\<lparr>ProcessedAt := now, Status := StatusStarted\<rparr>)"
    if "x \<in> set ms" for x
    using im.GetJob_enqueued_list [OF inv assms(2) room] that assms(13) ids by (simp add: ms)
  have groups: "getGroupMessage ?R E ?w k = getGroupMessage ?R E w k" for k
    using facts u inv by (simp add: getGroupMessage_def im_store.GetResult_eq image_iff)
  have inv': "im_inv ?w" using u by (simp add: im_inv_def)
  have all: "\<forall>x\<in>set ms. \<exists>now. GetJob ?R E ?w (ID x) = Ok (x\<lparr>ProcessedAt := now, Status := StatusStarted\<rparr>)"
    using get jobs assms(12) by (auto simp: image_iff)
  have own: "\<exists>now. GetJob ?R E ?w (ID m) = Ok (m\<lparr>ProcessedAt := now, Status := StatusStarted\<rparr>)"
    using get by (auto simp: stamp_def)
  have "\<forall>q. chan_of (bst ?w) q = chan_of (bst w) q @ bytes_for E q ms"
    using facts by (simp add: ms)
  then show ?thesis using run inv' all own groups by blast
qed

definition ex_later :: job where
  "ex_later = Job [] ''log'' ''x'' [] (ex_opts\<lparr>OptID := ''b'', ETA := 1000\<rparr>)"

definition ex_half_group :: group where
  "ex_half_group = NewGroup [ex_job, ex_later, ex_follow] \<lparr>GroupOptID = ''g''\<rparr>"

theorem EnqueueGroup_stops_half_way_witness:
  "\<exists>w' e. EnqueueGroup (inmem_results_impl rev) inmem_broker_impl ref_ext im_New ex_half_group = (w', Err e)
    \<and> chan_of (bst w') ''q'' = [job_bytes ref_ext (ex_message ex_job)]
    \<and> (\<exists>now. GetJob (inmem_results_impl rev) ref_ext w' ''b'' =
         Ok ((ex_message ex_later)\<lparr>ProcessedAt := now, Status := StatusStarted\<rparr>))"
proof -
  have g: "GroupJobs ex_half_group = [ex_job] @ ex_later # [ex_follow]"
    by (simp add: ex_half_group_def NewGroup_def)
  have imm: "immediate u" if "u \<in> set [ex_job]" for u using that by (simp add: immediate_def ex_jobs)
  have t: "OptSchedule (Opts ex_later) = []" "ETA (Opts ex_later) \<noteq> 0"
    by (simp_all add: ex_later_def ex_jobs)
  have room: "length (chan_of (bst im_New) q) + length [ex_job] \<le> chan_cap" for q
    by (simp add: chan_cap_def)
  have ms: "[ex_message ex_job] = messages_from ref_ext n [] [ex_job]"
    "ex_message ex_later = job_message_of ex_later (default_meta ref_ext n [] ex_later)"
    "ID (ex_message ex_job) = ''a''" "ID (ex_message ex_later) = ''b''" "OptQueue (Opts ex_job) = ''q''" for n
    by (simp_all add: ex_message_def default_meta_def ex_later_def ex_jobs)
  have id: "ID (ex_message ex_later) \<notin> ID ` set [ex_message ex_job]" "distinct (map ID [ex_message ex_job])"
    by (simp_all add: ms)
  obtain w' e where
    "EnqueueGroup (inmem_results_impl rev) inmem_broker_impl ref_ext im_New ex_half_group = (w', Err e)"
    "\<exists>now. GetJob (inmem_results_impl rev) ref_ext w' (ID (ex_message ex_later)) =
       Ok ((ex_message ex_later)\<lparr>ProcessedAt := now, Status := StatusStarted\<rparr>)"
    "\<forall>q. chan_of (bst w') q = chan_of (bst im_New) q @ bytes_for ref_ext q [ex_message ex_job]"
    using EnqueueGroup_stops_half_way [OF im_inv_New ref_ext_codecs(1,3) g imm t room refl ms(1,2) id,
        where ord = rev] by blast
  then show ?thesis by (intro exI [of _ w'] exI [of _ e]) (simp add: ms)
qed

section \<open>The status of a group\<close>

text \<open>
  C15. \<open>GetGroup\<close>, for a group that is not final and whose unfinished jobs can be read:
  the status of each unfinished job is replaced by the stored one, whatever the order in
  which the range visits the jobs; the group is failed when some job has failed, else
  successful when all are, else processing. The new message is stored; no job changes.
\<close>

theorem GetGroup_refreshes:
  fixes w :: im_world
  assumes "im_inv w" "codec_ok (group_codec E)" "range_of (range_entries E)"
    and "getGroupMessage (inmem_results_impl ord) E w gid = Ok g"
    and "\<not> final_status (GroupStatus g)" "distinct (map fst (JobStatus g))"
    and "readable (inmem_results_impl ord) E w (JobStatus g)"
  shows "\<exists>w' g'. GetGroup (inmem_results_impl ord) E w gid = (w', Ok g') \<and> im_inv w'
    \<and> (\<forall>k. map_of (JobStatus g') k =
         Option.bind (map_of (JobStatus g) k) (refreshed (inmem_results_impl ord) E w k))
    \<and> GroupStatus g' =
        (if StatusFailed \<in> ran (map_of (JobStatus g')) then StatusFailed
         else if ran (map_of (JobStatus g')) \<subseteq> {StatusDone} then StatusDone else StatusProcessing)
    \<and> getGroupMessage (inmem_results_impl ord) E w' (GroupID g) = Ok g'
    \<and> (\<forall>k. GetJob (inmem_results_impl ord) E w' k = GetJob (inmem_results_impl ord) E w k)"
proof -
  let ?R = "inmem_results_impl ord" and ?es = "range_entries E (JobStatus g)"
  let ?st = "fold (refresh ?R E w) ?es []"
  let ?g = "g\<lparr>JobStatus := ?st, GroupStatus := getGroupStatus E ?st\<rparr>"
  let ?w = "group_stored ?R E w ?g"
  have inv: "ir_inv (rst w)" using assms(1) by (simp add: im_inv_def)
  have es: "distinct (map fst ?es)" "map_of ?es = map_of (JobStatus g)"
    using range_entries_map_of [OF assms(3,6)] .
  have "GetGroup ?R E w gid = (?w, Ok ?g)"
    by (rule im.GetGroup_eq [OF inv assms(2,4,5,3,7) refl refl])
  moreover have "map_of ?st k = Option.bind (map_of (JobStatus g) k) (refreshed ?R E w k)" for k
    using map_of_fold_refresh [OF es(1), of ?R E w "[]" k] es(2) by (simp split: option.splits)
  moreover have "set (map snd ?st) = ran (map_of ?st)"
    by (intro set_snd_ran distinct_fold_refresh) simp
  ultimately show ?thesis
    using assms(1) im.group_message_eq [OF inv assms(2), of ord ?g]
      im.GetJob_group_stored [OF inv assms(2), of ord ?g] getGroupStatus_eq [OF assms(3), of ?st]
    by (intro exI [of _ ?w] exI [of _ ?g]) (auto simp: im_inv_def)
qed

definition ex_group_message :: group_message where
  "ex_group_message = \<lparr>GroupID = ''g'', GroupStatus = StatusProcessing,
     JobStatus = [(''a'', StatusStarted), (''b'', StatusStarted)], MsgGroup = Some ex_group\<rparr>"

text \<open>The group's message in the store, with the messages of some of its jobs.\<close>

definition ex_group_world :: "job_message list \<Rightarrow> im_world" where
  "ex_group_world ms =
     group_stored (inmem_results_impl rev) ref_ext
       (fold (\<lambda>m w. stored (inmem_results_impl rev) ref_ext w m) ms im_New) ex_group_message"

lemma ex_group_world_facts:
  "im_inv (ex_group_world ms)"
  "getGroupMessage (inmem_results_impl rev) ref_ext (ex_group_world ms) ''g'' = Ok ex_group_message"
  "ir_view (rst (ex_group_world ms)) (jobPrefix @ k) =
     ir_view (rst (fold (\<lambda>m w. stored (inmem_results_impl rev) ref_ext w m) ms im_New)) (jobPrefix @ k)"
proof -
  let ?w = "fold (\<lambda>m w. stored (inmem_results_impl rev) ref_ext w m) ms im_New"
  have w: "im_inv ?w" by (rule fold_stored_inv [OF im_inv_New])
  then have inv: "ir_inv (rst ?w)" by (simp add: im_inv_def)
  note facts = im.group_message_eq [OF inv ref_ext_codecs(3), where ord = rev and g = ex_group_message]
  show "im_inv (ex_group_world ms)"
    using w facts(2) by (simp add: ex_group_world_def im_inv_def)
  show "getGroupMessage (inmem_results_impl rev) ref_ext (ex_group_world ms) ''g'' = Ok ex_group_message"
    using facts(4) by (simp add: ex_group_world_def ex_group_message_def)
  show "ir_view (rst (ex_group_world ms)) (jobPrefix @ k) = ir_view (rst ?w) (jobPrefix @ k)"
    using facts(3) by (simp add: ex_group_world_def)
qed

lemma ex_group_message_sel:
  "GroupStatus ex_group_message = StatusProcessing" "GroupID ex_group_message = ''g''"
  "JobStatus ex_group_message = [(''a'', StatusStarted), (''b'', StatusStarted)]"
  by (simp_all add: ex_group_message_def)

text \<open>The first job of the group has finished, the second has failed.\<close>

definition ex_over :: job_message where
  "ex_over = (ex_message ex_job)\<lparr>Status := StatusDone\<rparr>"

definition ex_failed :: job_message where
  "ex_failed = (ex_message ex_follow)\<lparr>Status := StatusFailed\<rparr>"

lemma ex_group_world_jobs:
  "GetJob (inmem_results_impl rev) ref_ext (ex_group_world [ex_over, ex_failed]) ''a'' = Ok ex_over"
  "GetJob (inmem_results_impl rev) ref_ext (ex_group_world [ex_over, ex_failed]) ''b'' = Ok ex_failed"
proof -
  have ids: "ID ex_over = ''a''" "ID ex_failed = ''b''"
    by (simp_all add: ex_over_def ex_failed_def ex_message_def default_meta_def ex_jobs)
  have inv: "ir_inv (rst (ex_group_world ms))" for ms
    using ex_group_world_facts(1) [of ms] by (simp add: im_inv_def)
  show "GetJob (inmem_results_impl rev) ref_ext (ex_group_world [ex_over, ex_failed]) ''a'' = Ok ex_over"
    "GetJob (inmem_results_impl rev) ref_ext (ex_group_world [ex_over, ex_failed]) ''b'' = Ok ex_failed"
    using im_New_facts(1) by (auto intro!: im_store.GetJob_view [OF inv] simp: ex_group_world_facts ids)
qed

theorem GetGroup_refreshes_witness:
  "\<exists>w' g'. GetGroup (inmem_results_impl rev) ref_ext (ex_group_world [ex_over, ex_failed]) ''g'' = (w', Ok g')
    \<and> map_of (JobStatus g') ''a'' = Some StatusDone \<and> map_of (JobStatus g') ''b'' = Some StatusFailed
    \<and> GroupStatus g' = StatusFailed"
proof -
  let ?R = "inmem_results_impl rev" and ?w = "ex_group_world [ex_over, ex_failed]"
  have st: "Status ex_over = StatusDone" "Status ex_failed = StatusFailed"
    by (simp_all add: ex_over_def ex_failed_def)
  have ref: "refreshed ?R ref_ext ?w ''a'' StatusStarted = Some StatusDone"
    "refreshed ?R ref_ext ?w ''b'' StatusStarted = Some StatusFailed"
    by (simp_all add: refreshed_def final_status_def live_status_def ex_group_world_jobs st)
  have range: "range_of (range_entries ref_ext)" by simp
  have fin: "\<not> final_status (GroupStatus ex_group_message)" "distinct (map fst (JobStatus ex_group_message))"
    by (simp_all add: final_status_def ex_group_message_sel)
  have rd: "readable ?R ref_ext ?w (JobStatus ex_group_message)"
    by (simp add: readable_def ex_group_message_sel ex_group_world_jobs)
  obtain w' g' where g': "GetGroup ?R ref_ext ?w ''g'' = (w', Ok g')"
    "\<forall>k. map_of (JobStatus g') k =
       Option.bind (map_of (JobStatus ex_group_message) k) (refreshed ?R ref_ext ?w k)"
    "GroupStatus g' =
        (if StatusFailed \<in> ran (map_of (JobStatus g')) then StatusFailed
         else if ran (map_of (JobStatus g')) \<subseteq> {StatusDone} then StatusDone else StatusProcessing)"
    using GetGroup_refreshes [OF ex_group_world_facts(1) ref_ext_codecs(3) range ex_group_world_facts(2) fin rd]
    by blast
  then have a: "map_of (JobStatus g') ''a'' = Some StatusDone" "map_of (JobStatus g') ''b'' = Some StatusFailed"
    using ref by (simp_all add: ex_group_message_sel)
  from a(2) have "StatusFailed \<in> ran (map_of (JobStatus g'))" by (rule ranI)
  then show ?thesis using g' a by auto
qed

text \<open>
  C16. When the message of an unfinished job of the group is missing (deleted from the
  store), \<open>GetGroup\<close> fails with the error of that read and writes nothing, whatever the
  statuses of the other jobs are.
\<close>

theorem GetGroup_needs_every_job:
  fixes w :: im_world
  assumes "im_inv w" "codec_ok (group_codec E)" "range_of (range_entries E)"
    and "getGroupMessage (inmem_results_impl ord) E w gid = Ok g" "\<not> final_status (GroupStatus g)"
    and "(k, s) \<in> set (JobStatus g)" "live_status s" "ir_view (rst w) (jobPrefix @ k) = None"
  shows "\<exists>k e. k \<in> fst ` set (JobStatus g) \<and> GetJob (inmem_results_impl ord) E w k = Err e
    \<and> GetGroup (inmem_results_impl ord) E w gid = (w, Err e)"
proof -
  let ?R = "inmem_results_impl ord"
  have inv: "ir_inv (rst w)" using assms(1) by (simp add: im_inv_def)
  have "GetJob ?R E w k = Err ErrNotFound" by (rule im_store.GetJob_missing [OF inv assms(8)])
  moreover have "\<not> final_status s" using assms(7) by (auto simp: live_status_def final_status_def)
  ultimately have "\<not> readable ?R E w (JobStatus g)"
    using assms(6,7) unfolding readable_def by fastforce
  from im.GetGroup_unreadable [OF assms(4,5,3) this] obtain k' s' where
    k': "(k', s') \<in> set (JobStatus g)" "\<And>j. GetJob ?R E w k' \<noteq> Ok j"
      "GetGroup ?R E w gid = (w, case GetJob ?R E w k' of Err e \<Rightarrow> Err e | Diverge \<Rightarrow> Diverge | _ \<Rightarrow> Panic)"
    by blast
  obtain e where "GetJob ?R E w k' = Err e"
    using GetJob_Ok_or_Err [OF inv, of ord E k'] k'(2) by blast
  then show ?thesis using k' by (force simp: image_iff)
qed

theorem GetGroup_needs_every_job_witness:
  "\<exists>e. GetGroup (inmem_results_impl rev) ref_ext (ex_group_world []) ''g'' = (ex_group_world [], Err e)"
proof -
  have k: "(''a'', StatusStarted) \<in> set (JobStatus ex_group_message)" "live_status StatusStarted"
    by (simp_all add: ex_group_message_sel live_status_def)
  have none: "ir_view (rst (ex_group_world [])) (jobPrefix @ ''a'') = None"
    by (subst ex_group_world_facts(3)) (simp add: ir_view_def ir_New_def)
  have fin: "\<not> final_status (GroupStatus ex_group_message)" "range_of (range_entries ref_ext)"
    by (simp_all add: final_status_def ex_group_message_sel)
  show ?thesis
    using GetGroup_needs_every_job [OF ex_group_world_facts(1) ref_ext_codecs(3) fin(2) ex_group_world_facts(2) fin(1)
        k none] by blast
qed

end
