(* ===== verification/Server_Registry.thy ===== *)
theory Server_Registry
  imports Server_Exec
begin

text \<open>
  The server's tables of tasks and queues, \<open>server.go\<close>: \<open>NewServer\<close>, \<open>RegisterTask\<close> and the
  goroutines \<open>Start\<close> launches, and the methods that read the stored tasks and the pending
  jobs. The server is a record with the interfaces it holds; it is passed and returned like
  the world. \<open>defaultConc\<close> is the result of \<open>runtime.GOMAXPROCS(0)\<close>, an argument of
  \<open>NewServer\<close>; the logger, tracer and cron fields do not affect the tables.
\<close>

record ('b, 'r) server =
  sbroker :: "'b broker_impl"
  sresults :: "'r results_impl"
  tasks :: "(string, ('b, 'r) task) gomap"
  queues :: "(string, uint32) gomap"
  defaultConc :: int64

text \<open>A nil interface value in the options is \<open>None\<close>.\<close>

definition NewServer ::
  "'b broker_impl option \<Rightarrow> 'r results_impl option \<Rightarrow> int64 \<Rightarrow> ('b, 'r) server outcome" where
  "NewServer broker results gomaxprocs =
     (case broker of
        None \<Rightarrow> Err (ErrorString ''broker missing in options'')
      | Some B \<Rightarrow>
          (case results of
             None \<Rightarrow> Err (ErrorString ''results missing in options'')
           | Some R \<Rightarrow> Ok \<lparr>sbroker = B, sresults = R, tasks = [], queues = [],
                           defaultConc = gomaxprocs\<rparr>))"

section \<open>Registering tasks\<close>

definition registerQueue :: "('b, 'r) server \<Rightarrow> string \<Rightarrow> uint32 \<Rightarrow> ('b, 'r) server" where
  "registerQueue s name conc = s\<lparr>queues := AList.update name conc (queues s)\<rparr>"

definition task_info_of :: "string \<Rightarrow> ('b, 'r) task \<Rightarrow> task_info" where
  "task_info_of name t =
     \<lparr>Name = name, InfoQueue = TaskQueue (TaskOpts t), InfoConcurrency = Concurrency (TaskOpts t)\<rparr>"

definition registerHandler ::
  "ext \<Rightarrow> ('b, 'r) server \<Rightarrow> ('b, 'r) world \<Rightarrow> string \<Rightarrow> ('b, 'r) task
     \<Rightarrow> (('b, 'r) server \<times> ('b, 'r) world) \<times> unit outcome" where
  "registerHandler E s w name t =
     (let s = s\<lparr>tasks := AList.update name t (tasks s)\<rparr> in
      on_ok (wrap_err ''error marshalling task info: ''
               ((s, w), of_sum (marshal (task_codec E) (task_info_of name t))))
        (\<lambda>(s, w) b.
           wrap_err ''error persisting task to store: ''
             (case r_SetTask (sresults s) (rst w) name b of (r, res) \<Rightarrow> ((s, w\<lparr>rst := r\<rparr>), res))))"

text \<open>The options with the defaults filled in; the \<open>int\<close> is converted to \<open>uint32\<close>.\<close>

definition default_opts :: "('b, 'r) server \<Rightarrow> ('b, 'r) task_opts \<Rightarrow> ('b, 'r) task_opts" where
  "default_opts s opts =
     (let opts = (if TaskQueue opts = [] then opts\<lparr>TaskQueue := DefaultQueue\<rparr> else opts)
      in if Concurrency opts \<le> 0 then opts\<lparr>Concurrency := ucast (defaultConc s)\<rparr> else opts)"

definition RegisterTask ::
  "ext \<Rightarrow> ('b, 'r) server \<Rightarrow> ('b, 'r) world \<Rightarrow> string \<Rightarrow> ('b, 'r) handler \<Rightarrow> ('b, 'r) task_opts
     \<Rightarrow> (('b, 'r) server \<times> ('b, 'r) world) \<times> unit outcome" where
  "RegisterTask E s w name fn opts =
     (let opts = default_opts s opts; t = \<lparr>TaskName = name, Handler = fn, TaskOpts = opts\<rparr> in
      case map_of (queues s) (TaskQueue opts) of
        None \<Rightarrow> registerHandler E (registerQueue s (TaskQueue opts) (Concurrency opts)) w name t
      | Some conc \<Rightarrow>
          if Concurrency opts = conc then registerHandler E s w name t
          else ((s, w), Err (ErrorString (''queue is already defined with '' @ decimal (unat conc) @
                               '' concurrency''))))"

section \<open>The goroutines of a running server\<close>

datatype goroutine = CronScheduler | Consumer string | Processor string

text \<open>
  What \<open>Start\<close> launches: for each queue, in the order of the range, one consumer and as many
  processors as the queue's concurrency. A queue registered later is not seen.
\<close>

definition Start ::
  "((string \<times> uint32) list \<Rightarrow> (string \<times> uint32) list) \<Rightarrow> ('b, 'r) server \<Rightarrow> goroutine list" where
  "Start ord s =
     CronScheduler #
     concat (map (\<lambda>(q, conc). Consumer q # replicate (unat conc) (Processor q)) (ord (queues s)))"

section \<open>Reading the tasks and the pending jobs\<close>

text \<open>An entry that does not decode is logged and left out.\<close>

fun decode_tasks :: "ext \<Rightarrow> bytes list \<Rightarrow> task_info list" where
  "decode_tasks E [] = []"
| "decode_tasks E (b # bs) =
     (case unmarshal (task_codec E) b of
        Inl _ \<Rightarrow> decode_tasks E bs
      | Inr t \<Rightarrow> t # decode_tasks E bs)"

definition GetTasks :: "ext \<Rightarrow> ('b, 'r) server \<Rightarrow> ('b, 'r) world \<Rightarrow> task_info list outcome" where
  "GetTasks E s w =
     (case r_GetAllTasks (sresults s) (rst w) of
        Ok bs \<Rightarrow> Ok (decode_tasks E bs)
      | Err e \<Rightarrow> Err (Wrapped ''error fetching tasks from store: '' e)
      | Panic \<Rightarrow> Panic
      | Diverge \<Rightarrow> Diverge)"

text \<open>Of the pending jobs, one that does not decode makes the call fail.\<close>

fun decode_jobs :: "ext \<Rightarrow> string list \<Rightarrow> job_message list outcome" where
  "decode_jobs E [] = Ok []"
| "decode_jobs E (r # rs) =
     bind_ok (of_sum (unmarshal (job_codec E) r)) (\<lambda>m.
     bind_ok (decode_jobs E rs) (\<lambda>ms. Ok (m # ms)))"

definition GetPending ::
  "ext \<Rightarrow> ('b, 'r) server \<Rightarrow> ('b, 'r) world \<Rightarrow> string \<Rightarrow> job_message list outcome" where
  "GetPending E s w q = bind_ok (b_GetPending (sbroker s) (bst w) q) (decode_jobs E)"

definition GetPendingWithPagination ::
  "ext \<Rightarrow> ('b, 'r) server \<Rightarrow> ('b, 'r) world \<Rightarrow> string \<Rightarrow> int64 \<Rightarrow> int64
     \<Rightarrow> (job_message list \<times> int64) outcome" where
  "GetPendingWithPagination E s w q offset limit =
     bind_ok (b_GetPendingWithPagination (sbroker s) (bst w) q offset limit) (\<lambda>(rs, total).
     bind_ok (decode_jobs E rs) (\<lambda>ms. Ok (ms, total)))"

definition GetPendingCount :: "('b, 'r) server \<Rightarrow> ('b, 'r) world \<Rightarrow> string \<Rightarrow> int64 outcome" where
  "GetPendingCount s w q = b_GetPendingCount (sbroker s) (bst w) q"

lemma decode_jobs_bytes:
  "codec_ok (job_codec E) \<Longrightarrow> decode_jobs E (map (job_bytes E) ms) = Ok ms"
  by (induction ms) (simp_all add: job_codec_simps)

section \<open>The states that registrations lead to\<close>

inductive reg_reach ::
  "ext \<Rightarrow> 'b broker_impl \<Rightarrow> 'r results_impl \<Rightarrow> int64 \<Rightarrow> ('b, 'r) world \<Rightarrow> ('b, 'r) server
     \<Rightarrow> ('b, 'r) world \<Rightarrow> bool"
  for E B R n w0 where
  init: "NewServer (Some B) (Some R) n = Ok s \<Longrightarrow> reg_reach E B R n w0 s w0"
| register: "reg_reach E B R n w0 s w \<Longrightarrow> RegisterTask E s w name fn opts = ((s', w'), res)
    \<Longrightarrow> reg_reach E B R n w0 s' w'"

text \<open>What a registration does to the tables, whether the store takes the metadata or not.\<close>

lemma registerHandler_tables:
  assumes "registerHandler E s w name t = ((s', w'), res)"
  shows "s' = s\<lparr>tasks := AList.update name t (tasks s)\<rparr>" "bst w' = bst w"
  using assms
  by (auto simp: registerHandler_def Let_def on_ok_def wrap_err_def
      split: prod.splits outcome.splits)

lemma RegisterTask_cases:
  assumes "RegisterTask E s w name fn opts = ((s', w'), res)"
  obtains (new) t where "t = \<lparr>TaskName = name, Handler = fn, TaskOpts = default_opts s opts\<rparr>"
      "map_of (queues s) (TaskQueue (TaskOpts t)) = None"
      "s' = s\<lparr>tasks := AList.update name t (tasks s),
              queues := AList.update (TaskQueue (TaskOpts t)) (Concurrency (TaskOpts t)) (queues s)\<rparr>"
      "registerHandler E (registerQueue s (TaskQueue (TaskOpts t)) (Concurrency (TaskOpts t))) w name t
         = ((s', w'), res)"
  | (known) t where "t = \<lparr>TaskName = name, Handler = fn, TaskOpts = default_opts s opts\<rparr>"
      "map_of (queues s) (TaskQueue (TaskOpts t)) = Some (Concurrency (TaskOpts t))"
      "s' = s\<lparr>tasks := AList.update name t (tasks s)\<rparr>"
      "registerHandler E s w name t = ((s', w'), res)"
  | (refused) conc where "map_of (queues s) (TaskQueue (default_opts s opts)) = Some conc"
      "conc \<noteq> Concurrency (default_opts s opts)" "s' = s" "w' = w"
      "res = Err (ErrorString (''queue is already defined with '' @ decimal (unat conc) @ '' concurrency''))"
proof -
  let ?o = "default_opts s opts"
  let ?t = "\<lparr>TaskName = name, Handler = fn, TaskOpts = ?o\<rparr>"
  show ?thesis
  proof (cases "map_of (queues s) (TaskQueue ?o)")
    case None
    then have h: "registerHandler E (registerQueue s (TaskQueue ?o) (Concurrency ?o)) w name ?t = ((s', w'), res)"
      using assms by (simp add: RegisterTask_def Let_def)
    show ?thesis
      using new [of ?t] None h registerHandler_tables(1) [OF h] by (simp add: registerQueue_def)
  next
    case (Some conc)
    show ?thesis
    proof (cases "Concurrency ?o = conc")
      case True
      then have h: "registerHandler E s w name ?t = ((s', w'), res)"
        using assms Some by (simp add: RegisterTask_def Let_def)
      show ?thesis
        by (rule known [OF refl _ _ h]) (use Some True registerHandler_tables(1) [OF h] in simp_all)
    next
      case False
      then have "s' = s" "w' = w"
        "res = Err (ErrorString (''queue is already defined with '' @ decimal (unat conc) @ '' concurrency''))"
        using assms Some by (simp_all add: RegisterTask_def Let_def)
      then show ?thesis using refused [OF Some] False by metis
    qed
  qed
qed

text \<open>The invariant: a task's queue is registered, with the task's own concurrency.\<close>

definition task_ok :: "(string, uint32) gomap \<Rightarrow> string \<Rightarrow> ('b, 'r) task \<Rightarrow> bool" where
  "task_ok qs name t \<longleftrightarrow>
     TaskName t = name \<and> TaskQueue (TaskOpts t) \<noteq> [] \<and>
     map_of qs (TaskQueue (TaskOpts t)) = Some (Concurrency (TaskOpts t))"

definition reg_inv :: "('b, 'r) server \<Rightarrow> bool" where
  "reg_inv s \<longleftrightarrow> distinct (map fst (queues s)) \<and> distinct (map fst (tasks s)) \<and>
     (\<forall>name t. map_of (tasks s) name = Some t \<longrightarrow> task_ok (queues s) name t)"

lemma task_ok_new_queue: "task_ok qs name t \<Longrightarrow> map_of qs q = None \<Longrightarrow> task_ok (AList.update q c qs) name t"
  by (auto simp: task_ok_def)

lemma default_opts_queue [simp]: "TaskQueue (default_opts s opts) \<noteq> []"
  by (simp add: default_opts_def Let_def DefaultQueue_def)

lemma RegisterTask_inv:
  assumes "RegisterTask E s w name fn opts = ((s', w'), res)" "reg_inv s"
  shows "reg_inv s'"
  using assms(1)
proof (cases rule: RegisterTask_cases)
  case (new t)
  then have "task_ok (queues s') name t" by (simp add: task_ok_def)
  then show ?thesis
    using assms(2) new(2,3) by (simp add: reg_inv_def distinct_update task_ok_new_queue)
next
  case (known t)
  then have "task_ok (queues s') name t" by (simp add: task_ok_def)
  then show ?thesis
    using assms(2) known(3) by (simp add: reg_inv_def distinct_update)
next
  case (refused conc)
  then show ?thesis using assms(2) by simp
qed

lemma reg_reach_inv: "reg_reach E B R n w0 s w \<Longrightarrow> reg_inv s \<and> sbroker s = B \<and> sresults s = R \<and> defaultConc s = n"
proof (induction rule: reg_reach.induct)
  case (init s)
  then show ?case by (auto simp: NewServer_def reg_inv_def)
next
  case (register s w name fn opts s' w' res)
  have "sbroker s' = sbroker s \<and> sresults s' = sresults s \<and> defaultConc s' = defaultConc s"
    using register(2) by (cases rule: RegisterTask_cases) auto
  then show ?case using register RegisterTask_inv by metis
qed

lemma RegisterTask_queue_kept:
  assumes "RegisterTask E s w name fn opts = ((s', w'), res)" "map_of (queues s) q = Some c"
  shows "map_of (queues s') q = Some c"
  using assms(1) by (cases rule: RegisterTask_cases) (use assms(2) in auto)

text \<open>With a default concurrency that is not zero, no task has none.\<close>

lemma default_opts_concurrency:
  "(ucast (defaultConc s) :: uint32) \<noteq> 0 \<Longrightarrow> Concurrency (default_opts s opts) \<noteq> 0"
  by (auto simp: default_opts_def Let_def)

lemma reg_reach_concurrency:
  assumes "reg_reach E B R n w0 s w" "map_of (tasks s) name = Some t" "(ucast n :: uint32) \<noteq> 0"
  shows "Concurrency (TaskOpts t) \<noteq> 0"
  using assms(1,2)
proof (induction arbitrary: name t rule: reg_reach.induct)
  case (init s)
  then show ?case by (auto simp: NewServer_def)
next
  case (register s w name' fn opts s' w' res)
  have c: "Concurrency (default_opts s opts) \<noteq> 0"
    using default_opts_concurrency reg_reach_inv [OF register(1)] assms(3) by metis
  show ?case
    using register(2)
    by (cases rule: RegisterTask_cases) (use register c in \<open>auto split: if_splits\<close>)
qed

text \<open>The processors of a queue, counted.\<close>

lemma count_processors:
  "distinct (map fst qs) \<Longrightarrow> map_of qs q = Some c \<Longrightarrow>
     count_list (concat (map (\<lambda>(q, conc). Consumer q # replicate (unat conc) (Processor q)) qs)) (Processor q) = unat c
   \<and> count_list (concat (map (\<lambda>(q, conc). Consumer q # replicate (unat conc) (Processor q)) qs)) (Consumer q) = 1"
proof (induction qs)
  case Nil
  then show ?case by simp
next
  case (Cons e qs)
  obtain p c' where e: "e = (p, c')" by fastforce
  have zero: "count_list (concat (map (\<lambda>(q, conc). Consumer q # replicate (unat conc) (Processor q)) qs)) x = 0"
    if "p \<notin> fst ` set qs" "x = Processor p \<or> x = Consumer p" for x :: goroutine
    using that by (force simp: count_list_0_iff)
  have rep: "count_list (replicate k x) y = (if x = y then k else 0)" for k and x y :: goroutine
    by (induction k) auto
  show ?case
    using Cons zero by (auto simp: e rep split: if_splits)
qed

end
