(* ===== verification/Server_Properties.thy ===== *)
theory Server_Properties
  imports Job_Properties Server_Registry
begin

text \<open>
  The properties of the server's tables: tasks, queues and workers, the stored metadata of
  tasks, and the inspection of pending jobs.
\<close>

section \<open>Tasks, queues and workers\<close>

text \<open>
  C17. After any sequence of registrations on a new server, every registered task has a queue
  among the server's queues, and \<open>Start\<close> launches for that queue one consumer and as many
  processors as the task's concurrency: at least one, when the default concurrency is not
  a multiple of \<open>2 ^ 32\<close>.
\<close>

theorem registered_tasks_have_workers:
  assumes "reg_reach E B R n w0 s w" "map_of (tasks s) name = Some t" "range_of ord"
  shows "TaskName t = name \<and> TaskQueue (TaskOpts t) \<noteq> []
    \<and> count_list (Start ord s) (Consumer (TaskQueue (TaskOpts t))) = 1
    \<and> count_list (Start ord s) (Processor (TaskQueue (TaskOpts t))) = unat (Concurrency (TaskOpts t))
    \<and> ((ucast n :: uint32) \<noteq> 0 \<longrightarrow> 0 < unat (Concurrency (TaskOpts t)))"
proof -
  have inv: "reg_inv s" using reg_reach_inv [OF assms(1)] by blast
  then have ok: "task_ok (queues s) name t" and d: "distinct (map fst (queues s))"
    using assms(2) by (simp_all add: reg_inv_def)
  have "mset (map fst (ord (queues s))) = mset (map fst (queues s))"
    using assms(3) by (simp add: range_of_def)
  then have d': "distinct (map fst (ord (queues s)))"
    using d by (metis mset_eq_imp_distinct_iff)
  have "map_of (ord (queues s)) = map_of (queues s)"
    using d d' range_of_set [OF assms(3), of "queues s"] by (simp add: map_of_inject_set)
  then have q: "map_of (ord (queues s)) (TaskQueue (TaskOpts t)) = Some (Concurrency (TaskOpts t))"
    using ok by (simp add: task_ok_def)
  have "(ucast n :: uint32) \<noteq> 0 \<longrightarrow> Concurrency (TaskOpts t) \<noteq> 0"
    using reg_reach_concurrency [OF assms(1,2)] by blast
  then show ?thesis
    using ok count_processors [OF d' q] by (simp add: task_ok_def Start_def unat_gt_0)
qed

text \<open>Two tasks registered on a fresh server, of the default queue and of a queue of its own.\<close>

type_synonym im_server = "(inmem_broker, inmem_results) server"

definition ex_server :: im_server where
  "ex_server = \<lparr>sbroker = inmem_broker_impl, sresults = inmem_results_impl rev, tasks = [], queues = [],
     defaultConc = 8\<rparr>"

definition ex_task_opts :: "string \<Rightarrow> uint32 \<Rightarrow> (inmem_broker, inmem_results) task_opts" where
  "ex_task_opts q c = ex_no_cb\<lparr>TaskQueue := q, Concurrency := c\<rparr>"

definition ex_handler :: "(inmem_broker, inmem_results) handler" where
  "ex_handler p c w = (w, None)"

definition ex_register ::
  "im_server \<times> im_world \<Rightarrow> string \<times> string \<times> uint32 \<Rightarrow> im_server \<times> im_world" where
  "ex_register sw r = (case (sw, r) of ((s, w), (name, q, c)) \<Rightarrow>
     fst (RegisterTask ref_ext s w name ex_handler (ex_task_opts q c)))"

definition ex_registered :: "im_server \<times> im_world" where
  "ex_registered = ex_register (ex_register (ex_server, im_New) (''add'', ''q1'', 5)) (''mail'', [], 0)"

lemma ex_reach: "reg_reach ref_ext inmem_broker_impl (inmem_results_impl rev) 8 im_New
    (fst ex_registered) (snd ex_registered)"
proof -
  have step: "reg_reach ref_ext inmem_broker_impl (inmem_results_impl rev) 8 im_New
      (fst (ex_register sw r)) (snd (ex_register sw r))"
    if "reg_reach ref_ext inmem_broker_impl (inmem_results_impl rev) 8 im_New (fst sw) (snd sw)" for sw r
  proof -
    obtain name q c where r: "r = (name, q, c)" by (cases r)
    obtain s' w' res where
      "RegisterTask ref_ext (fst sw) (snd sw) name ex_handler (ex_task_opts q c) = ((s', w'), res)"
      by (metis prod.collapse)
    then show ?thesis
      using reg_reach.register [OF that] by (cases sw) (simp add: ex_register_def r)
  qed
  have "NewServer (Some inmem_broker_impl) (Some (inmem_results_impl rev)) 8 = Ok ex_server"
    by (simp add: NewServer_def ex_server_def)
  then show ?thesis
    unfolding ex_registered_def by (intro step) (simp add: reg_reach.init)
qed

lemma ex_registered_tables:
  "map_of (tasks (fst ex_registered)) ''mail'' = Some \<lparr>TaskName = ''mail'', Handler = ex_handler,
     TaskOpts = ex_task_opts DefaultQueue 8\<rparr>"
  "map_of (queues (fst ex_registered)) ''q1'' = Some 5"
  "map fst (tasks (fst ex_registered)) = [''add'', ''mail'']"
  "defaultConc (fst ex_registered) = 8"
  by (simp_all add: ex_registered_def ex_register_def RegisterTask_def default_opts_def Let_def ex_task_opts_def
      ex_no_cb_def ex_server_def registerHandler_def registerQueue_def encode_simps(1) [OF ref_ext_codecs(4)]
      ir_SetTask_def DefaultQueue_def)

theorem registered_tasks_have_workers_witness:
  "count_list (Start rev (fst ex_registered)) (Consumer DefaultQueue) = 1
   \<and> count_list (Start rev (fst ex_registered)) (Processor DefaultQueue) = 8"
  using registered_tasks_have_workers [OF ex_reach ex_registered_tables(1) range_of_rev]
  by (simp add: ex_task_opts_def)

text \<open>
  C18. The concurrency of a queue never changes: a registration keeps that of every queue,
  and one that asks for another on an existing queue is refused and changes nothing. A
  concurrency left at 0 asks for the server's default, not for the queue's. (The README
  says that registering on an existing queue without a concurrency is no error.)
\<close>

theorem RegisterTask_keeps_concurrency:
  assumes "map_of (queues s) q = Some c"
    and "RegisterTask E s w name fn opts = ((s', w'), res)"
  shows "map_of (queues s') q = Some c
    \<and> (q = (if TaskQueue opts = [] then DefaultQueue else TaskQueue opts) \<longrightarrow>
       c \<noteq> (if Concurrency opts = 0 then ucast (defaultConc s) else Concurrency opts) \<longrightarrow>
       s' = s \<and> w' = w \<and>
       res = Err (ErrorString (''queue is already defined with '' @ decimal (unat c) @ '' concurrency'')))"
proof -
  have o: "TaskQueue (default_opts s opts) = (if TaskQueue opts = [] then DefaultQueue else TaskQueue opts)"
    "Concurrency (default_opts s opts) = (if Concurrency opts = 0 then ucast (defaultConc s) else Concurrency opts)"
    by (auto simp: default_opts_def Let_def)
  show ?thesis
    using RegisterTask_queue_kept [OF assms(2,1)] assms
    by (cases "map_of (queues s) (TaskQueue (default_opts s opts))")
      (auto simp: RegisterTask_def Let_def o [symmetric])
qed

theorem RegisterTask_keeps_concurrency_witness:
  "RegisterTask ref_ext (fst ex_registered) (snd ex_registered) ''div'' ex_handler (ex_task_opts ''q1'' 0)
   = (ex_registered, Err (ErrorString ''queue is already defined with 5 concurrency''))"
proof -
  obtain s' w' res where r: "RegisterTask ref_ext (fst ex_registered) (snd ex_registered) ''div'' ex_handler
      (ex_task_opts ''q1'' 0) = ((s', w'), res)"
    by (metis prod.collapse)
  have "decimal (unat (5 :: uint32)) = ''5''" by code_simp
  then show ?thesis
    using RegisterTask_keeps_concurrency [OF ex_registered_tables(2) r]
    by (simp add: ex_task_opts_def ex_registered_tables(4) r [unfolded ex_task_opts_def])
qed

section \<open>The stored metadata\<close>

lemma update_map_entries:
  "AList.update k (f k v) (map (\<lambda>(k, v). (k, f k v)) xs) = map (\<lambda>(k, v). (k, f k v)) (AList.update k v xs)"
  by (induction xs) auto

lemma registerHandler_stores:
  assumes "sresults s = inmem_results_impl ord" "codec_ok (task_codec E)"
    and "registerHandler E s w name t = ((s', w'), res)"
  shows "rtasks (rst w') = AList.update name (encode (task_codec E) (task_info_of name t)) (rtasks (rst w))"
  using assms by (auto simp: registerHandler_def Let_def encode_simps ir_SetTask_def)

lemma reg_reach_rtasks:
  assumes "reg_reach E B (inmem_results_impl ord) n w0 s w" "codec_ok (task_codec E)" "rtasks (rst w0) = []"
  shows "rtasks (rst w) = map (\<lambda>(name, t). (name, encode (task_codec E) (task_info_of name t))) (tasks s)"
  using assms(1)
proof (induction rule: reg_reach.induct)
  case (init s)
  then show ?case using assms(3) by (auto simp: NewServer_def)
next
  case (register s w name fn opts s' w' res)
  have R: "sresults s = inmem_results_impl ord" using reg_reach_inv [OF register(1)] by simp
  show ?case
    using register(2)
  proof (cases rule: RegisterTask_cases)
    case (new t)
    then show ?thesis
      using registerHandler_stores [OF _ assms(2) new(4), of ord] register.IH R
      by (simp add: registerQueue_def update_map_entries [where f = "\<lambda>n t. encode (task_codec E) (task_info_of n t)"])
  next
    case (known t)
    then show ?thesis
      using registerHandler_stores [OF R assms(2) known(4)] register.IH
      by (simp add: update_map_entries [where f = "\<lambda>n t. encode (task_codec E) (task_info_of n t)"])
  next
    case (refused conc)
    then show ?thesis using register.IH by simp
  qed
qed

lemma mset_decode_tasks:
  assumes "codec_ok (task_codec E)" "mset bs = mset (map (encode (task_codec E)) ts)"
  shows "mset (decode_tasks E bs) = mset ts"
proof -
  have eq: "decode_tasks E bs = map (\<lambda>b. projr (unmarshal (task_codec E) b)) bs"
    if "set bs \<subseteq> range (encode (task_codec E))" for bs
    using that by (induction bs) (auto simp: encode_simps [OF assms(1)])
  have "set bs \<subseteq> range (encode (task_codec E))"
    using mset_eq_setD [OF assms(2)] by auto
  then have "mset (decode_tasks E bs) = image_mset (\<lambda>b. projr (unmarshal (task_codec E) b)) (mset bs)"
    by (simp add: eq)
  also have "\<dots> = mset ts"
    by (simp add: assms(2) multiset.map_comp comp_def encode_simps [OF assms(1)])
  finally show ?thesis .
qed

text \<open>
  C19. On a server over the in-process store, \<open>GetTasks\<close> reports each registered task once,
  with its name, queue and concurrency, and nothing else, after any registrations.
\<close>

theorem GetTasks_reports_registered:
  assumes "reg_reach E B (inmem_results_impl ord) n w0 s w" "codec_ok (task_codec E)"
    and "rtasks (rst w0) = []" "range_of ord"
  shows "\<exists>infos. GetTasks E s w = Ok infos
    \<and> mset infos = mset (map (\<lambda>(name, t). task_info_of name t) (tasks s))
    \<and> distinct (map Name infos) \<and> Name ` set infos = dom (map_of (tasks s))"
proof -
  let ?infos = "map (\<lambda>(name, t). task_info_of name t) (tasks s)"
  let ?bs = "ord (map snd (rtasks (rst w)))"
  have R: "sresults s = inmem_results_impl ord" and d: "distinct (map fst (tasks s))"
    using reg_reach_inv [OF assms(1)] by (simp_all add: reg_inv_def)
  have "mset ?bs = mset (map (encode (task_codec E)) ?infos)"
    using assms(4) reg_reach_rtasks [OF assms(1-3)]
    by (simp add: range_of_def comp_def split_def)
  then have m: "mset (decode_tasks E ?bs) = mset ?infos" by (rule mset_decode_tasks [OF assms(2)])
  have names: "map Name ?infos = map fst (tasks s)"
    by (simp add: comp_def split_def task_info_of_def)
  have "mset (map Name (decode_tasks E ?bs)) = mset (map Name ?infos)"
    by (simp only: mset_map m)
  then have "distinct (map Name (decode_tasks E ?bs))" and "set (map Name (decode_tasks E ?bs)) = fst ` set (tasks s)"
    using d unfolding names by (metis mset_eq_imp_distinct_iff, metis mset_eq_setD set_map)
  then show ?thesis
    using m by (intro exI [of _ "decode_tasks E ?bs"])
      (simp add: GetTasks_def R ir_GetAllTasks_def dom_map_of_conv_image_fst)
qed

theorem GetTasks_reports_registered_witness:
  "\<exists>infos. GetTasks ref_ext (fst ex_registered) (snd ex_registered) = Ok infos
    \<and> length infos = 2 \<and> Name ` set infos = {''add'', ''mail''}"
proof -
  have "rtasks (rst im_New) = []" by (simp add: ir_New_def)
  then obtain infos where i: "GetTasks ref_ext (fst ex_registered) (snd ex_registered) = Ok infos"
    "mset infos = mset (map (\<lambda>(name, t). task_info_of name t) (tasks (fst ex_registered)))"
    "Name ` set infos = dom (map_of (tasks (fst ex_registered)))"
    using GetTasks_reports_registered [OF ex_reach ref_ext_codecs(4) _ range_of_rev] by blast
  have "fst ` set (tasks (fst ex_registered)) = {''add'', ''mail''}"
    using arg_cong [OF ex_registered_tables(3), of set] by simp
  moreover have "length infos = 2"
    using arg_cong [OF i(2), of size] arg_cong [OF ex_registered_tables(3), of length] by simp
  ultimately show ?thesis using i by (simp add: dom_map_of_conv_image_fst)
qed

section \<open>The pending jobs\<close>

text \<open>
  C20. The inspection of any queue of the in-process broker, whatever number of messages its
  pending list has (more than the channel's hundred when callers are blocked on it):
  \<open>GetPending\<close> gives the jobs in the order they were enqueued, and an error for a queue nothing
  was ever enqueued on; \<open>GetPendingCount\<close> gives their number (0 for an unknown queue);
  \<open>GetPendingWithPagination\<close>, for any two machine integers, the jobs from the offset on (a
  negative one counts as 0), at most as many as the limit (100 for a limit that is not
  positive, and never more than 10000), with the total; it does not panic. While no caller
  is inside the broker, the pending jobs are those waiting in the channel.
\<close>

theorem pending_jobs_inspected:
  fixes w :: im_world
  assumes "codec_ok (job_codec E)" "sbroker s = inmem_broker_impl"
    and "pending_of (bst w) q = map (job_bytes E) ms" "length ms < 2 ^ 63 - 10000"
  shows "GetPending E s w q =
      (if q \<in> dom (map_of (bpending (bst w))) then Ok ms
       else Err (ErrorString ''non existend queue provided''))
    \<and> GetPendingCount s w q = Ok (of_nat (length ms))
    \<and> GetPendingWithPagination E s w q offset limit =
        Ok (take (if sint limit \<le> 0 then 100 else min (nat (sint limit)) 10000)
              (drop (nat (sint offset)) ms), of_nat (length ms))
    \<and> (im_inv w \<longrightarrow> chan_of (bst w) q = map (job_bytes E) ms)"
proof -
  have "GetPendingWithPagination E s w q offset limit =
      Ok (take (page_length limit) (drop (page_start offset) ms), of_nat (length ms))"
    using assms(3,4)
    by (simp add: GetPendingWithPagination_def assms(2) ib_GetPendingWithPagination_eq
        take_map drop_map decode_jobs_bytes [OF assms(1)])
  moreover have "GetPending E s w q = (if q \<in> dom (map_of (bpending (bst w))) then Ok ms
       else Err (ErrorString ''non existend queue provided''))"
    using assms(3) by (auto simp: GetPending_def assms(2) ib_GetPending_def pending_of_def
        decode_jobs_bytes [OF assms(1)] split: option.splits)
  moreover have "GetPendingCount s w q = Ok (of_nat (length ms))"
    using arg_cong [OF assms(3), of length]
    by (auto simp: GetPendingCount_def assms(2) ib_GetPendingCount_def pending_of_def split: option.splits)
  moreover have "im_inv w \<longrightarrow> chan_of (bst w) q = map (job_bytes E) ms"
    using assms(3) by (metis im_inv_def ib_inv_def)
  ultimately show ?thesis by (simp add: page_length_def page_start_def)
qed

text \<open>A hundred and fifty jobs: a full channel and fifty callers blocked on it.\<close>

theorem pending_jobs_inspected_witness:
  "let w = im_New\<lparr>bst := ib_New\<lparr>bpending := [(''q'', replicate 150 (job_bytes ref_ext (ex_message ex_job)))]\<rparr>\<rparr> in
   GetPending ref_ext ex_server w ''q'' = Ok (replicate 150 (ex_message ex_job))
   \<and> GetPendingWithPagination ref_ext ex_server w ''q'' 20 (- 1) = Ok (replicate 100 (ex_message ex_job), 150)
   \<and> GetPendingWithPagination ref_ext ex_server w ''p'' 0 5 = Ok ([], 0)
   \<and> GetPending ref_ext ex_server w ''p'' = Err (ErrorString ''non existend queue provided'')"
proof -
  let ?w = "im_New\<lparr>bst := ib_New\<lparr>bpending :=
      [(''q'', replicate 150 (job_bytes ref_ext (ex_message ex_job)))]\<rparr>\<rparr>"
  have B: "sbroker ex_server = inmem_broker_impl" by (simp add: ex_server_def)
  have q: "pending_of (bst ?w) ''q'' = map (job_bytes ref_ext) (replicate 150 (ex_message ex_job))"
    "pending_of (bst ?w) ''p'' = map (job_bytes ref_ext) []"
    by (simp_all add: pending_of_def)
  show ?thesis
    using pending_jobs_inspected [OF ref_ext_codecs(1) B q(1), where offset = 20 and limit = "- 1"]
      pending_jobs_inspected [OF ref_ext_codecs(1) B q(2), where offset = 0 and limit = 5] by simp
qed

end
