(* ===== verification/Broker_Runs.thy ===== *)
theory Broker_Runs
  imports Tasqueue_Interfaces
begin

text \<open>
  A run of calls on a broker by one goroutine and the answers it gives: the observations
  by which the brokers are compared with an abstract one. A call that does not return, or
  panics, ends the run.
\<close>

datatype broker_call = Enq string bytes | Deq string | Inspect string

datatype broker_answer = Sent | Received "bytes option" | Listed "string list"

definition answer :: "('a \<Rightarrow> broker_answer) \<Rightarrow> 'a outcome \<Rightarrow> broker_answer outcome" where
  "answer f res = bind_ok res (\<lambda>x. Ok (f x))"

fun broker_run :: "'b broker_impl \<Rightarrow> 'b \<Rightarrow> broker_call list \<Rightarrow> broker_answer outcome list" where
  "broker_run B b [] = []"
| "broker_run B b (Enq q m # cs) =
     (case b_Enqueue B b m q of
        (b', Ok u) \<Rightarrow> Ok Sent # broker_run B b' cs
      | (b', Err e) \<Rightarrow> Err e # broker_run B b' cs
      | (b', r) \<Rightarrow> [answer (\<lambda>_. Sent) r])"
| "broker_run B b (Deq q # cs) =
     (case b_Consume B b q of
        (b', Ok m) \<Rightarrow> Ok (Received m) # broker_run B b' cs
      | (b', Err e) \<Rightarrow> Err e # broker_run B b' cs
      | (b', r) \<Rightarrow> [answer Received r])"
| "broker_run B b (Inspect q # cs) = answer Listed (b_GetPending B b q) # broker_run B b cs"

end
