(* ===== verification/InMemory_Properties.thy ===== *)
theory InMemory_Properties
  imports Job_Properties Broker_Runs
begin

text \<open>
  The properties of the in-process broker and results store as such: the broker refines
  queues that are lists, and what the store's inspection methods and \<open>DeleteJob\<close> do; then
  messages the server cannot process, and the times of a recurring job.
\<close>

section \<open>The broker refines a map of lists\<close>

text \<open>
  The runs are those of \<open>Broker_Runs\<close>. The abstract broker is a partial map from queue names
  to lists, defined for the queues something was ever sent to. A send on a queue that holds
  100 messages does not return, and the run ends there.
\<close>

fun list_run :: "nat \<Rightarrow> (string \<Rightarrow> bytes list option) \<Rightarrow> broker_call list \<Rightarrow> broker_answer outcome list" where
  "list_run cap s [] = []"
| "list_run cap s (Enq q m # cs) =
     (let xs = (case s q of None \<Rightarrow> [] | Some xs \<Rightarrow> xs) in
      if length xs < cap then Ok Sent # list_run cap (s(q \<mapsto> xs @ [m])) cs else [Diverge])"
| "list_run cap s (Deq q # cs) =
     (case s q of
        Some (m # ms) \<Rightarrow> Ok (Received (Some m)) # list_run cap (s(q \<mapsto> ms)) cs
      | _ \<Rightarrow> Ok (Received None) # list_run cap s cs)"
| "list_run cap s (Inspect q # cs) =
     (case s q of
        None \<Rightarrow> Err (ErrorString ''non existend queue provided'')
      | Some xs \<Rightarrow> Ok (Listed xs)) # list_run cap s cs"

lemma broker_run_refines:
  "ib_inv b \<Longrightarrow> broker_run inmem_broker_impl b cs = list_run chan_cap (map_of (bpending b)) cs"
proof (induction cs arbitrary: b)
  case Nil
  then show ?case by simp
next
  case (Cons c cs)
  note IHs = Cons.IH
  have chan: "chan_of b q = (case map_of (bpending b) q of None \<Rightarrow> [] | Some xs \<Rightarrow> xs)" for q
    using Cons.prems by (simp add: ib_inv_def pending_of_def)
  show ?case
  proof (cases c)
    case (Enq q m)
    show ?thesis
    proof (cases "length (chan_of b q) < chan_cap")
      case True
      define b' where "b' = fst (ib_Enqueue b m q)"
      have b': "ib_Enqueue b m q = (b', Ok ())"
        using ib_Enqueue_Ok [of b m q b' "()"] True b'_def by simp
      have inv: "ib_inv b'" using ib_Enqueue_inv [OF Cons.prems True, of m] b'_def by simp
      have pend: "map_of (bpending b') = (map_of (bpending b))(q \<mapsto> chan_of b q @ [m])"
        using Cons.prems True by (simp add: b'_def ib_Enqueue_def Let_def ib_inv_def)
      have "broker_run inmem_broker_impl b' cs = list_run chan_cap (map_of (bpending b')) cs"
        by (rule IHs [OF inv])
      then show ?thesis using b' True by (simp only: pend chan Enq) (simp add: chan)
    next
      case False
      then have "\<exists>b'. ib_Enqueue b m q = (b', Diverge)" by (simp add: ib_Enqueue_def Let_def)
      then show ?thesis using False by (auto simp: Enq chan answer_def)
    qed
  next
    case (Deq q)
    show ?thesis
    proof (cases "chan_of b q")
      case Nil
      have "ib_inv (ensure_chan b q)" using Cons.prems by (simp add: ib_inv_def)
      then show ?thesis
        using Nil Cons.IH [of "ensure_chan b q"]
        by (auto simp: Deq ib_Consume_Nil chan split: option.splits)
    next
      case (Cons d ds)
      have p: "pending_of b q = d # ds" using Cons \<open>ib_inv b\<close> by (simp add: ib_inv_def)
      define b' where "b' = fst (ib_Consume b q)"
      have b': "ib_Consume b q = (b', Ok (Some d))"
        unfolding b'_def ib_Consume_Cons [OF Cons p] by simp
      have pend: "map_of (bpending b') = (map_of (bpending b))(q \<mapsto> ds)"
        unfolding b'_def ib_Consume_Cons [OF Cons p] by simp
      have inv: "ib_inv b'" using ib_Consume_Cons_state [OF \<open>ib_inv b\<close> Cons] b' by auto
      have IH: "broker_run inmem_broker_impl b' cs = list_run chan_cap (map_of (bpending b')) cs"
        by (rule IHs [OF inv])
      obtain xs where "map_of (bpending b) q = Some xs" "xs = d # ds"
        using chan [of q] Cons by (auto split: option.splits)
      then show ?thesis using IH pend b' by (simp add: Deq)
    qed
  next
    case (Inspect q)
    then show ?thesis
      using Cons by (auto simp: ib_GetPending_def answer_def split: option.splits)
  qed
qed

text \<open>
  C21. The in-process broker, used by one goroutine at a time, answers every sequence of
  sends, receives and inspections of pending messages as a map of lists of capacity 100
  does: each queue is first in, first out, queues do not interfere, the pending list is
  the queue's content, and nothing panics.
\<close>

theorem inmem_broker_refines_lists:
  "broker_run inmem_broker_impl ib_New cs = list_run 100 (\<lambda>_. None) cs"
  using broker_run_refines [OF ib_inv_New, of cs] by (simp add: ib_New_def chan_cap_def)

section \<open>The store's inspection methods\<close>

text \<open>
  \<open>GetSuccess\<close> and \<open>GetFailed\<close> of the in-process store list the identifiers marked so,
  each once, in an order of the runtime's choice, behind as many empty strings: the code
  makes a slice of that length and then appends.
\<close>

theorem GetSuccess_lists_behind_blanks:
  fixes w :: im_world
  assumes "im_inv w" "range_of ord"
  shows "(\<exists>ids. GetSuccess (inmem_results_impl ord) w = Ok (replicate (length ids) [] @ ids)
      \<and> distinct ids \<and> set ids = ir_succ (rst w))
    \<and> (\<exists>ids. GetFailed (inmem_results_impl ord) w = Ok (replicate (length ids) [] @ ids)
      \<and> distinct ids \<and> set ids = ir_fail (rst w))"
proof -
  have "\<exists>ids. replicate (length m) [] @ ord (map fst m) = replicate (length ids) [] @ ids
      \<and> distinct ids \<and> set ids = dom (map_of m)" if "distinct (map fst m)" for m :: "(string, unit) gomap"
  proof (intro exI conjI)
    have "mset (ord (map fst m)) = mset (map fst m)" using assms(2) by (simp add: range_of_def)
    then show "distinct (ord (map fst m))" using that by (metis mset_eq_imp_distinct_iff)
    show "set (ord (map fst m)) = dom (map_of m)"
      by (simp add: range_of_set [OF assms(2)] dom_map_of_conv_image_fst)
  qed (simp add: range_of_length [OF assms(2)])
  moreover have "distinct (map fst (rsuccess (rst w)))" "distinct (map fst (rfailed (rst w)))"
    using assms(1) by (simp_all add: im_inv_def ir_inv_def)
  ultimately show ?thesis
    by (simp add: GetSuccess_def GetFailed_def ir_GetSuccess_def ir_GetFailed_def ir_succ_def ir_fail_def)
qed

definition ex_marked :: im_world where
  "ex_marked = im_New\<lparr>rst := fst (ir_SetSuccess ir_New ''a'')\<rparr>"

theorem GetSuccess_lists_behind_blanks_witness:
  "GetSuccess (inmem_results_impl rev) ex_marked = Ok [[], ''a'']
   \<and> GetFailed (inmem_results_impl rev) ex_marked = Ok []"
proof -
  have inv: "im_inv ex_marked"
    using ir_inv_step(3) [OF ir_inv_New] ib_inv_New by (simp add: im_inv_def ex_marked_def)
  have sets: "ir_succ (rst ex_marked) = {''a''}" "ir_fail (rst ex_marked) = {}"
    by (simp_all add: ex_marked_def ir_SetSuccess_def ir_New_def ir_succ_def ir_fail_def)
  obtain ids where ids: "GetSuccess (inmem_results_impl rev) ex_marked = Ok (replicate (length ids) [] @ ids)"
      "distinct ids" "set ids = {''a''}"
    using GetSuccess_lists_behind_blanks [OF inv range_of_rev] sets by metis
  then have "ids = [''a'']" by (cases ids) (auto simp: subset_singleton_iff)
  moreover obtain ids' where "GetFailed (inmem_results_impl rev) ex_marked = Ok (replicate (length ids') [] @ ids')"
      "set ids' = {}"
    using GetSuccess_lists_behind_blanks [OF inv range_of_rev] sets by metis
  ultimately show ?thesis using ids(1) by simp
qed

text \<open>
  C23. \<open>DeleteJob\<close> with a job's identifier removes the result the job has saved, and takes
  the job off the lists of successful and failed ones; but the job's message stays, so
  that \<open>GetJob\<close> still reports it with its status.
\<close>

theorem DeleteJob_keeps_message:
  fixes w :: im_world
  assumes "im_inv w" "plain_id k"
  shows "\<exists>w'. DeleteJob (inmem_results_impl ord) w k = (w', Ok ()) \<and> im_inv w'
    \<and> GetResult (inmem_results_impl ord) w' k = Err ErrNotFound
    \<and> ir_succ (rst w') = ir_succ (rst w) - {k} \<and> ir_fail (rst w') = ir_fail (rst w) - {k}
    \<and> (\<forall>i. GetJob (inmem_results_impl ord) E w' i = GetJob (inmem_results_impl ord) E w i)"
proof -
  let ?w = "w\<lparr>rst := fst (ir_DeleteJob (rst w) k)\<rparr>"
  have inv: "ir_inv (rst w)" "ir_inv (rst ?w)" "im_inv ?w"
    using assms(1) ir_inv_step(2) by (simp_all add: im_inv_def)
  have view: "ir_view (rst ?w) = (ir_view (rst w))(k := None)"
    by (simp add: ir_DeleteJob_def ir_view_def)
  have "GetResult (inmem_results_impl ord) ?w k = Err ErrNotFound"
    using im_store.GetResult_eq [OF inv(2), where ord = ord and k = k] view by simp
  moreover have "GetJob (inmem_results_impl ord) E ?w i = GetJob (inmem_results_impl ord) E w i" for i
    using plain_id_neq [OF assms(2)] view by (intro im_store.GetJob_cong [OF inv(1,2)]) simp
  moreover have "ir_succ (rst ?w) = ir_succ (rst w) - {k}" "ir_fail (rst ?w) = ir_fail (rst w) - {k}"
    by (auto simp: ir_DeleteJob_def ir_succ_def ir_fail_def split: if_splits)
  ultimately show ?thesis
    using inv(3) by (intro exI [of _ ?w]) (simp add: DeleteJob_def ir_DeleteJob_def)
qed

theorem DeleteJob_keeps_message_witness:
  "\<exists>w' m. DeleteJob (inmem_results_impl rev) (ex_world ex_job) ''a'' = (w', Ok ())
    \<and> GetJob (inmem_results_impl rev) ref_ext w' ''a'' = Ok m \<and> Status m = StatusStarted"
proof -
  have inv: "im_inv (ex_world ex_job)" by (simp add: im_inv_def ex_world_facts)
  have plain: "plain_id ''a''"
    by (simp add: plain_id_def jobPrefix_def chainPrefix_def groupPrefix_def)
  have "ir_inv (rst (ex_world ex_job))" using inv by (simp add: im_inv_def)
  then have "GetJob (inmem_results_impl rev) ref_ext (ex_world ex_job) (ID (ex_message ex_job)) =
      Ok (stamp ref_ext im_New StatusStarted (ex_message ex_job))"
    using im.enqueued_facts(3) [where w = im_New and m = "default_meta ref_ext 0 [] ex_job"
        and t = ex_job and E = ref_ext, OF im_New_facts]
    by (intro im_store.GetJob_view) (simp_all add: ex_world_def ex_message_def)
  then show ?thesis
    using DeleteJob_keeps_message [OF inv plain, where ord = rev and E = ref_ext]
    by (metis ex_message_q(2) stamp_sel(2))
qed

section \<open>Messages the server cannot process\<close>

text \<open>
  C24. A message for a task that is not registered, or bytes that are no message, are taken
  off the queue and dropped: the store keeps the status the job had, and the worker goes
  on with the rest of the queue.
\<close>

theorem unroutable_message_dropped:
  fixes w :: im_world
  assumes "im_inv w" "chan_of (bst w) q = work # rest"
    and "case unmarshal (job_codec E) work of
           Inl _ \<Rightarrow> True
         | Inr msg \<Rightarrow> (\<exists>j. MsgJob msg = Some j \<and> map_of ts (Task j) = None)"
  shows "\<exists>w'. (\<forall>sel sels. work_queue (inmem_results_impl ord) inmem_broker_impl E ts q w (sel # sels)
        = work_queue (inmem_results_impl ord) inmem_broker_impl E ts q w' sels)
    \<and> im_inv w' \<and> rst w' = rst w \<and> chan_of (bst w') = (chan_of (bst w))(q := rest)"
proof -
  let ?R = "inmem_results_impl ord"
  have inv: "ib_inv (bst w)" using assms(1) by (simp add: im_inv_def)
  obtain w1 where w1: "ib_inv (bst w1)" "chan_of (bst w1) = (chan_of (bst w))(q := rest)" "rst w1 = rst w"
    and turn: "\<And>sel sels w2 e. process_one ?R inmem_broker_impl E ts w1 work sel = (w2, Err e)
       \<Longrightarrow> work_queue ?R inmem_broker_impl E ts q w (sel # sels) = work_queue ?R inmem_broker_impl E ts q w2 sels"
    by (rule im.work_queue_turn [OF inv assms(2), where E = E and ts = ts and ord = ord]) blast
  have "\<exists>e. process_one ?R inmem_broker_impl E ts w1 work sel = (w1, Err e)" for sel
    using assms(3) by (auto simp: process_one_def getHandler_def split: sum.splits)
  then have "work_queue ?R inmem_broker_impl E ts q w (sel # sels) = work_queue ?R inmem_broker_impl E ts q w1 sels"
    for sel sels using turn by blast
  then show ?thesis
    using w1 assms(1) by (intro exI [of _ w1]) (simp add: im_inv_def)
qed

theorem unroutable_message_dropped_witness:
  "\<exists>w'. work_queue (inmem_results_impl rev) inmem_broker_impl ref_ext [] ''q'' (ex_world ex_job) [HandlerReturned] = w'
    \<and> rst w' = rst (ex_world ex_job) \<and> chan_of (bst w') ''q'' = []"
proof -
  have inv: "im_inv (ex_world ex_job)" by (simp add: im_inv_def ex_world_facts)
  have q: "chan_of (bst (ex_world ex_job)) ''q'' = [job_bytes ref_ext (ex_message ex_job)]"
    by (simp add: ex_world_facts ex_jobs)
  have none: "case unmarshal (job_codec ref_ext) (job_bytes ref_ext (ex_message ex_job)) of
      Inl _ \<Rightarrow> True | Inr msg \<Rightarrow> (\<exists>j. MsgJob msg = Some j \<and> map_of [] (Task j) = None)"
    by (simp add: job_codec_simps)
  show ?thesis
    using unroutable_message_dropped [OF inv q none, where ord = rev] by auto
qed

section \<open>Recurring jobs\<close>

text \<open>The occurrences of a scheduled job: each is the successor that its predecessor gets.\<close>

fun occurrence :: "ext \<Rightarrow> ('b, 'r) world \<Rightarrow> job \<Rightarrow> nat \<Rightarrow> job outcome" where
  "occurrence E w t 0 = snd (schedule_job E w t)"
| "occurrence E w t (Suc n) =
     bind_ok (occurrence E w t n) (\<lambda>t'. snd (schedule_job E w (last (OnSuccess t'))))"

lemma schedule_job_later:
  assumes "cron_ParseStandard E (OptSchedule (Opts t)) = Inr next" "OptSchedule (Opts t) \<noteq> []"
    and "ETA (Opts t) \<noteq> 0"
  shows "snd (schedule_job E w t) = Ok (with_OnSuccess (OnSuccess t @
    [with_Opts ((Opts (NewJob (Task t) (Payload t) (Opts t)))\<lparr>ETA := next (ETA (Opts t))\<rparr>)
       (NewJob (Task t) (Payload t) (Opts t))]) t)"
  using assms by (simp add: schedule_job_def Let_def)

text \<open>
  C25. The occurrences of a recurring job follow its schedule exactly, whenever each is
  processed: the first has the job's own ETA, or the schedule's next time from now when it
  has none, and the \<open>n\<close>-th after it the \<open>n\<close>-fold next time of that. Each carries the job's
  task, payload, queue, retries, schedule and identifier; but the jobs to run on success or
  on failure are those of the first occurrence only.
\<close>

theorem occurrences_follow_schedule:
  assumes "cron_ParseStandard E (OptSchedule (Opts t)) = Inr next" "OptSchedule (Opts t) \<noteq> []"
    and "OptQueue (Opts t) \<noteq> []" "\<And>x. 0 \<le> x \<Longrightarrow> x < next x" "0 \<le> ETA (Opts t)"
    and first: "first = (if ETA (Opts t) = 0 then next (time_Now E (now_calls w)) else ETA (Opts t))"
    and "0 \<le> time_Now E (now_calls w)"
  shows "\<exists>t'. occurrence E w t n = Ok t'
    \<and> Opts t' = (Opts t)\<lparr>ETA := (next ^^ n) first\<rparr> \<and> Task t' = Task t \<and> Payload t' = Payload t
    \<and> (\<exists>j. OnSuccess t' = (if n = 0 then OnSuccess t else []) @ [j] \<and> OnSuccess j = [] \<and> OnError j = []
         \<and> Opts j = (Opts t)\<lparr>ETA := (next ^^ Suc n) first\<rparr> \<and> Task j = Task t \<and> Payload j = Payload t)
    \<and> OnError t' = (if n = 0 then OnError t else [])"
proof -
  have pos: "0 < (next ^^ n) first" for n
  proof (induction n)
    case 0
    then show ?case using assms(4) [of "time_Now E (now_calls w)"] assms(5,7) by (auto simp: first)
  next
    case (Suc n)
    then show ?case using assms(4) [of "(next ^^ n) first"] by simp
  qed
  show ?thesis
  proof (induction n)
    case 0
    show ?case
      using assms(1-3) pos [of 0]
      by (cases "ETA (Opts t) = 0")
        (simp_all add: schedule_job_def Let_def first time_now_def NewJob_def with_OnSuccess_def with_Opts_def)
  next
    case (Suc n)
    then obtain t' j where t': "occurrence E w t n = Ok t'" and j: "last (OnSuccess t') = j"
      "OnSuccess j = []" "OnError j = []" "Opts j = (Opts t)\<lparr>ETA := (next ^^ Suc n) first\<rparr>"
      "Task j = Task t" "Payload j = Payload t" by auto
    have "snd (schedule_job E w j) = Ok (with_OnSuccess (OnSuccess j @
      [with_Opts ((Opts (NewJob (Task j) (Payload j) (Opts j)))\<lparr>ETA := next (ETA (Opts j))\<rparr>)
         (NewJob (Task j) (Payload j) (Opts j))]) j)"
      using assms(1,2) pos [of "Suc n"] by (intro schedule_job_later) (simp_all add: j)
    then show ?case
      using t' j assms(3) by (simp add: NewJob_def with_OnSuccess_def with_Opts_def)
  qed
qed

definition ex_hourly :: job where
  "ex_hourly = Job [] ''log'' ''x'' [ex_follow] (ex_opts\<lparr>OptSchedule := ''@hourly''\<rparr>)"

theorem occurrences_follow_schedule_witness:
  "\<exists>t'. occurrence ref_ext im_New ex_hourly 2 = Ok t' \<and> ETA (Opts t') = 10800000000001 \<and> OnError t' = []"
proof -
  have o: "OptSchedule (Opts ex_hourly) = ''@hourly''" "OptQueue (Opts ex_hourly) = ''q''" "ETA (Opts ex_hourly) = 0"
    by (simp_all add: ex_hourly_def ex_jobs)
  have parse: "cron_ParseStandard ref_ext (OptSchedule (Opts ex_hourly)) = Inr (\<lambda>t. t + 3600000000000)"
    by (simp add: o)
  show ?thesis
    using occurrences_follow_schedule [OF parse _ _ _ _ refl, where w = im_New and n = 2] o
    by (auto simp: numeral_2_eq_2)
qed

end
