(* ===== verification/Broker_Interleaving.thy ===== *)
theory Broker_Interleaving
  imports InMemory_Broker
begin

text \<open>
  The in-process broker used by several goroutines, \<open>brokers/in-memory/broker.go\<close>: \<open>Enqueue\<close>
  and \<open>Consume\<close> cut at their lock operations, channel operations and the send on the work
  channel. A channel is an index into the list of the channels made so far, with the name
  of the queue it was made for (which the code does not keep: a ghost); \<open>swork\<close> records what
  has been passed on to the processors. A goroutine is its program counter with its local
  variables; the schedule is a step relation over any number of them.
\<close>

datatype pc =
    ELookup bytes string
  | ECreate bytes string
  | EPending bytes string nat
  | ESend bytes string nat
  | EDone
  | CLookup string
  | CCreate string
  | CRecv string nat
  | CPop string nat bytes
  | CForward string nat bytes
  | CStopped
  | CPanicked

record shared =
  squeues :: "(string, nat) gomap"
  schans :: "(string \<times> bytes list) list"
  spending :: "(string, string list) gomap"
  swork :: "(string \<times> bytes) list"

definition s_New :: shared where
  "s_New = \<lparr>squeues = [], schans = [], spending = [], swork = []\<rparr>"

definition spending_of :: "shared \<Rightarrow> string \<Rightarrow> string list" where
  "spending_of s q = (case map_of (spending s) q of None \<Rightarrow> [] | Some p \<Rightarrow> p)"

definition make_chan :: "shared \<Rightarrow> string \<Rightarrow> shared" where
  "make_chan s q =
     s\<lparr>schans := schans s @ [(q, [])], squeues := AList.update q (length (schans s)) (squeues s)\<rparr>"

definition set_buffer :: "shared \<Rightarrow> nat \<Rightarrow> bytes list \<Rightarrow> shared" where
  "set_buffer s ch buf = s\<lparr>schans := (schans s)[ch := (fst (schans s ! ch), buf)]\<rparr>"

text \<open>One step of one goroutine: \<open>None\<close> when it is blocked or has ended.\<close>

fun thread_step :: "shared \<Rightarrow> pc \<Rightarrow> (shared \<times> pc) option" where
  "thread_step s (ELookup m q) =
     Some (s, case map_of (squeues s) q of None \<Rightarrow> ECreate m q | Some ch \<Rightarrow> EPending m q ch)"
| "thread_step s (ECreate m q) = Some (make_chan s q, EPending m q (length (schans s)))"
| "thread_step s (EPending m q ch) =
     Some (s\<lparr>spending := AList.update q (spending_of s q @ [m]) (spending s)\<rparr>, ESend m q ch)"
| "thread_step s (ESend m q ch) =
     (let buf = snd (schans s ! ch) in
      if length buf < chan_cap then Some (set_buffer s ch (buf @ [m]), EDone) else None)"
| "thread_step s (CLookup q) =
     Some (s, case map_of (squeues s) q of None \<Rightarrow> CCreate q | Some ch \<Rightarrow> CRecv q ch)"
| "thread_step s (CCreate q) = Some (make_chan s q, CRecv q (length (schans s)))"
| "thread_step s (CRecv q ch) =
     (case snd (schans s ! ch) of
        [] \<Rightarrow> None
      | d # ds \<Rightarrow> Some (set_buffer s ch ds, CPop q ch d))"
| "thread_step s (CPop q ch d) =
     (case spending_of s q of
        [] \<Rightarrow> Some (s, CPanicked)
      | _ # ps \<Rightarrow> Some (s\<lparr>spending := AList.update q ps (spending s)\<rparr>, CForward q ch d))"
| "thread_step s (CForward q ch d) = Some (s\<lparr>swork := swork s @ [(q, d)]\<rparr>, CRecv q ch)"
| "thread_step s _ = None"

inductive sys_step :: "shared \<times> pc list \<Rightarrow> shared \<times> pc list \<Rightarrow> bool" where
  run: "i < length ts \<Longrightarrow> thread_step s (ts ! i) = Some (s', p) \<Longrightarrow> sys_step (s, ts) (s', ts[i := p])"
| stop: "i < length ts \<Longrightarrow> ts ! i = CRecv q ch \<Longrightarrow> sys_step (s, ts) (s, ts[i := CStopped])"

text \<open>A schedule, given as the goroutines that run, in order.\<close>

fun run_sched :: "shared \<times> pc list \<Rightarrow> nat list \<Rightarrow> (shared \<times> pc list) option" where
  "run_sched st [] = Some st"
| "run_sched (s, ts) (i # is) =
     (if i < length ts then
        (case thread_step s (ts ! i) of
           None \<Rightarrow> None
         | Some (s', p) \<Rightarrow> run_sched (s', ts[i := p]) is)
      else None)"

lemma run_sched_reach: "run_sched st is = Some st' \<Longrightarrow> sys_step\<^sup>*\<^sup>* st st'"
proof (induction st "is" rule: run_sched.induct)
  case (1 st)
  then show ?case by simp
next
  case (2 s ts i "is")
  then obtain s' p where p: "i < length ts" "thread_step s (ts ! i) = Some (s', p)"
    "run_sched (s', ts[i := p]) is = Some st'"
    by (auto split: if_splits option.splits)
  have "sys_step (s, ts) (s', ts[i := p])" using p by (intro sys_step.run)
  moreover have "sys_step\<^sup>*\<^sup>* (s', ts[i := p]) st'" using 2 p by simp
  ultimately show ?case by (rule converse_rtranclp_into_rtranclp)
qed

section \<open>The pending list counts what is on its way\<close>

text \<open>
  A message counts as pending from the append to its queue's list to the removal of the
  list's head: while its producer is about to send, while it is in a channel, and while
  its consumer is about to remove the head.
\<close>

fun on_way :: "string \<Rightarrow> pc \<Rightarrow> nat" where
  "on_way q (ESend m q' ch) = (if q' = q then 1 else 0)"
| "on_way q (CPop q' ch d) = (if q' = q then 1 else 0)"
| "on_way q _ = 0"

definition buffered :: "string \<Rightarrow> (string \<times> bytes list) list \<Rightarrow> nat" where
  "buffered q chs = sum_list (map (\<lambda>(q', buf). if q' = q then length buf else 0) chs)"

definition in_flight :: "string \<Rightarrow> shared \<times> pc list \<Rightarrow> nat" where
  "in_flight q st = buffered q (schans (fst st)) + sum_list (map (on_way q) (snd st))"

text \<open>The channel a goroutine holds exists and was made for its queue.\<close>

definition holds :: "shared \<Rightarrow> string \<Rightarrow> nat \<Rightarrow> bool" where
  "holds s q ch \<longleftrightarrow> ch < length (schans s) \<and> fst (schans s ! ch) = q"

fun pc_ok :: "shared \<Rightarrow> pc \<Rightarrow> bool" where
  "pc_ok s (EPending m q ch) = holds s q ch"
| "pc_ok s (ESend m q ch) = holds s q ch"
| "pc_ok s (CRecv q ch) = holds s q ch"
| "pc_ok s (CPop q ch d) = holds s q ch"
| "pc_ok s (CForward q ch d) = holds s q ch"
| "pc_ok s CPanicked = False"
| "pc_ok s _ = True"

definition sys_inv :: "shared \<times> pc list \<Rightarrow> bool" where
  "sys_inv st \<longleftrightarrow>
     (\<forall>q ch. map_of (squeues (fst st)) q = Some ch \<longrightarrow> holds (fst st) q ch)
   \<and> (\<forall>p\<in>set (snd st). pc_ok (fst st) p)
   \<and> (\<forall>q. length (spending_of (fst st) q) = in_flight q st)"

lemma spending_of_simps [simp]:
  "spending_of (s\<lparr>spending := AList.update q' p (spending s)\<rparr>) q = (if q = q' then p else spending_of s q)"
  "spending_of (make_chan s q') q = spending_of s q" "spending_of (set_buffer s ch buf) q = spending_of s q"
  "spending_of (s\<lparr>swork := x\<rparr>) q = spending_of s q"
  by (simp_all add: spending_of_def make_chan_def set_buffer_def)

lemma fst_nth_update [simp]: "fst (xs[k := (fst (xs ! k), b)] ! i) = fst (xs ! i)"
  by (cases "i = k \<and> k < length xs") (auto simp: nth_list_update list_update_beyond)

lemma holds_simps [simp]:
  "holds s q ch \<Longrightarrow> holds (make_chan s q') q ch" "holds (make_chan s q) q (length (schans s))"
  "holds (set_buffer s ch' buf) q ch = holds s q ch"
  "holds (s\<lparr>spending := x\<rparr>) q ch = holds s q ch" "holds (s\<lparr>swork := y\<rparr>) q ch = holds s q ch"
  by (auto simp: holds_def make_chan_def set_buffer_def nth_append)

lemma pc_ok_mono:
  "pc_ok s p \<Longrightarrow> pc_ok (make_chan s q) p" "pc_ok (set_buffer s ch buf) p = pc_ok s p"
  "pc_ok (s\<lparr>spending := x\<rparr>) p = pc_ok s p" "pc_ok (s\<lparr>swork := y\<rparr>) p = pc_ok s p"
  by (cases p; simp)+

lemma buffered_simps [simp]:
  "schans (s\<lparr>spending := x\<rparr>) = schans s" "schans (s\<lparr>swork := y\<rparr>) = schans s"
  "buffered q (schans (make_chan s q')) = buffered q (schans s)"
  by (simp_all add: buffered_def make_chan_def)

lemma sum_list_upd:
  fixes f :: "'a \<Rightarrow> nat"
  assumes "i < length xs"
  shows "sum_list (map f (xs[i := x])) + f (xs ! i) = sum_list (map f xs) + f x"
proof -
  have "f (xs ! i) \<le> sum_list (map f xs)"
    using assms elem_le_sum_list [of i "map f xs"] by simp
  then show ?thesis
    using assms by (simp add: map_update sum_list_update)
qed

lemma buffered_set:
  assumes "holds s q ch"
  shows "buffered q' (schans (set_buffer s ch buf)) + (if q = q' then length (snd (schans s ! ch)) else 0)
     = buffered q' (schans s) + (if q = q' then length buf else 0)"
  using sum_list_upd [of ch "schans s" "\<lambda>(q'', buf). if q'' = q' then length buf else 0" "(q, buf)"] assms
  by (cases "schans s ! ch") (auto simp: buffered_def set_buffer_def holds_def)

lemma squeues_make_chan [simp]:
  "map_of (squeues (make_chan s q)) = (map_of (squeues s))(q \<mapsto> length (schans s))"
  by (simp add: make_chan_def)

text \<open>Each step of a goroutine keeps the balance and the channels.\<close>

definition step_ok :: "shared \<Rightarrow> pc \<Rightarrow> shared \<Rightarrow> pc \<Rightarrow> bool" where
  "step_ok s p s' p' \<longleftrightarrow> pc_ok s' p' \<and> (\<forall>p. pc_ok s p \<longrightarrow> pc_ok s' p)
     \<and> (\<forall>q ch. map_of (squeues s') q = Some ch \<longrightarrow> holds s' q ch)
     \<and> (\<forall>q. length (spending_of s' q) + buffered q (schans s) + on_way q p
           = length (spending_of s q) + buffered q (schans s') + on_way q p')"

lemma thread_step_ok:
  assumes "thread_step s p = Some (s', p')" "pc_ok s p"
    and "\<And>q ch. map_of (squeues s) q = Some ch \<Longrightarrow> holds s q ch"
    and "\<And>q. on_way q p \<le> length (spending_of s q)"
  shows "step_ok s p s' p'"
proof (cases p)
  case (ESend m q ch)
  let ?buf = "snd (schans s ! ch)"
  have s': "s' = set_buffer s ch (?buf @ [m])" "p' = EDone" and h: "holds s q ch"
    using assms(1,2) by (auto simp: ESend Let_def split: if_splits)
  have "buffered q' (schans s') = buffered q' (schans s) + (if q = q' then 1 else 0)" for q'
    using buffered_set [OF h, of q' "?buf @ [m]"] by (auto simp: s')
  then show ?thesis
    using assms(3) by (auto simp: step_ok_def ESend s' pc_ok_mono) (simp add: set_buffer_def)
next
  case (CRecv q ch)
  then obtain d ds where d: "snd (schans s ! ch) = d # ds" "s' = set_buffer s ch ds" "p' = CPop q ch d"
      and h: "holds s q ch"
    using assms(1,2) by (auto split: list.splits)
  have "buffered q' (schans s') + (if q = q' then 1 else 0) = buffered q' (schans s)" for q'
    using buffered_set [OF h, of q' ds] by (auto simp: d split: if_splits)
  then show ?thesis
    using assms(3) h by (auto simp: step_ok_def CRecv d pc_ok_mono) (simp add: set_buffer_def)
next
  case (CPop q ch d)
  then obtain x ps where "spending_of s q = x # ps"
    using assms(4) [of q] by (cases "spending_of s q") auto
  then show ?thesis
    using assms by (auto simp: step_ok_def CPop pc_ok_mono)
qed (use assms in \<open>auto simp: step_ok_def pc_ok_mono split: option.splits if_splits\<close>)

lemma on_way_le:
  assumes "sys_inv (s, ts)" "i < length ts"
  shows "on_way q (ts ! i) \<le> length (spending_of s q)"
  using assms elem_le_sum_list [of i "map (on_way q) ts"] by (simp add: sys_inv_def in_flight_def)

lemma sys_step_inv: "sys_step st st' \<Longrightarrow> sys_inv st \<Longrightarrow> sys_inv st'"
proof (induction rule: sys_step.induct)
  case (run i ts s s' p)
  have pcs: "\<And>p. p \<in> set ts \<Longrightarrow> pc_ok s p" using run.prems by (simp add: sys_inv_def)
  have ok: "step_ok s (ts ! i) s' p"
    using run on_way_le [OF run.prems run.hyps(1)]
    by (intro thread_step_ok) (auto simp: sys_inv_def)
  have "pc_ok s' p'" if "p' \<in> set (ts[i := p])" for p'
    using that ok pcs set_update_subset_insert [of ts i p] by (auto simp: step_ok_def)
  moreover have "length (spending_of s' q) = in_flight q (s', ts[i := p])" for q
  proof -
    have "length (spending_of s' q) + buffered q (schans s) + on_way q (ts ! i)
        = length (spending_of s q) + buffered q (schans s') + on_way q p"
      using ok by (simp add: step_ok_def)
    moreover have "length (spending_of s q) = buffered q (schans s) + sum_list (map (on_way q) ts)"
      using run.prems by (simp add: sys_inv_def in_flight_def)
    ultimately show ?thesis
      using sum_list_upd [OF run.hyps(1), of "on_way q" p] by (simp add: in_flight_def)
  qed
  ultimately show ?case using ok by (simp add: sys_inv_def step_ok_def)
next
  case (stop i ts q ch s)
  have "pc_ok s p'" if "p' \<in> set (ts[i := CStopped])" for p'
    using that stop.prems set_update_subset_insert [of ts i CStopped] by (auto simp: sys_inv_def)
  moreover have "sum_list (map (on_way q') (ts[i := CStopped])) = sum_list (map (on_way q') ts)" for q'
    using sum_list_upd [OF stop.hyps(1), of "on_way q'" CStopped] stop.hyps(2) by simp
  ultimately show ?case using stop.prems by (simp add: sys_inv_def in_flight_def)
qed

lemma sys_reach_inv: "sys_step\<^sup>*\<^sup>* st st' \<Longrightarrow> sys_inv st \<Longrightarrow> sys_inv st'"
  by (induction rule: rtranclp_induct) (auto intro: sys_step_inv)

text \<open>Goroutines about to call \<open>Enqueue\<close> or \<open>Consume\<close> on a new broker.\<close>

fun fresh :: "pc \<Rightarrow> bool" where
  "fresh (ELookup m q) = True"
| "fresh (CLookup q) = True"
| "fresh _ = False"

lemma fresh_simps: "fresh p \<Longrightarrow> on_way q p = 0" "fresh p \<Longrightarrow> pc_ok s p"
  by (cases p; simp)+

lemma sys_inv_New: "(\<And>p. p \<in> set ts \<Longrightarrow> fresh p) \<Longrightarrow> sys_inv (s_New, ts)"
  by (auto simp: sys_inv_def s_New_def in_flight_def spending_of_def buffered_def fresh_simps)

section \<open>Channels nobody looks at\<close>

text \<open>
  A channel that no queue leads to and no goroutine holds keeps its content for ever.
\<close>

fun pc_chan :: "pc \<Rightarrow> nat option" where
  "pc_chan (EPending m q ch) = Some ch"
| "pc_chan (ESend m q ch) = Some ch"
| "pc_chan (CRecv q ch) = Some ch"
| "pc_chan (CPop q ch d) = Some ch"
| "pc_chan (CForward q ch d) = Some ch"
| "pc_chan _ = None"

definition orphan :: "nat \<Rightarrow> string \<times> bytes list \<Rightarrow> shared \<times> pc list \<Rightarrow> bool" where
  "orphan ch content st \<longleftrightarrow>
     ch < length (schans (fst st)) \<and> schans (fst st) ! ch = content
   \<and> (\<forall>q. map_of (squeues (fst st)) q \<noteq> Some ch) \<and> (\<forall>p\<in>set (snd st). pc_chan p \<noteq> Some ch)"

lemma thread_step_orphan:
  assumes "thread_step s p = Some (s', p')" "pc_chan p \<noteq> Some ch"
    and "ch < length (schans s)" "schans s ! ch = content" "\<forall>q. map_of (squeues s) q \<noteq> Some ch"
  shows "ch < length (schans s') \<and> schans s' ! ch = content
    \<and> (\<forall>q. map_of (squeues s') q \<noteq> Some ch) \<and> pc_chan p' \<noteq> Some ch"
  using assms
  by (cases p)
    (auto simp: make_chan_def set_buffer_def nth_append nth_list_update Let_def
      split: option.splits if_splits list.splits)

lemma sys_step_orphan: "sys_step st st' \<Longrightarrow> orphan ch content st \<Longrightarrow> orphan ch content st'"
proof (induction rule: sys_step.induct)
  case (run i ts s s' p)
  have "ts ! i \<in> set ts" using run.hyps(1) by simp
  then have "ch < length (schans s') \<and> schans s' ! ch = content
      \<and> (\<forall>q. map_of (squeues s') q \<noteq> Some ch) \<and> pc_chan p \<noteq> Some ch"
    using run by (intro thread_step_orphan [OF run.hyps(2)]) (auto simp: orphan_def)
  then show ?case
    using run.prems set_update_subset_insert [of ts i p] by (auto simp: orphan_def)
next
  case (stop i ts q ch' s)
  then show ?case
    using set_update_subset_insert [of ts i CStopped] by (auto simp: orphan_def)
qed

lemma sys_reach_orphan: "sys_step\<^sup>*\<^sup>* st st' \<Longrightarrow> orphan ch content st \<Longrightarrow> orphan ch content st'"
  by (induction rule: rtranclp_induct) (auto intro: sys_step_orphan)

section \<open>Properties\<close>

text \<open>
  C26. Whatever the number of goroutines and their schedule, removing the head of a pending
  list never panics, and the length of a queue's pending list is the number of its
  messages on their way: those in channels made for the queue, those about to be sent, and
  those received but not yet removed.
\<close>

theorem pending_counts_messages_on_way:
  assumes "\<And>p. p \<in> set ts \<Longrightarrow> fresh p" "sys_step\<^sup>*\<^sup>* (s_New, ts) (s', ts')"
  shows "CPanicked \<notin> set ts' \<and> length (spending_of s' q) =
    sum_list (map (\<lambda>(q', buf). if q' = q then length buf else 0) (schans s'))
    + length (filter (\<lambda>p. \<exists>m ch. p = ESend m q ch) ts') + length (filter (\<lambda>p. \<exists>ch d. p = CPop q ch d) ts')"
proof -
  have inv: "sys_inv (s', ts')" using sys_reach_inv [OF assms(2)] sys_inv_New assms(1) by blast
  have "on_way q p = (if \<exists>m ch. p = ESend m q ch then 1 else 0) + (if \<exists>ch d. p = CPop q ch d then 1 else 0)" for p
    by (cases p) auto
  then have "sum_list (map (on_way q) ts') = length (filter (\<lambda>p. \<exists>m ch. p = ESend m q ch) ts')
      + length (filter (\<lambda>p. \<exists>ch d. p = CPop q ch d) ts')" for ts'
    by (induction ts') auto
  moreover have "CPanicked \<notin> set ts'" using inv by (auto simp: sys_inv_def)
  ultimately show ?thesis
    using inv by (simp add: sys_inv_def in_flight_def buffered_def)
qed

definition ex_race :: "pc list" where
  "ex_race = [ELookup ''m'' ''q'', CLookup ''q'']"

definition ex_race_state :: "shared \<times> pc list" where
  "ex_race_state = the (run_sched (s_New, ex_race) [0, 1, 0, 1, 0, 0])"

lemma ex_race_run: "run_sched (s_New, ex_race) [0, 1, 0, 1, 0, 0] = Some ex_race_state"
  "fst ex_race_state = \<lparr>squeues = [(''q'', 1)], schans = [(''q'', [''m'']), (''q'', [])],
     spending = [(''q'', [''m''])], swork = []\<rparr>"
  "snd ex_race_state = [EDone, CRecv ''q'' 1]"
  by (simp_all add: ex_race_state_def ex_race_def s_New_def make_chan_def set_buffer_def spending_of_def chan_cap_def)

theorem pending_counts_messages_on_way_witness:
  "length (spending_of (fst ex_race_state) ''q'') = 1"
proof -
  have "sys_step\<^sup>*\<^sup>* (s_New, ex_race) (fst ex_race_state, snd ex_race_state)"
    using run_sched_reach [OF ex_race_run(1)] by simp
  moreover have "fresh p" if "p \<in> set ex_race" for p using that by (auto simp: ex_race_def)
  ultimately show ?thesis
    using pending_counts_messages_on_way [of ex_race "fst ex_race_state" "snd ex_race_state" "''q''"]
    by (simp add: ex_race_run)
qed

text \<open>
  C27. A producer and a consumer that meet on a new queue can lose a message, whatever other
  goroutines there are: both find no channel and make one each, the consumer's replaces
  the producer's, and the message is sent to the channel that nothing refers to any more.
  \<open>Enqueue\<close> has then returned without an error, and in every later state the message is
  still in that channel, which no queue leads to and no goroutine holds.
\<close>

theorem racing_enqueue_loses_message:
  assumes "\<And>p. p \<in> set others \<Longrightarrow> fresh p"
  shows "\<exists>st. sys_step\<^sup>*\<^sup>* (s_New, [ELookup m q, CLookup q] @ others) st
    \<and> snd st = [EDone, CRecv q 1] @ others \<and> spending_of (fst st) q = [m]
    \<and> (\<forall>st'. sys_step\<^sup>*\<^sup>* st st' \<longrightarrow>
         schans (fst st') ! 0 = (q, [m]) \<and> (\<forall>q'. map_of (squeues (fst st')) q' \<noteq> Some 0)
         \<and> (\<forall>p\<in>set (snd st'). pc_chan p \<noteq> Some 0))"
proof -
  let ?s = "\<lparr>squeues = [(q, 1)], schans = [(q, [m]), (q, [])], spending = [(q, [m])], swork = []\<rparr>"
  let ?st = "(?s, [EDone, CRecv q 1] @ others)"
  have run: "run_sched (s_New, [ELookup m q, CLookup q] @ others) [0, 1, 0, 1, 0, 0] = Some ?st"
    by (simp add: s_New_def make_chan_def set_buffer_def spending_of_def chan_cap_def)
  have "pc_chan p \<noteq> Some 0" if "fresh p" for p using that by (cases p) auto
  then have "orphan 0 (q, [m]) ?st" using assms by (auto simp: orphan_def)
  then have "orphan 0 (q, [m]) st'" if "sys_step\<^sup>*\<^sup>* ?st st'" for st'
    using sys_reach_orphan [OF that] by blast
  then show ?thesis
    using run_sched_reach [OF run] by (intro exI [of _ ?st]) (simp add: orphan_def spending_of_def)
qed

theorem racing_enqueue_loses_message_witness:
  "\<exists>st. sys_step\<^sup>*\<^sup>* (s_New, [ELookup ''m'' ''q'', CLookup ''q'', CLookup ''q'', ELookup ''n'' ''q'']) st
    \<and> schans (fst st) ! 0 = (''q'', [''m''])"
proof -
  have "fresh p" if "p \<in> set [CLookup ''q'', ELookup ''n'' ''q'']" for p using that by auto
  from racing_enqueue_loses_message [OF this, of "[CLookup ''q'', ELookup ''n'' ''q'']" "''m''" "''q''"]
  show ?thesis by auto
qed

text \<open>
  Two producers on a queue can leave the list of pending messages out of step with the
  channel: the list has the messages in the order of the appends, the channel in that of
  the sends. After the consumer has taken the first message off the channel, the list no
  longer names the message still queued, but the one passed on.
\<close>

theorem pending_list_out_of_step:
  "\<exists>st. sys_step\<^sup>*\<^sup>* (s_New, [ELookup m q, ELookup n q, CLookup q]) st
    \<and> swork (fst st) = [(q, n)] \<and> spending_of (fst st) q = [n]
    \<and> map_of (squeues (fst st)) q = Some 0 \<and> schans (fst st) ! 0 = (q, [m])"
proof -
  let ?s = "\<lparr>squeues = [(q, 0)], schans = [(q, [m])], spending = [(q, [n])], swork = [(q, n)]\<rparr>"
  have "run_sched (s_New, [ELookup m q, ELookup n q, CLookup q]) [0, 0, 0, 1, 1, 1, 0, 2, 2, 2, 2] =
      Some (?s, [EDone, EDone, CRecv q 0])"
    by (simp add: s_New_def make_chan_def set_buffer_def spending_of_def chan_cap_def)
  from run_sched_reach [OF this] show ?thesis
    by (intro exI [of _ "(?s, [EDone, EDone, CRecv q 0])"]) (simp add: spending_of_def)
qed

end
