(* ===== verification/Chain_Heap.thy ===== *)
theory Chain_Heap
  imports Chains
begin

text \<open>
  The loop of \<open>NewChain\<close> (\<open>chains.go\<close>) over an explicit memory. A \<open>Job\<close> in memory holds
  slices of pointers to its successors; a slice is a window on a backing array, which other
  slices may share, and \<open>append\<close> writes to it in place while there is capacity. The loop
  appends to each job's \<open>OnSuccess\<close> the address of the next job of the caller's slice, so
  that a link refers to that job and not to a copy of it. The theorems relate the memory
  first to cells with lists of addresses, then to the nested values of type \<open>job\<close> that the
  other theories work with.
\<close>

section \<open>Cells and the jobs they denote\<close>

record job_cell =
  c_OnSuccess :: "nat list"
  c_Task :: string
  c_Payload :: bytes
  c_OnError :: "nat list"
  c_Opts :: job_opts

type_synonym heap = "nat \<Rightarrow> job_cell option"

text \<open>\<open>denotes h a t\<close>: the cells reachable from the address \<open>a\<close> make up the job \<open>t\<close>.\<close>

inductive denotes :: "heap \<Rightarrow> nat \<Rightarrow> job \<Rightarrow> bool" for h where
  cell: "h a = Some c \<Longrightarrow> list_all2 (denotes h) (c_OnSuccess c) ss \<Longrightarrow> list_all2 (denotes h) (c_OnError c) es
    \<Longrightarrow> denotes h a (Job ss (c_Task c) (c_Payload c) es (c_Opts c))"
  monos list.rel_mono_strong

definition append_succ :: "nat \<Rightarrow> job_cell \<Rightarrow> job_cell" where
  "append_succ a c = c\<lparr>c_OnSuccess := c_OnSuccess c @ [a]\<rparr>"

text \<open>
  What the loop does to the cells, from the index \<open>i\<close>, with \<open>k\<close> turns left, over the jobs
  that start at \<open>base\<close>, when no two slices share a backing array that has room.
\<close>

fun link_loop :: "heap \<Rightarrow> nat \<Rightarrow> nat \<Rightarrow> nat \<Rightarrow> heap" where
  "link_loop h base i 0 = h"
| "link_loop h base i (Suc k) =
     link_loop (h(base + i := map_option (append_succ (base + i + 1)) (h (base + i)))) base (Suc i) k"

lemma link_loop_cell:
  "link_loop h base i k a =
     (if base + i \<le> a \<and> a < base + i + k then map_option (append_succ (a + 1)) (h a) else h a)"
  by (induction k arbitrary: h i) auto

text \<open>A job is denoted in every larger heap.\<close>

lemma denotes_mono: "denotes h a t \<Longrightarrow> h \<subseteq>\<^sub>m h' \<Longrightarrow> denotes h' a t"
proof (induction rule: denotes.induct)
  case (cell a c ss es)
  then have "h' a = Some c" by (metis domI map_le_def)
  moreover have "list_all2 (denotes h') (c_OnSuccess c) ss" "list_all2 (denotes h') (c_OnError c) es"
    using cell by (auto elim!: list_all2_mono)
  ultimately show ?case by (rule denotes.cell)
qed

text \<open>
  A slice of jobs whose cells point only to cells outside the slice: the jobs as the caller
  has built them.
\<close>

definition slice_of :: "heap \<Rightarrow> nat \<Rightarrow> job list \<Rightarrow> bool" where
  "slice_of h base js \<longleftrightarrow>
     (\<forall>i<length js. \<exists>c. h (base + i) = Some c \<and> c_Task c = Task (js ! i) \<and> c_Payload c = Payload (js ! i)
        \<and> c_Opts c = Opts (js ! i)
        \<and> list_all2 (denotes (h |` (- {base..<base + length js}))) (c_OnSuccess c) (OnSuccess (js ! i))
        \<and> list_all2 (denotes (h |` (- {base..<base + length js}))) (c_OnError c) (OnError (js ! i)))"

lemma slice_ofE:
  assumes "slice_of h base js" "i < length js"
  obtains c where "h (base + i) = Some c" "c_Task c = Task (js ! i)" "c_Payload c = Payload (js ! i)"
    "c_Opts c = Opts (js ! i)"
    "list_all2 (denotes (h |` (- {base..<base + length js}))) (c_OnSuccess c) (OnSuccess (js ! i))"
    "list_all2 (denotes (h |` (- {base..<base + length js}))) (c_OnError c) (OnError (js ! i))"
  using assms unfolding slice_of_def by blast

lemma job_eq: "Job (OnSuccess t) (Task t) (Payload t) (OnError t) (Opts t) = t"
  by (cases t) simp

lemma outside_le_linked: "h |` (- {base..<base + n}) \<subseteq>\<^sub>m link_loop h base 0 (n - 1)"
  by (auto simp: map_le_def link_loop_cell restrict_map_def)

lemma linked_denotes:
  assumes "slice_of h base js" "i < length js"
  shows "denotes (link_loop h base 0 (length js - 1)) (base + i) (link_jobs js ! i)"
  using assms(2)
proof (induction "length js - i" arbitrary: i)
  case 0
  then show ?case by simp
next
  case (Suc k)
  let ?h = "link_loop h base 0 (length js - 1)"
  obtain c where c: "h (base + i) = Some c" "c_Task c = Task (js ! i)" "c_Payload c = Payload (js ! i)"
    "c_Opts c = Opts (js ! i)"
    and "list_all2 (denotes (h |` (- {base..<base + length js}))) (c_OnSuccess c) (OnSuccess (js ! i))"
    "list_all2 (denotes (h |` (- {base..<base + length js}))) (c_OnError c) (OnError (js ! i))"
    by (rule slice_ofE [OF assms(1) Suc.prems])
  then have succ: "list_all2 (denotes ?h) (c_OnSuccess c) (OnSuccess (js ! i))"
    and err: "list_all2 (denotes ?h) (c_OnError c) (OnError (js ! i))"
    using denotes_mono [OF _ outside_le_linked [of h base "length js"]] by (auto elim: list_all2_mono)
  show ?case
  proof (cases "Suc i < length js")
    case True
    have "denotes ?h (base + Suc i) (link_jobs js ! Suc i)"
      using Suc.hyps True by (intro Suc.hyps(1)) simp_all
    then have "list_all2 (denotes ?h) (c_OnSuccess c @ [base + i + 1]) (OnSuccess (js ! i) @ [link_jobs js ! Suc i])"
      using succ by (simp add: list_all2_appendI)
    moreover have "?h (base + i) = Some (append_succ (base + i + 1) c)"
      using c(1) True by (simp add: link_loop_cell)
    ultimately show ?thesis
      using denotes.cell [of ?h "base + i" "append_succ (base + i + 1) c"] err c True
      by (simp add: append_succ_def nth_link_jobs with_OnSuccess_def)
  next
    case False
    then have "?h (base + i) = Some c" using c(1) Suc.prems by (simp add: link_loop_cell)
    then show ?thesis
      using denotes.cell [of ?h "base + i" c, OF _ succ err] c False Suc.prems
      by (simp add: nth_link_jobs job_eq)
  qed
qed

section \<open>Slices\<close>

text \<open>
  \<open>slice\<close> is Go's slice header. \<open>spare\<close> is the growth of \<open>append\<close> beyond the one element it
  needs, as a function of the length, which the language leaves to the implementation.
\<close>

record slice =
  s_arr :: nat
  s_off :: nat
  s_len :: nat
  s_cap :: nat

record job_struct =
  f_OnSuccess :: slice
  f_Task :: string
  f_Payload :: bytes
  f_OnError :: slice
  f_Opts :: job_opts

record memory =
  arrays :: "nat list list"
  jobs_at :: "nat \<Rightarrow> job_struct option"

definition elems :: "memory \<Rightarrow> slice \<Rightarrow> nat list" where
  "elems m s = take (s_len s) (drop (s_off s) (arrays m ! s_arr s))"

definition go_append :: "(nat \<Rightarrow> nat) \<Rightarrow> memory \<Rightarrow> slice \<Rightarrow> nat \<Rightarrow> memory \<times> slice" where
  "go_append spare m s x =
     (if s_len s < s_cap s
      then (m\<lparr>arrays := (arrays m)[s_arr s := (arrays m ! s_arr s)[s_off s + s_len s := x]]\<rparr>,
            s\<lparr>s_len := Suc (s_len s)\<rparr>)
      else (m\<lparr>arrays := arrays m @ [elems m s @ x # replicate (spare (s_len s)) 0]\<rparr>,
            \<lparr>s_arr = length (arrays m), s_off = 0, s_len = Suc (s_len s),
             s_cap = Suc (s_len s) + spare (s_len s)\<rparr>))"

definition link_turn :: "(nat \<Rightarrow> nat) \<Rightarrow> memory \<Rightarrow> nat \<Rightarrow> memory" where
  "link_turn spare m a =
     (case jobs_at m a of
        None \<Rightarrow> m
      | Some c \<Rightarrow>
         (let (m, s) = go_append spare m (f_OnSuccess c) (a + 1)
          in m\<lparr>jobs_at := (jobs_at m)(a \<mapsto> c\<lparr>f_OnSuccess := s\<rparr>)\<rparr>))"

fun link_slices :: "(nat \<Rightarrow> nat) \<Rightarrow> memory \<Rightarrow> nat \<Rightarrow> nat \<Rightarrow> nat \<Rightarrow> memory" where
  "link_slices spare m base i 0 = m"
| "link_slices spare m base i (Suc k) = link_slices spare (link_turn spare m (base + i)) base (Suc i) k"

definition NewChain_heap :: "(nat \<Rightarrow> nat) \<Rightarrow> memory \<Rightarrow> nat \<Rightarrow> nat \<Rightarrow> memory \<times> (nat \<times> nat) outcome" where
  "NewChain_heap spare m base n =
     (if n < 2 then (m, Err (ErrorString ''minimum 2 tasks required to form chain''))
      else (link_slices spare m base 0 (n - 1), Ok (base, n)))"

text \<open>The cells of a memory: each slice read.\<close>

definition cell_of :: "memory \<Rightarrow> job_struct \<Rightarrow> job_cell" where
  "cell_of m c = \<lparr>c_OnSuccess = elems m (f_OnSuccess c), c_Task = f_Task c, c_Payload = f_Payload c,
     c_OnError = elems m (f_OnError c), c_Opts = f_Opts c\<rparr>"

definition cells :: "memory \<Rightarrow> heap" where
  "cells m a = map_option (cell_of m) (jobs_at m a)"

text \<open>
  Slices within their arrays; and a job whose \<open>OnSuccess\<close> has room to append in place and
  shares its array with no other slice.
\<close>

definition slice_ok :: "memory \<Rightarrow> slice \<Rightarrow> bool" where
  "slice_ok m s \<longleftrightarrow> s_len s \<le> s_cap s
     \<and> (s_cap s \<noteq> 0 \<longrightarrow> s_arr s < length (arrays m) \<and> s_off s + s_cap s \<le> length (arrays m ! s_arr s))"

definition memory_ok :: "memory \<Rightarrow> bool" where
  "memory_ok m \<longleftrightarrow> (\<forall>a c. jobs_at m a = Some c \<longrightarrow> slice_ok m (f_OnSuccess c) \<and> slice_ok m (f_OnError c))"

definition own_array :: "memory \<Rightarrow> nat \<Rightarrow> bool" where
  "own_array m a \<longleftrightarrow> (\<forall>c. jobs_at m a = Some c \<longrightarrow> s_len (f_OnSuccess c) < s_cap (f_OnSuccess c) \<longrightarrow>
     (\<forall>b d. jobs_at m b = Some d \<longrightarrow>
        (s_cap (f_OnError d) \<noteq> 0 \<longrightarrow> s_arr (f_OnError d) \<noteq> s_arr (f_OnSuccess c))
        \<and> (b \<noteq> a \<longrightarrow> s_cap (f_OnSuccess d) \<noteq> 0 \<longrightarrow> s_arr (f_OnSuccess d) \<noteq> s_arr (f_OnSuccess c))))"

lemma elems_empty [simp]: "s_cap s = 0 \<Longrightarrow> slice_ok m s \<Longrightarrow> elems m s = []"
  by (simp add: elems_def slice_ok_def)

lemma memory_okD:
  "memory_ok m \<Longrightarrow> jobs_at m a = Some c \<Longrightarrow> slice_ok m (f_OnSuccess c)"
  "memory_ok m \<Longrightarrow> jobs_at m a = Some c \<Longrightarrow> slice_ok m (f_OnError c)"
  by (auto simp: memory_ok_def)

lemma elems_new:
  "length es = n \<Longrightarrow> elems (m\<lparr>arrays := arrays m @ [es @ x # r]\<rparr>)
     \<lparr>s_arr = length (arrays m), s_off = 0, s_len = Suc n, s_cap = c\<rparr> = es @ [x]"
  by (simp add: elems_def)

text \<open>The result of \<open>append\<close>, and the slices it leaves as they were.\<close>

lemma go_append_elems:
  assumes "slice_ok m s" "go_append spare m s x = (m', s')"
  shows "elems m' s' = elems m s @ [x]" "slice_ok m' s'" "jobs_at m' = jobs_at m"
proof -
  have "elems m' s' = elems m s @ [x] \<and> slice_ok m' s' \<and> jobs_at m' = jobs_at m"
  proof (cases "s_len s < s_cap s")
    case True
    let ?xs = "arrays m ! s_arr s"
    have r: "s_arr s < length (arrays m)" "s_off s + s_len s < length ?xs" "s_off s + s_cap s \<le> length ?xs"
      using assms(1) True by (auto simp: slice_ok_def)
    have "take (Suc (s_len s)) (drop (s_off s) (?xs[s_off s + s_len s := x])) = take (s_len s) (drop (s_off s) ?xs) @ [x]"
      using r(2) by (simp add: drop_update_swap take_Suc_conv_app_nth)
    then show ?thesis
      using assms True r by (auto simp: go_append_def elems_def slice_ok_def)
  next
    case False
    have "length (elems m s) = s_len s"
      using assms(1) by (cases "s_cap s = 0") (auto simp: elems_def slice_ok_def)
    then show ?thesis
      using assms False elems_new [of "elems m s" "s_len s"] by (auto simp: go_append_def slice_ok_def)
  qed
  then show "elems m' s' = elems m s @ [x]" "slice_ok m' s'" "jobs_at m' = jobs_at m" by simp_all
qed

lemma go_append_other:
  assumes "slice_ok m s" "slice_ok m t" "go_append spare m s x = (m', s')"
    and "s_len s < s_cap s \<Longrightarrow> s_cap t \<noteq> 0 \<Longrightarrow> s_arr t \<noteq> s_arr s"
  shows "elems m' t = elems m t" "slice_ok m' t"
proof -
  have "elems m' t = elems m t \<and> slice_ok m' t"
  proof (cases "s_cap t = 0")
    case True
    then show ?thesis using assms(2) by (simp add: slice_ok_def elems_def)
  next
    case False
    then show ?thesis
      using assms by (cases "s_len s < s_cap s") (auto simp: go_append_def elems_def slice_ok_def nth_append)
  qed
  then show "elems m' t = elems m t" "slice_ok m' t" by simp_all
qed

text \<open>One turn of the loop is the update of one cell, and keeps the arrays unshared.\<close>

lemma link_turn_cells:
  assumes "memory_ok m" "own_array m a"
  shows "cells (link_turn spare m a) = (cells m)(a := map_option (append_succ (a + 1)) (cells m a))"
    "memory_ok (link_turn spare m a)" "own_array m b \<Longrightarrow> own_array (link_turn spare m a) b"
proof -
  have "cells (link_turn spare m a) = (cells m)(a := map_option (append_succ (a + 1)) (cells m a))
    \<and> memory_ok (link_turn spare m a) \<and> (own_array m b \<longrightarrow> own_array (link_turn spare m a) b)"
  proof (cases "jobs_at m a")
    case None
    then show ?thesis using assms(1) by (auto simp: link_turn_def cells_def fun_eq_iff)
  next
    case (Some c)
    obtain m' s' where app: "go_append spare m (f_OnSuccess c) (a + 1) = (m', s')" by fastforce
    note ok = memory_okD [OF assms(1)]
    note el = go_append_elems [OF ok(1) [OF Some] app]
    have t: "link_turn spare m a = m'\<lparr>jobs_at := (jobs_at m)(a \<mapsto> c\<lparr>f_OnSuccess := s'\<rparr>)\<rparr>"
      using Some app el(3) by (simp add: link_turn_def)
    have err: "elems m' (f_OnError d) = elems m (f_OnError d) \<and> slice_ok m' (f_OnError d)"
      if "jobs_at m b = Some d" for b d
      using go_append_other [OF ok(1) [OF Some] ok(2) [OF that] app] assms(2) Some that
      unfolding own_array_def by blast
    have succ: "elems m' (f_OnSuccess d) = elems m (f_OnSuccess d) \<and> slice_ok m' (f_OnSuccess d)"
      if "jobs_at m b = Some d" "b \<noteq> a" for b d
      using go_append_other [OF ok(1) [OF Some] ok(1) [OF that(1)] app] assms(2) Some that
      unfolding own_array_def by blast
    have same: "elems (m'\<lparr>jobs_at := j\<rparr>) t = elems m' t" "slice_ok (m'\<lparr>jobs_at := j\<rparr>) t = slice_ok m' t" for j t
      by (simp_all add: elems_def slice_ok_def)
    have "cells (link_turn spare m a) b = ((cells m)(a := map_option (append_succ (a + 1)) (cells m a))) b" for b
      using Some el(1) err succ
      by (cases "jobs_at m b") (auto simp: t cells_def cell_of_def same append_succ_def)
    moreover have "memory_ok (link_turn spare m a)"
      using Some el(2) err succ by (auto simp: t memory_ok_def same)
    moreover have "own_array (link_turn spare m a) b" if "own_array m b"
    proof -
      have fresh: "s_arr s' = s_arr (f_OnSuccess c) \<and> s_cap s' = s_cap (f_OnSuccess c)
          \<and> s_len (f_OnSuccess c) < s_cap (f_OnSuccess c) \<or> s_arr s' = length (arrays m)"
        using app by (auto simp: go_append_def split: if_splits)
      have below: "s_cap (f_OnSuccess d) \<noteq> 0 \<longrightarrow> s_arr (f_OnSuccess d) < length (arrays m)"
        "s_cap (f_OnError d) \<noteq> 0 \<longrightarrow> s_arr (f_OnError d) < length (arrays m)"
        if "jobs_at m e = Some d" for d e
        using ok(1) [OF that] ok(2) [OF that] by (simp_all add: slice_ok_def)
      show ?thesis
      proof (cases "b = a")
        case True
        then show ?thesis
          using fresh below assms(2) Some
          by (auto simp: own_array_def t split: if_splits; metis less_irrefl)
      next
        case False
        show ?thesis
          unfolding own_array_def t
          using that fresh below [OF Some] below False Some
          by (auto simp: own_array_def; metis less_irrefl not_less_zero)
      qed
    qed
    ultimately show ?thesis by auto
  qed
  then show "cells (link_turn spare m a) = (cells m)(a := map_option (append_succ (a + 1)) (cells m a))"
    "memory_ok (link_turn spare m a)" "own_array m b \<Longrightarrow> own_array (link_turn spare m a) b" by simp_all
qed

lemma link_slices_cells:
  assumes "memory_ok m" "\<And>j. i \<le> j \<Longrightarrow> j < i + k \<Longrightarrow> own_array m (base + j)"
  shows "cells (link_slices spare m base i k) = link_loop (cells m) base i k"
    "memory_ok (link_slices spare m base i k)"
    "own_array m b \<Longrightarrow> own_array (link_slices spare m base i k) b"
proof -
  have "cells (link_slices spare m base i k) = link_loop (cells m) base i k
    \<and> memory_ok (link_slices spare m base i k) \<and> (\<forall>b. own_array m b \<longrightarrow> own_array (link_slices spare m base i k) b)"
    using assms
  proof (induction k arbitrary: m i)
    case (Suc k)
    let ?m = "link_turn spare m (base + i)"
    have "own_array m (base + i)" using Suc.prems(2) [of i] by simp
    note turn = link_turn_cells [OF Suc.prems(1) this, where spare = spare]
    have IH: "cells (link_slices spare ?m base (Suc i) k) = link_loop (cells ?m) base (Suc i) k
      \<and> memory_ok (link_slices spare ?m base (Suc i) k)
      \<and> (\<forall>b. own_array ?m b \<longrightarrow> own_array (link_slices spare ?m base (Suc i) k) b)"
      using Suc.prems(2) turn(2,3) by (intro Suc.IH) simp_all
    then show ?case unfolding link_slices.simps link_loop.simps turn(1) [symmetric] using turn(3) by blast
  qed simp
  then show "cells (link_slices spare m base i k) = link_loop (cells m) base i k"
    "memory_ok (link_slices spare m base i k)"
    "own_array m b \<Longrightarrow> own_array (link_slices spare m base i k) b" by simp_all
qed

section \<open>Properties\<close>

text \<open>
  C29. \<open>NewChain\<close> on a slice of two or more jobs in memory, each of whose \<open>OnSuccess\<close> slices
  is full or has its backing array to itself, links the jobs so that they denote exactly the
  linked jobs of the functional \<open>NewChain\<close>, one by one; it returns the caller's slice, and
  changes no other job, not even through a shared array.
\<close>

theorem NewChain_heap_links:
  assumes "memory_ok m" "slice_of (cells m) base js" "2 \<le> length js"
    and "\<And>i. i < length js \<Longrightarrow> own_array m (base + i)"
  shows "\<exists>m' c. NewChain_heap spare m base (length js) = (m', Ok (base, length js)) \<and> NewChain js opts = Ok c
    \<and> (\<forall>i<length js. denotes (cells m') (base + i) (ChainJobs c ! i))
    \<and> (\<forall>a. a \<notin> {base..<base + length js} \<longrightarrow> cells m' a = cells m a)"
proof -
  let ?m = "link_slices spare m base 0 (length js - 1)"
  have "cells ?m = link_loop (cells m) base 0 (length js - 1)"
    using assms(4) by (intro link_slices_cells(1) [OF assms(1)]) simp
  then show ?thesis
    using assms(3) linked_denotes [OF assms(2)]
    by (intro exI [of _ ?m]) (auto simp: NewChain_heap_def NewChain_def link_loop_cell)
qed

definition ex_nil :: slice where
  "ex_nil = \<lparr>s_arr = 0, s_off = 0, s_len = 0, s_cap = 0\<rparr>"

definition ex_struct :: "string \<Rightarrow> slice \<Rightarrow> job_struct" where
  "ex_struct p s = \<lparr>f_OnSuccess = s, f_Task = ''log'', f_Payload = p, f_OnError = ex_nil,
     f_Opts = \<lparr>OptID = [], ETA = 0, OptQueue = ''q'', MaxRetries = 0, OptSchedule = [], Timeout = 0\<rparr>\<rparr>"

text \<open>
  Two jobs at 7 and 8: the first has room for one successor in an array of its own, the
  second has a nil slice.
\<close>

definition ex_memory :: memory where
  "ex_memory = \<lparr>arrays = [[0]], jobs_at =
     [7 \<mapsto> ex_struct ''x'' \<lparr>s_arr = 0, s_off = 0, s_len = 0, s_cap = 1\<rparr>, 8 \<mapsto> ex_struct ''y'' ex_nil]\<rparr>"

definition ex_slice :: "job list" where
  "ex_slice = [Job [] ''log'' ''x'' [] (f_Opts (ex_struct ''x'' ex_nil)),
     Job [] ''log'' ''y'' [] (f_Opts (ex_struct ''y'' ex_nil))]"

lemma ex_memory_facts:
  "memory_ok ex_memory" "slice_of (cells ex_memory) 7 ex_slice" "2 \<le> length ex_slice" "own_array ex_memory (7 + i)"
  by (auto simp: memory_ok_def slice_ok_def ex_memory_def ex_struct_def ex_nil_def slice_of_def ex_slice_def
      less_Suc_eq cells_def cell_of_def elems_def own_array_def split: if_splits)

theorem NewChain_heap_links_witness:
  "\<exists>m' c. NewChain_heap (\<lambda>n. n) ex_memory 7 2 = (m', Ok (7, 2)) \<and> NewChain ex_slice \<lparr>ChainOptID = []\<rparr> = Ok c
    \<and> denotes (cells m') 7 (ChainJobs c ! 0)"
proof -
  have len: "length ex_slice = 2" by (simp add: ex_slice_def)
  obtain m' c where "NewChain_heap (\<lambda>n. n) ex_memory 7 2 = (m', Ok (7, 2))"
    "NewChain ex_slice \<lparr>ChainOptID = []\<rparr> = Ok c" "\<forall>i<2. denotes (cells m') (7 + i) (ChainJobs c ! i)"
    using NewChain_heap_links [OF ex_memory_facts(1-3) ex_memory_facts(4), where spare = "\<lambda>n. n" and
        opts = "\<lparr>ChainOptID = []\<rparr>"] unfolding len by blast
  then show ?thesis by (intro exI [of _ m'] exI [of _ c]) (metis add.right_neutral zero_less_numeral)
qed

text \<open>
  \<open>NewChain\<close> writes to the jobs of the caller's slice: a second chain built from the same
  slice has each job but the last followed by the next one twice.
\<close>

theorem NewChain_twice_doubles_links:
  assumes "memory_ok m" "\<And>i. Suc i < n \<Longrightarrow> own_array m (base + i)"
    and "NewChain_heap spare m base n = (m1, Ok c1)" "NewChain_heap spare m1 base n = (m2, Ok c2)"
    and "Suc i < n" "cells m (base + i) = Some c"
  shows "\<exists>c'. cells m2 (base + i) = Some c'
    \<and> c_OnSuccess c' = c_OnSuccess c @ [base + i + 1, base + i + 1]"
proof -
  have m1: "m1 = link_slices spare m base 0 (n - 1)" and m2: "m2 = link_slices spare m1 base 0 (n - 1)"
    using assms(3,4) by (auto simp: NewChain_heap_def split: if_splits)
  have own: "own_array m (base + j)" if "j < 0 + (n - 1)" for j using that assms(2) by simp
  have "cells m1 = link_loop (cells m) base 0 (n - 1)" "memory_ok m1"
    unfolding m1 using own by (intro link_slices_cells(1,2) assms(1); simp)+
  moreover have "own_array m1 (base + j)" if "j < n - 1" for j
    unfolding m1 using own that by (intro link_slices_cells(3) assms(1)) simp_all
  ultimately have first: "cells m1 = link_loop (cells m) base 0 (n - 1)"
    and "cells m2 = link_loop (cells m1) base 0 (n - 1)"
    unfolding m2 by (simp, intro link_slices_cells(1)) simp_all
  then show ?thesis
    using assms(5,6) first by (cases n) (simp_all add: link_loop_cell append_succ_def)
qed

text \<open>
  Two neighbours whose \<open>OnSuccess\<close> slices are the same, with room in the array: the link of
  the second is written over that of the first, which then skips it.
\<close>

theorem shared_capacity_overwrites_link:
  assumes "jobs_at m base = Some c" "jobs_at m (base + 1) = Some d"
    and "f_OnSuccess d = f_OnSuccess c" "slice_ok m (f_OnSuccess c)" "s_len (f_OnSuccess c) < s_cap (f_OnSuccess c)"
    and "NewChain_heap spare m base 3 = (m', Ok r)"
  shows "\<exists>c'. cells m' base = Some c' \<and> c_OnSuccess c' = elems m (f_OnSuccess c) @ [base + 2]"
proof -
  let ?s = "f_OnSuccess c"
  obtain m1 where m1: "go_append spare m ?s (base + 1) = (m1, ?s\<lparr>s_len := Suc (s_len ?s)\<rparr>)"
    "m1 = m\<lparr>arrays := (arrays m)[s_arr ?s := (arrays m ! s_arr ?s)[s_off ?s + s_len ?s := base + 1]]\<rparr>"
    using assms(5) by (simp add: go_append_def)
  obtain m2 where m2: "go_append spare m1 ?s (base + 2) = (m2, ?s\<lparr>s_len := Suc (s_len ?s)\<rparr>)"
    using assms(5) by (simp add: go_append_def)
  have ok: "slice_ok m1 ?s" "elems m1 ?s = elems m ?s"
    using assms(4,5) by (auto simp: m1(2) slice_ok_def elems_def drop_update_swap)
  note el = go_append_elems [OF ok(1) m2]
  have e: "elems (m2\<lparr>jobs_at := j\<rparr>) t = elems m2 t" "go_append spare (m1\<lparr>jobs_at := j\<rparr>) ?s x =
      (fst (go_append spare m1 ?s x)\<lparr>jobs_at := j\<rparr>, snd (go_append spare m1 ?s x))" for j t x
    using assms(5) by (simp_all add: elems_def go_append_def)
  have "m' = link_turn spare (link_turn spare m base) (base + 1)"
    using assms(6) by (simp add: NewChain_heap_def eval_nat_numeral)
  moreover have "link_turn spare m base = m1\<lparr>jobs_at := (jobs_at m)(base \<mapsto> c\<lparr>f_OnSuccess := ?s\<lparr>s_len := Suc (s_len ?s)\<rparr>\<rparr>)\<rparr>"
    using m1 assms(1) by (simp add: link_turn_def)
  ultimately show ?thesis
    using assms(2,3) m2 el(1) ok(2) by (simp add: link_turn_def e cells_def cell_of_def numeral_2_eq_2)
qed

end
