(* ===== verification/Go_Float.thy ===== *)
theory Go_Float
  imports Go_Prelude
begin

text \<open>
  Time stamps as the Redis implementations send them: nanoseconds as a signed 64-bit
  integer, converted to a 64-bit floating-point number.
\<close>

text \<open>
  \<open>t.UnixNano()\<close>: the nanoseconds since 1970 as a signed 64-bit integer, which wraps around
  outside the years 1678 to 2262.
\<close>

definition UnixNano :: "time \<Rightarrow> int64" where
  "UnixNano t = word_of_int (t - 62135596800000000000)"

text \<open>
  The conversion \<open>float64(n)\<close>: the nearest number with a mantissa of 53 bits, of two equally
  near the one with an even mantissa. The result is an integer and is written as one.
\<close>

fun excess :: "nat \<Rightarrow> nat" where
  "excess m = (if m < 2 ^ 53 then 0 else Suc (excess (m div 2)))"

declare excess.simps [simp del]

definition round_even :: "nat \<Rightarrow> nat \<Rightarrow> nat" where
  "round_even m k =
     (let q = m div 2 ^ k; r = m mod 2 ^ k
      in if 2 * r < 2 ^ k \<or> 2 * r = 2 ^ k \<and> even q then q else Suc q)"

definition double_nat :: "nat \<Rightarrow> nat" where
  "double_nat m = round_even m (excess m) * 2 ^ excess m"

definition to_double :: "int \<Rightarrow> int" where
  "to_double n = (if n < 0 then - int (double_nat (nat (- n))) else int (double_nat (nat n)))"

lemma excess_upper: "m < 2 ^ (53 + excess m)"
proof (induction m rule: excess.induct)
  case (1 m)
  show ?case
  proof (cases "m < 2 ^ 53")
    case False
    then have "m div 2 < 2 ^ (53 + excess (m div 2))" using 1 by simp
    then have "m < 2 * 2 ^ (53 + excess (m div 2))" by simp
    then show ?thesis using False by (simp add: excess.simps [of m] flip: power_Suc)
  qed (simp add: excess.simps [of m])
qed

lemma excess_lower: "0 < excess m \<Longrightarrow> 2 ^ (52 + excess m) \<le> m"
proof (induction m rule: excess.induct)
  case (1 m)
  then have big: "\<not> m < 2 ^ 53" by (auto simp: excess.simps [of m] split: if_splits)
  then have e: "excess m = Suc (excess (m div 2))" by (simp add: excess.simps [of m])
  show ?case
  proof (cases "excess (m div 2) = 0")
    case True
    then show ?thesis using big e by simp
  next
    case False
    then have "2 ^ (52 + excess (m div 2)) \<le> m div 2" using 1 big by simp
    then have "2 * 2 ^ (52 + excess (m div 2)) \<le> m" by linarith
    then show ?thesis by (simp add: e flip: power_Suc)
  qed
qed

lemma excess_mono: "m \<le> n \<Longrightarrow> excess m \<le> excess n"
proof (rule ccontr)
  assume a: "m \<le> n" "\<not> excess m \<le> excess n"
  then have "2 ^ (52 + excess m) \<le> m" by (intro excess_lower) simp
  moreover have "n < 2 ^ (53 + excess n)" by (rule excess_upper)
  moreover have "(2 :: nat) ^ (53 + excess n) \<le> 2 ^ (52 + excess m)"
    using a(2) by (intro power_increasing) simp_all
  ultimately show False using a(1) by linarith
qed

lemma round_even_bounds: "m div 2 ^ k \<le> round_even m k" "round_even m k \<le> Suc (m div 2 ^ k)"
  by (simp_all add: round_even_def Let_def)

lemma round_even_mono:
  assumes "m \<le> n"
  shows "round_even m k \<le> round_even n k"
proof (cases "m div 2 ^ k = n div 2 ^ k")
  case True
  then have "m mod 2 ^ k \<le> n mod 2 ^ k"
    using assms by (metis add_le_cancel_left mult_div_mod_eq)
  then show ?thesis using True by (auto simp: round_even_def Let_def)
next
  case False
  then have "Suc (m div 2 ^ k) \<le> n div 2 ^ k"
    using div_le_mono [OF assms, of "2 ^ k"] by simp
  then show ?thesis using round_even_bounds [of m k] round_even_bounds [of n k] by linarith
qed

lemma double_nat_mono:
  assumes "m \<le> n"
  shows "double_nat m \<le> double_nat n"
proof (cases "excess m = excess n")
  case True
  then show ?thesis by (simp add: double_nat_def round_even_mono [OF assms])
next
  case False
  then have lt: "excess m < excess n" using excess_mono [OF assms] by simp
  have "m div 2 ^ excess m < 2 ^ 53"
    using excess_upper [of m] by (simp add: less_mult_imp_div_less power_add)
  then have "round_even m (excess m) \<le> 2 ^ 53"
    using round_even_bounds(2) [of m "excess m"] by linarith
  then have "double_nat m \<le> 2 ^ 53 * 2 ^ excess m" by (simp add: double_nat_def)
  also have "\<dots> \<le> 2 ^ 52 * 2 ^ excess n"
    using lt power_increasing [of "53 + excess m" "52 + excess n" "2 :: nat"]
    by (simp add: power_add)
  also have "\<dots> \<le> double_nat n"
  proof -
    have "2 ^ 52 * 2 ^ excess n \<le> n" using excess_lower [of n] lt by (simp add: power_add)
    then have "2 ^ 52 \<le> n div 2 ^ excess n" by (simp add: less_eq_div_iff_mult_less_eq)
    then show ?thesis
      using round_even_bounds(1) [of n "excess n"] by (simp add: double_nat_def)
  qed
  finally show ?thesis .
qed

lemma double_nat_0 [simp]: "double_nat 0 = 0"
  by (simp add: double_nat_def excess.simps round_even_def)

lemma to_double_mono: "m \<le> n \<Longrightarrow> to_double m \<le> to_double n"
  using double_nat_mono [of "nat (- n)" "nat (- m)"] double_nat_mono [of "nat m" "nat n"]
  by (auto simp: to_double_def)

lemma to_double_nonneg: "0 \<le> n \<Longrightarrow> 0 \<le> to_double n"
  by (simp add: to_double_def)

text \<open>A time stamp is off by at most 512 nanoseconds.\<close>

lemma double_nat_close:
  assumes "m < 2 ^ 63"
  shows "double_nat m \<le> m + 512" "m \<le> double_nat m + 512"
proof -
  let ?k = "excess m" let ?q = "m div 2 ^ excess m" let ?r = "m mod 2 ^ excess m"
  have k: "?k \<le> 10"
  proof (rule ccontr)
    assume "\<not> ?k \<le> 10"
    then have "2 ^ 63 \<le> (2 :: nat) ^ (52 + ?k)" by (intro power_increasing) simp_all
    also have "\<dots> \<le> m" using \<open>\<not> ?k \<le> 10\<close> by (intro excess_lower) simp
    finally show False using assms by simp
  qed
  have p: "(2 :: nat) ^ ?k \<le> 1024" using k power_increasing [of ?k 10 "2 :: nat"] by simp
  have m: "m = ?q * 2 ^ ?k + ?r" by (rule div_mult_mod_eq [symmetric])
  have r: "?r < 2 ^ ?k" by simp
  have d: "double_nat m = ?q * 2 ^ ?k \<and> 2 * ?r \<le> 2 ^ ?k
      \<or> double_nat m = ?q * 2 ^ ?k + 2 ^ ?k \<and> 2 ^ ?k \<le> 2 * ?r"
    by (auto simp: double_nat_def round_even_def Let_def)
  show "double_nat m \<le> m + 512" "m \<le> double_nat m + 512"
    using d m r p by linarith+
qed

lemma to_double_close:
  assumes "- (2 ^ 63) < n" "n < 2 ^ 63"
  shows "\<bar>to_double n - n\<bar> \<le> 512"
proof (cases "n < 0")
  case True
  then have "nat (- n) < 2 ^ 63" using assms by simp
  from double_nat_close [OF this] True show ?thesis by (auto simp: to_double_def)
next
  case False
  then have "nat n < 2 ^ 63" using assms by simp
  from double_nat_close [OF this] False show ?thesis by (auto simp: to_double_def)
qed

end
