(* ===== verification/Redis_Client.thy ===== *)
theory Redis_Client
  imports Go_Float
begin

text \<open>
  The Redis client that \<open>brokers/redis\<close> and \<open>results/redis\<close> call (\<open>github.com/go-redis/redis\<close>)
  is a parameter: a record with one field for each of its functions the code uses, over
  whatever state \<open>'s\<close> the server behind it has. What the code relies on is stated as a
  locale, in terms of the data the server holds, which \<open>db\<close> reads off the state: the
  documented effect of each command, and that a command which answers an error had none.
  \<open>redis_up\<close> adds that a command the data's types admit is not refused.
\<close>

section \<open>Commands and the client's functions\<close>

text \<open>
  The commands that are sent for their effect, directly or in a pipeline. A score is the
  integer the floating-point number stands for; the bounds of a range are the integers
  whose decimal digits the code sends.
\<close>

datatype redis_cmd =
    SET string bytes duration
  | DEL string
  | LPUSH string bytes
  | ZADD string int string
  | ZREM string "string list"
  | ZREMRANGEBYSCORE string int int
  | SADD string string
  | SREM string string

record 's redis_client =
  c_Do :: "'s \<Rightarrow> redis_cmd \<Rightarrow> 's \<times> unit outcome"
  c_Exec :: "'s \<Rightarrow> redis_cmd list \<Rightarrow> 's \<times> unit outcome"
  c_Get :: "'s \<Rightarrow> string \<Rightarrow> bytes outcome"
  c_MGet :: "'s \<Rightarrow> string list \<Rightarrow> bytes option list outcome"
  c_SMembers :: "'s \<Rightarrow> string \<Rightarrow> string list outcome"
  c_ZRevRangeByScore :: "'s \<Rightarrow> string \<Rightarrow> int \<Rightarrow> int \<Rightarrow> nat \<times> nat \<Rightarrow> string list outcome"
  c_LRange :: "'s \<Rightarrow> string \<Rightarrow> int64 \<Rightarrow> int64 \<Rightarrow> string list outcome"
  c_LLen :: "'s \<Rightarrow> string \<Rightarrow> int64 outcome"
  c_BLPop :: "'s \<Rightarrow> duration \<Rightarrow> string \<Rightarrow> 's \<times> string list outcome"
  c_Watch :: "'s \<Rightarrow> string list \<Rightarrow> unit outcome"

section \<open>The data of a server\<close>

text \<open>
  Keys hold a string, a list, a sorted set or a set; a key that holds an empty collection
  does not exist.
\<close>

record redis_db =
  db_str :: "string \<Rightarrow> bytes option"
  db_list :: "string \<Rightarrow> bytes list"
  db_zset :: "string \<Rightarrow> string \<Rightarrow> int option"
  db_set :: "string \<Rightarrow> string set"

datatype redis_type = TString | TList | TZSet | TSet

definition holds_only :: "redis_db \<Rightarrow> string \<Rightarrow> redis_type \<Rightarrow> bool" where
  "holds_only d k T \<longleftrightarrow>
     (T \<noteq> TString \<longrightarrow> db_str d k = None) \<and> (T \<noteq> TList \<longrightarrow> db_list d k = []) \<and>
     (T \<noteq> TZSet \<longrightarrow> db_zset d k = (\<lambda>_. None)) \<and> (T \<noteq> TSet \<longrightarrow> db_set d k = {})"

text \<open>
  When a command is accepted (a command on a key of another type is refused, and so is a
  removal of no member), and its effect.
\<close>

fun cmd_ok :: "redis_db \<Rightarrow> redis_cmd \<Rightarrow> bool" where
  "cmd_ok d (SET k v ttl) = True"
| "cmd_ok d (DEL k) = True"
| "cmd_ok d (LPUSH k m) = holds_only d k TList"
| "cmd_ok d (ZADD k s m) = holds_only d k TZSet"
| "cmd_ok d (ZREM k ms) = (holds_only d k TZSet \<and> ms \<noteq> [])"
| "cmd_ok d (ZREMRANGEBYSCORE k lo hi) = holds_only d k TZSet"
| "cmd_ok d (SADD k m) = holds_only d k TSet"
| "cmd_ok d (SREM k m) = holds_only d k TSet"

definition db_clear :: "string \<Rightarrow> redis_db \<Rightarrow> redis_db" where
  "db_clear k d =
     \<lparr>db_str = (db_str d)(k := None), db_list = (db_list d)(k := []),
      db_zset = (db_zset d)(k := \<lambda>_. None), db_set = (db_set d)(k := {})\<rparr>"

definition in_range :: "int \<Rightarrow> int \<Rightarrow> int option \<Rightarrow> bool" where
  "in_range lo hi sc = (case sc of None \<Rightarrow> False | Some s \<Rightarrow> to_double lo \<le> s \<and> s \<le> to_double hi)"

fun db_exec :: "redis_cmd \<Rightarrow> redis_db \<Rightarrow> redis_db" where
  "db_exec (SET k v ttl) d = (db_clear k d)\<lparr>db_str := (db_str d)(k \<mapsto> v)\<rparr>"
| "db_exec (DEL k) d = db_clear k d"
| "db_exec (LPUSH k m) d = d\<lparr>db_list := (db_list d)(k := m # db_list d k)\<rparr>"
| "db_exec (ZADD k s m) d = d\<lparr>db_zset := (db_zset d)(k := (db_zset d k)(m \<mapsto> s))\<rparr>"
| "db_exec (ZREM k ms) d =
     d\<lparr>db_zset := (db_zset d)(k := \<lambda>m. if m \<in> set ms then None else db_zset d k m)\<rparr>"
| "db_exec (ZREMRANGEBYSCORE k lo hi) d =
     d\<lparr>db_zset := (db_zset d)(k := \<lambda>m. if in_range lo hi (db_zset d k m) then None else db_zset d k m)\<rparr>"
| "db_exec (SADD k m) d = d\<lparr>db_set := (db_set d)(k := insert m (db_set d k))\<rparr>"
| "db_exec (SREM k m) d = d\<lparr>db_set := (db_set d)(k := db_set d k - {m})\<rparr>"

text \<open>
  A pipeline executes its commands in order, each on its own: one that is refused does not
  keep the later ones from being executed.
\<close>

inductive pipelined :: "redis_cmd list \<Rightarrow> redis_db \<Rightarrow> redis_db \<Rightarrow> bool \<Rightarrow> bool" where
  pipe_Nil: "pipelined [] d d True"
| pipe_Ok: "cmd_ok d c \<Longrightarrow> pipelined cs (db_exec c d) d' ok \<Longrightarrow> pipelined (c # cs) d d' ok"
| pipe_Err: "pipelined cs d d' ok \<Longrightarrow> pipelined (c # cs) d d' False"

inductive_cases pipelined_ConsE: "pipelined (c # cs) d d' ok"

inductive_simps pipelined_Nil [simp]: "pipelined [] d d' ok"

fun cmds_ok :: "redis_db \<Rightarrow> redis_cmd list \<Rightarrow> bool" where
  "cmds_ok d [] = True"
| "cmds_ok d (c # cs) = (cmd_ok d c \<and> cmds_ok (db_exec c d) cs)"

lemma pipelined_True: "pipelined cs d d' True \<longleftrightarrow> cmds_ok d cs \<and> d' = fold db_exec cs d"
proof
  show "pipelined cs d d' True \<Longrightarrow> cmds_ok d cs \<and> d' = fold db_exec cs d"
    by (induction cs arbitrary: d) (auto elim!: pipelined_ConsE)
  show "cmds_ok d cs \<and> d' = fold db_exec cs d \<Longrightarrow> pipelined cs d d' True"
    by (induction cs arbitrary: d) (auto intro: pipelined.intros)
qed

text \<open>
  A typing of the keys, and the commands that keep to it: on well-typed data they are
  accepted and leave well-typed data.
\<close>

definition well_typed :: "(string \<Rightarrow> redis_type) \<Rightarrow> redis_db \<Rightarrow> bool" where
  "well_typed ty d \<longleftrightarrow> (\<forall>k. holds_only d k (ty k))"

fun cmd_typed :: "(string \<Rightarrow> redis_type) \<Rightarrow> redis_cmd \<Rightarrow> bool" where
  "cmd_typed ty (SET k v ttl) = (ty k = TString)"
| "cmd_typed ty (DEL k) = True"
| "cmd_typed ty (LPUSH k m) = (ty k = TList)"
| "cmd_typed ty (ZADD k s m) = (ty k = TZSet)"
| "cmd_typed ty (ZREM k ms) = (ty k = TZSet \<and> ms \<noteq> [])"
| "cmd_typed ty (ZREMRANGEBYSCORE k lo hi) = (ty k = TZSet)"
| "cmd_typed ty (SADD k m) = (ty k = TSet)"
| "cmd_typed ty (SREM k m) = (ty k = TSet)"

lemma well_typedD: "well_typed ty d \<Longrightarrow> ty k = T \<Longrightarrow> holds_only d k T"
  by (auto simp: well_typed_def)

lemma well_typed_str:
  assumes "well_typed ty d" "db_str d k = Some b"
  shows "ty k = TString" "holds_only d k TString"
proof -
  have "holds_only d k (ty k)" using assms(1) by (simp add: well_typed_def)
  then show "ty k = TString" using assms(2) by (metis holds_only_def option.distinct(1))
  then show "holds_only d k TString" by (rule well_typedD [OF assms(1)])
qed

lemma cmd_typed_ok: "well_typed ty d \<Longrightarrow> cmd_typed ty c \<Longrightarrow> cmd_ok d c"
  by (cases c) (auto dest: well_typedD)

lemma cmd_typed_exec: "well_typed ty d \<Longrightarrow> cmd_typed ty c \<Longrightarrow> well_typed ty (db_exec c d)"
  by (cases c) (auto simp: well_typed_def holds_only_def db_clear_def)

lemma cmds_typed:
  "well_typed ty d \<Longrightarrow> list_all (cmd_typed ty) cs \<Longrightarrow> cmds_ok d cs \<and> well_typed ty (fold db_exec cs d)"
  by (induction cs arbitrary: d) (simp_all add: cmd_typed_ok cmd_typed_exec)

lemma pipelined_typed:
  "pipelined cs d d' ok \<Longrightarrow> well_typed ty d \<Longrightarrow> list_all (cmd_typed ty) cs \<Longrightarrow> well_typed ty d'"
  by (induction rule: pipelined.induct) (simp_all add: cmd_typed_exec)

text \<open>A \<open>LRANGE\<close>: both ends inclusive, a negative index counts from the end.\<close>

definition lrange :: "int \<Rightarrow> int \<Rightarrow> 'a list \<Rightarrow> 'a list" where
  "lrange start stop xs =
     (let n = int (length xs);
          start = (if start < 0 then max 0 (n + start) else start);
          stop = (if stop < 0 then n + stop else stop)
      in take (nat (stop - start + 1)) (drop (nat start) xs))"

text \<open>The members of a sorted set in a range of scores, from the highest score down.\<close>

definition by_score_down :: "(string \<Rightarrow> int option) \<Rightarrow> int \<Rightarrow> int \<Rightarrow> string list \<Rightarrow> bool" where
  "by_score_down z lo hi xs \<longleftrightarrow>
     distinct xs \<and> set xs = {m. in_range lo hi (z m)} \<and> sorted_wrt (\<lambda>a b. the (z b) \<le> the (z a)) xs"

definition limited :: "nat \<times> nat \<Rightarrow> 'a list \<Rightarrow> 'a list" where
  "limited lim xs = (if lim = (0, 0) then xs else take (snd lim) (drop (fst lim) xs))"

section \<open>What the code relies on\<close>

locale redis_server =
  fixes C :: "'s redis_client" and db :: "'s \<Rightarrow> redis_db"
  assumes Do_Ok: "c_Do C s c = (s', Ok u) \<Longrightarrow> cmd_ok (db s) c \<and> db s' = db_exec c (db s)"
    and Do_Err: "c_Do C s c = (s', Err e) \<Longrightarrow> db s' = db s"
    and Do_answers: "snd (c_Do C s c) \<noteq> Panic" "snd (c_Do C s c) \<noteq> Diverge"
    and Exec: "c_Exec C s cs = (s', res) \<Longrightarrow> pipelined cs (db s) (db s') (res = Ok ())"
    and Exec_answers: "snd (c_Exec C s cs) \<noteq> Panic" "snd (c_Exec C s cs) \<noteq> Diverge"
    and Get_Ok: "c_Get C s k = Ok v \<Longrightarrow> db_str (db s) k = Some v"
    and Get_Nil: "c_Get C s k = Err e \<Longrightarrow> errors_is e RedisNil \<Longrightarrow> db_str (db s) k = None"
    and MGet_Ok: "c_MGet C s ks = Ok vs \<Longrightarrow> vs = map (db_str (db s)) ks"
    and SMembers_Ok: "c_SMembers C s k = Ok ms \<Longrightarrow> distinct ms \<and> set ms = db_set (db s) k"
    and ZRevRangeByScore_Ok: "c_ZRevRangeByScore C s k lo hi lim = Ok ms
      \<Longrightarrow> \<exists>xs. by_score_down (db_zset (db s) k) lo hi xs \<and> ms = limited lim xs"
    and LRange_Ok: "c_LRange C s k i j = Ok ms \<Longrightarrow> ms = lrange (sint i) (sint j) (db_list (db s) k)"
    and LLen_Ok: "c_LLen C s k = Ok n \<Longrightarrow> n = of_nat (length (db_list (db s) k))"
    and BLPop_Ok: "c_BLPop C s t k = (s', Ok rs)
      \<Longrightarrow> \<exists>m ms. db_list (db s) k = m # ms \<and> rs = [k, m] \<and> db s' = db s\<lparr>db_list := (db_list (db s))(k := ms)\<rparr>"
    and BLPop_Err: "c_BLPop C s t k = (s', Err e)
      \<Longrightarrow> db s' = db s \<and> (error_string e = ''redis: nil'' \<longrightarrow> e = RedisNil \<and> db_list (db s) k = [])"
    and BLPop_answers: "snd (c_BLPop C s t k) \<noteq> Panic" "snd (c_BLPop C s t k) \<noteq> Diverge"

locale redis_up = redis_server +
  assumes Do_up: "cmd_ok (db s) c \<Longrightarrow> snd (c_Do C s c) = Ok ()"
    and Exec_up: "cmds_ok (db s) cs \<Longrightarrow> snd (c_Exec C s cs) = Ok ()"
    and Get_up: "holds_only (db s) k TString
      \<Longrightarrow> c_Get C s k = (case db_str (db s) k of None \<Rightarrow> Err RedisNil | Some v \<Rightarrow> Ok v)"
    and MGet_up: "\<exists>vs. c_MGet C s ks = Ok vs"
    and SMembers_up: "holds_only (db s) k TSet \<Longrightarrow> \<exists>ms. c_SMembers C s k = Ok ms"
    and ZRevRangeByScore_up: "holds_only (db s) k TZSet \<Longrightarrow> \<exists>ms. c_ZRevRangeByScore C s k lo hi lim = Ok ms"
    and LRange_up: "holds_only (db s) k TList \<Longrightarrow> \<exists>ms. c_LRange C s k i j = Ok ms"
    and LLen_up: "holds_only (db s) k TList \<Longrightarrow> \<exists>n. c_LLen C s k = Ok n"
    and BLPop_up: "holds_only (db s) k TList \<Longrightarrow>
      (if db_list (db s) k = [] then snd (c_BLPop C s t k) = Err RedisNil else \<exists>rs. snd (c_BLPop C s t k) = Ok rs)"
    and Watch_up: "c_Watch C s [] = Ok ()"

context redis_up
begin

lemma Do_eq:
  assumes "cmd_ok (db s) c"
  shows "c_Do C s c = (fst (c_Do C s c), Ok ())" "db (fst (c_Do C s c)) = db_exec c (db s)"
proof -
  show eq: "c_Do C s c = (fst (c_Do C s c), Ok ())" using Do_up [OF assms] by (simp add: prod_eq_iff)
  show "db (fst (c_Do C s c)) = db_exec c (db s)" using Do_Ok [OF eq] by simp
qed

lemma Exec_eq:
  assumes "cmds_ok (db s) cs"
  shows "c_Exec C s cs = (fst (c_Exec C s cs), Ok ())" "db (fst (c_Exec C s cs)) = fold db_exec cs (db s)"
proof -
  show eq: "c_Exec C s cs = (fst (c_Exec C s cs), Ok ())" using Exec_up [OF assms] by (simp add: prod_eq_iff)
  show "db (fst (c_Exec C s cs)) = fold db_exec cs (db s)" using Exec [OF eq] by (simp add: pipelined_True)
qed

lemma LRange_eq:
  "holds_only (db s) k TList \<Longrightarrow> c_LRange C s k i j = Ok (lrange (sint i) (sint j) (db_list (db s) k))"
  using LRange_up LRange_Ok by metis

lemma LLen_eq: "holds_only (db s) k TList \<Longrightarrow> c_LLen C s k = Ok (of_nat (length (db_list (db s) k)))"
  using LLen_up LLen_Ok by metis

lemma MGet_eq: "c_MGet C s ks = Ok (map (db_str (db s)) ks)"
  using MGet_up MGet_Ok by metis

lemma BLPop_cases:
  assumes "holds_only (db s) k TList"
  obtains (empty) s' where "db_list (db s) k = []" "c_BLPop C s t k = (s', Err RedisNil)" "db s' = db s"
  | (message) s' m ms where "db_list (db s) k = m # ms" "c_BLPop C s t k = (s', Ok [k, m])"
      "db s' = db s\<lparr>db_list := (db_list (db s))(k := ms)\<rparr>"
proof (cases "db_list (db s) k = []")
  case True
  then obtain s' where "c_BLPop C s t k = (s', Err RedisNil)"
    using BLPop_up [OF assms] by (metis prod.collapse)
  then show ?thesis using empty True BLPop_Err by blast
next
  case False
  then obtain s' rs where "c_BLPop C s t k = (s', Ok rs)"
    using BLPop_up [OF assms] by (metis prod.collapse)
  then show ?thesis using message BLPop_Ok by blast
qed

end

end
