(* ===== verification/Redis_Broker.thy ===== *)
theory Redis_Broker
  imports Redis_Client Tasqueue_Interfaces
begin

text \<open>
  The Redis broker, \<open>brokers/redis/broker.go\<close>, on a client \<open>C\<close> (a parameter). A queue is a
  Redis list, at the key that is the queue's name, and its scheduled messages are a sorted
  set; with a pipe period the writes are collected and sent by a loop. The broker's state
  has the connection (the state of the server behind it), the commands collected so far,
  and the clock, which \<open>time.Now\<close> reads. Each loop of the code is given by its turn.
\<close>

section \<open>State\<close>

record rb_options =
  bAddrs :: "string list"
  bPassword :: string
  bDB :: int64
  bDialTimeout :: duration
  bReadTimeout :: duration
  bWriteTimeout :: duration
  bIdleTimeout :: duration
  bMinIdleConns :: int64
  bPollPeriod :: duration
  bPipePeriod :: duration

definition DefaultPollPeriod :: duration where
  "DefaultPollPeriod = 1000000000"

definition sortedSetKey :: "string \<Rightarrow> string" where
  "sortedSetKey queue = ''tasqueue:ss:'' @ queue"

record 's redis_broker =
  rb_opts :: rb_options
  rb_conn :: 's
  rb_pipe :: "redis_cmd list"
  rb_now :: time

text \<open>
  \<open>New\<close>, with \<open>dial\<close> for the client's constructor; the second component says whether the
  loop \<open>execPipe\<close> is started.
\<close>

definition rb_New :: "(rb_options \<Rightarrow> 's) \<Rightarrow> rb_options \<Rightarrow> time \<Rightarrow> 's redis_broker \<times> bool" where
  "rb_New dial opts now =
     (let opts = (if bPollPeriod opts = 0 then opts\<lparr>bPollPeriod := DefaultPollPeriod\<rparr> else opts)
      in (\<lparr>rb_opts = opts, rb_conn = dial opts, rb_pipe = [], rb_now = now\<rparr>, bPipePeriod opts \<noteq> 0))"

section \<open>Writing\<close>

text \<open>
  A command sent at once, and a command added to the pipe, whose error is not known yet and
  reads as nil.
\<close>

definition rb_send :: "'s redis_client \<Rightarrow> 's redis_broker \<Rightarrow> redis_cmd \<Rightarrow> 's redis_broker \<times> unit outcome" where
  "rb_send C b c = (case c_Do C (rb_conn b) c of (s, res) \<Rightarrow> (b\<lparr>rb_conn := s\<rparr>, res))"

definition rb_collect :: "'s redis_broker \<Rightarrow> redis_cmd \<Rightarrow> 's redis_broker \<times> unit outcome" where
  "rb_collect b c = (b\<lparr>rb_pipe := rb_pipe b @ [c]\<rparr>, Ok ())"

definition rb_Enqueue ::
  "'s redis_client \<Rightarrow> 's redis_broker \<Rightarrow> bytes \<Rightarrow> string \<Rightarrow> 's redis_broker \<times> unit outcome" where
  "rb_Enqueue C b msg queue =
     (if bPipePeriod (rb_opts b) \<noteq> 0 then rb_collect b (LPUSH queue msg)
      else rb_send C b (LPUSH queue msg))"

definition rb_EnqueueScheduled ::
  "'s redis_client \<Rightarrow> 's redis_broker \<Rightarrow> bytes \<Rightarrow> string \<Rightarrow> time \<Rightarrow> 's redis_broker \<times> unit outcome" where
  "rb_EnqueueScheduled C b msg queue ts =
     (if bPipePeriod (rb_opts b) \<noteq> 0
      then rb_collect b (ZADD (sortedSetKey queue) (to_double (sint (UnixNano ts))) msg)
      else rb_send C b (ZADD (sortedSetKey queue) (to_double (sint (UnixNano ts))) msg))"

text \<open>
  A turn of \<open>execPipe\<close>: the context is done, which drains the pipe and ends the loop, or the
  ticker ticks. The second component says whether the loop goes on.
\<close>

datatype wake = CtxDone | Ticked

definition rb_exec :: "'s redis_client \<Rightarrow> 's redis_broker \<Rightarrow> 's redis_broker" where
  "rb_exec C b = b\<lparr>rb_conn := fst (c_Exec C (rb_conn b) (rb_pipe b)), rb_pipe := []\<rparr>"

definition rb_execPipe :: "'s redis_client \<Rightarrow> 's redis_broker \<Rightarrow> wake \<Rightarrow> 's redis_broker \<times> bool" where
  "rb_execPipe C b wk =
     (case wk of
        CtxDone \<Rightarrow> (rb_exec C b, False)
      | Ticked \<Rightarrow> (if length (rb_pipe b) = 0 then (b, True) else (rb_exec C b, True)))"

section \<open>Reading\<close>

definition rb_GetPending :: "'s redis_client \<Rightarrow> 's redis_broker \<Rightarrow> string \<Rightarrow> string list outcome" where
  "rb_GetPending C b queue =
     (case c_LRange C (rb_conn b) queue 0 (- 1) of
        Err e \<Rightarrow> if e = RedisNil then Ok [] else Err e
      | res \<Rightarrow> res)"

definition rb_GetPendingWithPagination ::
  "'s redis_client \<Rightarrow> 's redis_broker \<Rightarrow> string \<Rightarrow> int64 \<Rightarrow> int64 \<Rightarrow> (string list \<times> int64) outcome" where
  "rb_GetPendingWithPagination C b queue offset limit =
     bind_ok (c_LLen C (rb_conn b) queue) (\<lambda>total.
       if total = 0 then Ok ([], 0)
       else
         (let offset = (if offset <s 0 then 0 else offset) in
          if total \<le>s offset then Ok ([], total)
          else
            (let limit = (if limit \<le>s 0 then 100 else limit);
                 limit = (if 10000 <s limit then 10000 else limit);
                 end = offset + limit - 1
             in case c_LRange C (rb_conn b) queue offset end of
                  Err e \<Rightarrow> if e = RedisNil then Ok ([], total) else Err e
                | res \<Rightarrow> bind_ok res (\<lambda>rs. Ok (rs, total)))))"

definition rb_GetPendingCount :: "'s redis_client \<Rightarrow> 's redis_broker \<Rightarrow> string \<Rightarrow> int64 outcome" where
  "rb_GetPendingCount C b queue = c_LLen C (rb_conn b) queue"

section \<open>Consuming\<close>

text \<open>The verb \<open>%v\<close> of \<open>fmt\<close> for a slice of strings.\<close>

fun fmt_strings :: "string list \<Rightarrow> string" where
  "fmt_strings [] = []"
| "fmt_strings [s] = s"
| "fmt_strings (s # ss) = s @ '' '' @ fmt_strings ss"

definition blpopResult :: "string list \<Rightarrow> go_error + string" where
  "blpopResult rs =
     (if length rs \<noteq> 2
      then Inl (ErrorString (''BLPop result should have exactly 2 strings. Got : ['' @ fmt_strings rs @ '']''))
      else Inr (rs ! 1))"

text \<open>
  A turn of \<open>Consume\<close>: a message for the work channel, no message within the poll period, an
  error that is logged, or the end of the loop.
\<close>

datatype consumer_turn = Work bytes | NoTasks | Logged go_error | Stopped "go_error option"

definition rb_receive :: "string list \<Rightarrow> consumer_turn" where
  "rb_receive rs = (case blpopResult rs of Inl e \<Rightarrow> Stopped (Some e) | Inr msg \<Rightarrow> Work msg)"

definition rb_Consume_turn ::
  "'s redis_client \<Rightarrow> 's redis_broker \<Rightarrow> bool \<Rightarrow> string \<Rightarrow> 's redis_broker \<times> consumer_turn outcome" where
  "rb_Consume_turn C b ctx_done queue =
     (if ctx_done then (b, Ok (Stopped None))
      else
        (case c_BLPop C (rb_conn b) (bPollPeriod (rb_opts b)) queue of
           (s, res) \<Rightarrow>
             (b\<lparr>rb_conn := s\<rparr>,
              case res of
                Ok rs \<Rightarrow> Ok (rb_receive rs)
              | Err e \<Rightarrow>
                  Ok (if error_string e \<noteq> ''redis: nil'' then Logged e
                      else if errors_is e RedisNil then NoTasks
                      else rb_receive [])
              | Panic \<Rightarrow> Panic
              | Diverge \<Rightarrow> Diverge)))"

definition rb_Consume :: "'s redis_client \<Rightarrow> 's redis_broker \<Rightarrow> string \<Rightarrow> 's redis_broker \<times> bytes option outcome" where
  "rb_Consume C b queue =
     on_ok (rb_Consume_turn C b False queue) (\<lambda>b t.
       (b, case t of
             Work m \<Rightarrow> Ok (Some m)
           | NoTasks \<Rightarrow> Ok None
           | Logged e \<Rightarrow> Err e
           | Stopped (Some e) \<Rightarrow> Err e
           | Stopped None \<Rightarrow> Err ContextCanceled))"

text \<open>
  A turn of \<open>consumeScheduled\<close> when its ticker ticks: the scheduled messages whose time has
  come are fetched, at most one, the one with the latest time; then enqueued; then removed
  from the sorted set. An error ends the turn and is ignored by the loop.
\<close>

definition rb_fetch_due :: "'s redis_client \<Rightarrow> 's redis_broker \<Rightarrow> string \<Rightarrow> string list outcome" where
  "rb_fetch_due C b queue =
     c_ZRevRangeByScore C (rb_conn b) (sortedSetKey queue) 0 (sint (UnixNano (rb_now b))) (0, 1)"

fun rb_enqueue_due ::
  "'s redis_client \<Rightarrow> 's redis_broker \<Rightarrow> string \<Rightarrow> string list \<Rightarrow> 's redis_broker \<times> unit outcome" where
  "rb_enqueue_due C b queue [] = (b, Ok ())"
| "rb_enqueue_due C b queue (task # tasks) =
     on_ok (rb_Enqueue C b task queue) (\<lambda>b _. rb_enqueue_due C b queue tasks)"

definition rb_remove_due ::
  "'s redis_client \<Rightarrow> 's redis_broker \<Rightarrow> string \<Rightarrow> string list \<Rightarrow> 's redis_broker \<times> unit outcome" where
  "rb_remove_due C b queue tasks = rb_send C b (ZREM (sortedSetKey queue) tasks)"

definition rb_consumeScheduled ::
  "'s redis_client \<Rightarrow> 's redis_broker \<Rightarrow> string \<Rightarrow> 's redis_broker \<times> unit outcome" where
  "rb_consumeScheduled C b queue =
     on_ok (b, c_Watch C (rb_conn b) []) (\<lambda>b _.
     on_ok (b, rb_fetch_due C b queue) (\<lambda>b tasks.
     on_ok (rb_enqueue_due C b queue tasks) (\<lambda>b _.
     rb_remove_due C b queue tasks)))"

definition redis_broker_impl :: "'s redis_client \<Rightarrow> 's redis_broker broker_impl" where
  "redis_broker_impl C =
     \<lparr>b_Enqueue = rb_Enqueue C, b_EnqueueScheduled = rb_EnqueueScheduled C, b_Consume = rb_Consume C,
      b_GetPending = rb_GetPending C, b_GetPendingWithPagination = rb_GetPendingWithPagination C,
      b_GetPendingCount = rb_GetPendingCount C\<rparr>"

lemma redis_broker_impl_sel [simp]:
  "b_Enqueue (redis_broker_impl C) = rb_Enqueue C"
  "b_EnqueueScheduled (redis_broker_impl C) = rb_EnqueueScheduled C"
  "b_Consume (redis_broker_impl C) = rb_Consume C" "b_GetPending (redis_broker_impl C) = rb_GetPending C"
  "b_GetPendingWithPagination (redis_broker_impl C) = rb_GetPendingWithPagination C"
  "b_GetPendingCount (redis_broker_impl C) = rb_GetPendingCount C"
  by (simp_all add: redis_broker_impl_def)

lemma blpopResult_pair [simp]: "blpopResult [k, m] = Inr m"
  by (simp add: blpopResult_def)

lemma rb_receive_simps [simp]: "rb_receive [k, m] = Work m" "\<exists>e. rb_receive [] = Stopped (Some e)"
  by (simp_all add: rb_receive_def blpopResult_def)

section \<open>The contracts\<close>

text \<open>Without a pipe period, on a server that does what it documents.\<close>

definition rb_direct :: "'s redis_broker \<Rightarrow> bool" where
  "rb_direct b \<longleftrightarrow> bPipePeriod (rb_opts b) = 0"

lemma rb_send_sel [simp]:
  "rb_opts (fst (rb_send C b c)) = rb_opts b" "rb_pipe (fst (rb_send C b c)) = rb_pipe b"
  "rb_now (fst (rb_send C b c)) = rb_now b"
  "rb_conn (fst (rb_send C b c)) = fst (c_Do C (rb_conn b) c)"
  by (simp_all add: rb_send_def split: prod.splits)

lemma snd_rb_send: "snd (rb_send C b c) = snd (c_Do C (rb_conn b) c)"
  by (simp add: rb_send_def split: prod.splits)

lemma rb_Consume_Ok:
  "rb_Consume C b q = (b', Ok (Some m)) \<Longrightarrow>
     \<exists>s rs. c_BLPop C (rb_conn b) (bPollPeriod (rb_opts b)) q = (s, Ok rs) \<and> rb_receive rs = Work m
       \<and> b' = b\<lparr>rb_conn := s\<rparr>"
  by (auto simp: rb_Consume_def rb_Consume_turn_def on_ok_eq_Ok rb_receive_def blpopResult_def
      split: prod.splits outcome.splits if_splits consumer_turn.splits option.splits)

lemma rb_Consume_None:
  "rb_Consume C b q = (b', Ok None) \<Longrightarrow>
     \<exists>s e. c_BLPop C (rb_conn b) (bPollPeriod (rb_opts b)) q = (s, Err e) \<and> error_string e = ''redis: nil''
       \<and> b' = b\<lparr>rb_conn := s\<rparr>"
  by (auto simp: rb_Consume_def rb_Consume_turn_def on_ok_eq_Ok rb_receive_def blpopResult_def
      split: prod.splits outcome.splits if_splits consumer_turn.splits option.splits)

lemma rb_Consume_no_panic:
  "snd (c_BLPop C (rb_conn b) (bPollPeriod (rb_opts b)) q) \<noteq> Panic \<Longrightarrow> snd (rb_Consume C b q) \<noteq> Panic"
  by (auto simp: rb_Consume_def rb_Consume_turn_def on_ok_def
      split: prod.splits outcome.splits if_splits consumer_turn.splits option.splits)

lemma rb_Consume_sel [simp]:
  "rb_opts (fst (rb_Consume C b q)) = rb_opts b" "rb_pipe (fst (rb_Consume C b q)) = rb_pipe b"
  by (auto simp: rb_Consume_def rb_Consume_turn_def on_ok_def
      split: prod.splits outcome.splits if_splits)

lemma rb_Enqueue_direct: "rb_direct b \<Longrightarrow> rb_Enqueue C b m q = rb_send C b (LPUSH q m)"
  by (simp add: rb_Enqueue_def rb_direct_def)

definition rb_line :: "('s \<Rightarrow> redis_db) \<Rightarrow> 's redis_broker \<Rightarrow> string \<Rightarrow> bytes list" where
  "rb_line db b q = db_list (db (rb_conn b)) q"

context redis_server
begin

lemma rb_Consume_Ok_line:
  assumes "rb_Consume C b q = (b', Ok (Some m))"
  shows "\<exists>ms. rb_line db b q = m # ms \<and> rb_line db b' = (rb_line db b)(q := ms)"
proof -
  obtain s rs where c: "c_BLPop C (rb_conn b) (bPollPeriod (rb_opts b)) q = (s, Ok rs)" "rb_receive rs = Work m"
    "b' = b\<lparr>rb_conn := s\<rparr>" using rb_Consume_Ok [OF assms] by blast
  then obtain m' ms where "db_list (db (rb_conn b)) q = m' # ms" "rs = [q, m']"
    "db s = db (rb_conn b)\<lparr>db_list := (db_list (db (rb_conn b)))(q := ms)\<rparr>" using BLPop_Ok by blast
  then show ?thesis using c by (auto simp: rb_line_def fun_eq_iff)
qed

lemma rb_Consume_None_line:
  assumes "rb_Consume C b q = (b', Ok None)"
  shows "rb_line db b q = [] \<and> rb_line db b' = rb_line db b"
  using rb_Consume_None [OF assms] BLPop_Err by (fastforce simp: rb_line_def fun_eq_iff)

lemma rb_Enqueue_Ok_line:
  "rb_direct b \<Longrightarrow> rb_Enqueue C b m q = (b', Ok u)
     \<Longrightarrow> rb_line db b' = (rb_line db b)(q := m # rb_line db b q)"
  by (auto simp: rb_Enqueue_direct rb_send_def rb_line_def fun_eq_iff dest!: Do_Ok split: prod.splits)

end

sublocale redis_server \<subseteq> broker:
  broker_contract "redis_broker_impl C" "\<lambda>b q. mset (rb_line db b q)" rb_direct
proof (unfold_locales, goal_cases)
  case (1 b m q b' u)
  then show ?case using rb_Enqueue_Ok_line [of b m q b' u] by (auto simp: fun_eq_iff)
next
  case (2 b m q b' e)
  then show ?case by (auto simp: rb_Enqueue_direct rb_send_def rb_line_def dest!: Do_Err split: prod.splits)
next
  case (3 b m q b' u)
  then show ?case by (auto simp: rb_direct_def rb_Enqueue_def rb_send_def split: prod.splits)
next
  case (4 b q b' m)
  then show ?case using rb_Consume_Ok_line [of b q b' m] by (auto simp: fun_eq_iff)
next
  case (5 b q b')
  then show ?case using rb_Consume_None_line [of b q b'] by (auto simp: fun_eq_iff)
next
  case (6 b q)
  show ?case using rb_Consume_no_panic [OF BLPop_answers(1)] by simp
next
  case (7 b q b' r)
  then show ?case using rb_Consume_sel(1) [of C b q] by (simp add: rb_direct_def)
qed

text \<open>
  On a database of its own that holds only lists (nothing is scheduled), every queue is a
  line served at the end where messages arrive: last in, first out, and without a bound.
\<close>

definition only_lists :: "('s \<Rightarrow> redis_db) \<Rightarrow> 's redis_broker \<Rightarrow> bool" where
  "only_lists db b \<longleftrightarrow> rb_direct b \<and> well_typed (\<lambda>_. TList) (db (rb_conn b))"

lemma well_typed_lists [simp]:
  "well_typed (\<lambda>_. TList) (d\<lparr>db_list := l\<rparr>) \<longleftrightarrow> well_typed (\<lambda>_. TList) d"
  by (simp add: well_typed_def holds_only_def)

lemma only_lists_holds: "only_lists db b \<Longrightarrow> rb_direct b \<and> holds_only (db (rb_conn b)) q TList"
  by (simp add: only_lists_def well_typed_def)

context redis_up
begin

lemma rb_send_up:
  assumes "cmd_ok (db (rb_conn b)) c"
  shows "\<exists>s. rb_send C b c = (b\<lparr>rb_conn := s\<rparr>, Ok ()) \<and> db s = db_exec c (db (rb_conn b))"
proof -
  have "rb_send C b c = (b\<lparr>rb_conn := fst (c_Do C (rb_conn b) c)\<rparr>, Ok ())"
    using Do_up [OF assms] by (simp add: rb_send_def case_prod_beta)
  then show ?thesis using Do_eq(2) [OF assms] by blast
qed

lemma rb_Enqueue_up:
  assumes "rb_direct b" "holds_only (db (rb_conn b)) q TList"
  shows "\<exists>s. rb_Enqueue C b m q = (b\<lparr>rb_conn := s\<rparr>, Ok ()) \<and> db s = db_exec (LPUSH q m) (db (rb_conn b))"
  using rb_send_up [of b "LPUSH q m"] assms by (simp add: rb_Enqueue_direct)

lemma rb_Consume_up:
  assumes "holds_only (db (rb_conn b)) q TList"
  shows "case rb_line db b q of
      [] \<Rightarrow> \<exists>b'. rb_Consume C b q = (b', Ok None) \<and> rb_opts b' = rb_opts b \<and> db (rb_conn b') = db (rb_conn b)
    | m # ms \<Rightarrow> \<exists>b'. rb_Consume C b q = (b', Ok (Some m)) \<and> rb_opts b' = rb_opts b
        \<and> db (rb_conn b') = db (rb_conn b)\<lparr>db_list := (db_list (db (rb_conn b)))(q := ms)\<rparr>"
  by (rule BLPop_cases [OF assms, of "bPollPeriod (rb_opts b)"])
    (simp_all add: rb_Consume_def rb_Consume_turn_def rb_line_def)

end

sublocale redis_up \<subseteq> lifo: line_broker "redis_broker_impl C" "rb_line db" "only_lists db" lifo_join capacity
  for capacity
proof (unfold_locales, goal_cases)
  case (1 b m q b' u)
  then show ?case using rb_Enqueue_Ok_line [of b m q b' u] by (auto simp: fun_eq_iff only_lists_def)
next
  case (2 b m q b' e)
  then show ?case
    by (auto simp: only_lists_def rb_Enqueue_direct rb_send_def rb_line_def dest!: Do_Err split: prod.splits)
next
  case (3 b m q b' u)
  then show ?case
    using rb_Enqueue_up [of b q m] only_lists_holds [of db b q] by (auto simp: only_lists_def rb_direct_def)
next
  case (4 b q b' m)
  then show ?case using rb_Consume_Ok_line [of b q b' m] by (auto simp: fun_eq_iff)
next
  case (5 b q b')
  then show ?case using rb_Consume_None_line [of b q b'] by (auto simp: fun_eq_iff)
next
  case (6 b q)
  show ?case using rb_Consume_no_panic [OF BLPop_answers(1)] by simp
next
  case (7 b q b' r)
  then show ?case
    using rb_Consume_up [of b q] only_lists_holds [of db b q]
    by (auto simp: only_lists_def rb_direct_def split: list.splits)
next
  case (12 b m q b' u)
  then show ?case
    using rb_Enqueue_Ok_line [of b m q b' u] by (auto simp: fun_eq_iff only_lists_def lifo_join_def)
next
  case (13 b q m)
  then show ?case using rb_Enqueue_up [of b q m] only_lists_holds [of db b q] by auto
next
  case (14 b q m ms)
  then show ?case
    using rb_Consume_up [of b q] only_lists_holds [of db b q] by (auto simp: rb_line_def fun_eq_iff)
next
  case (15 b q)
  then show ?case
    using rb_Consume_up [of b q] only_lists_holds [of db b q] by (auto simp: rb_line_def fun_eq_iff)
qed (simp_all add: lifo_join_def)

end
