(* ===== verification/Redis_Results.thy ===== *)
theory Redis_Results
  imports Redis_Broker
begin

text \<open>
  The Redis results store, \<open>results/redis/results.go\<close>, on a client \<open>C\<close> (a parameter). Values
  are strings under a prefix; the identifiers of successful and of failed jobs are two
  sorted sets with the time as score, at keys under the same prefix; the metadata of tasks
  are strings, whose names are in a set. The state is as for the Redis broker.
\<close>

section \<open>Constants and state\<close>

definition resultPrefix :: string where "resultPrefix = ''tq:res:''"
definition success :: string where "success = ''success''"
definition failed :: string where "failed = ''failed''"
definition taskPrefix :: string where "taskPrefix = ''tq:task:''"
definition tasksSet :: string where "tasksSet = ''tq:tasks''"

record rr_options =
  rAddrs :: "string list"
  rPassword :: string
  rDB :: int64
  rDialTimeout :: duration
  rReadTimeout :: duration
  rWriteTimeout :: duration
  rIdleTimeout :: duration
  rExpiry :: duration
  rMetaExpiry :: duration
  rMinIdleConns :: int64
  rPipePeriod :: duration

definition DefaultRedis :: rr_options where
  "DefaultRedis =
     \<lparr>rAddrs = [''127.0.0.1:6379''], rPassword = [], rDB = 0, rDialTimeout = 0, rReadTimeout = 0,
      rWriteTimeout = 0, rIdleTimeout = 0, rExpiry = 0, rMetaExpiry = 0, rMinIdleConns = 0, rPipePeriod = 0\<rparr>"

record 's redis_results =
  rr_opts :: rr_options
  rr_conn :: 's
  rr_pipe :: "redis_cmd list"
  rr_now :: time

text \<open>The loops that \<open>New\<close> starts, in goroutines of their own.\<close>

datatype rr_loop = ExpireMeta duration | ExecPipe

definition rr_New :: "(rr_options \<Rightarrow> 's) \<Rightarrow> rr_options \<Rightarrow> time \<Rightarrow> 's redis_results \<times> rr_loop list" where
  "rr_New dial opts now =
     (\<lparr>rr_opts = opts, rr_conn = dial opts, rr_pipe = [], rr_now = now\<rparr>,
      (if rMetaExpiry opts \<noteq> 0 then [ExpireMeta (rMetaExpiry opts)] else []) @
      (if rPipePeriod opts \<noteq> 0 then [ExecPipe] else []))"

section \<open>Writing\<close>

definition rr_send :: "'s redis_client \<Rightarrow> 's redis_results \<Rightarrow> redis_cmd \<Rightarrow> 's redis_results \<times> unit outcome" where
  "rr_send C r c = (case c_Do C (rr_conn r) c of (s, res) \<Rightarrow> (r\<lparr>rr_conn := s\<rparr>, res))"

definition rr_collect :: "'s redis_results \<Rightarrow> redis_cmd \<Rightarrow> 's redis_results \<times> unit outcome" where
  "rr_collect r c = (r\<lparr>rr_pipe := rr_pipe r @ [c]\<rparr>, Ok ())"

text \<open>A pipeline that is made and executed within one call.\<close>

definition rr_send_all ::
  "'s redis_client \<Rightarrow> 's redis_results \<Rightarrow> redis_cmd list \<Rightarrow> 's redis_results \<times> unit outcome" where
  "rr_send_all C r cs = (case c_Exec C (rr_conn r) cs of (s, res) \<Rightarrow> (r\<lparr>rr_conn := s\<rparr>, res))"

text \<open>A turn of \<open>execPipe\<close>, for a context that is done or not.\<close>

definition rr_exec :: "'s redis_client \<Rightarrow> 's redis_results \<Rightarrow> 's redis_results" where
  "rr_exec C r = r\<lparr>rr_conn := fst (c_Exec C (rr_conn r) (rr_pipe r)), rr_pipe := []\<rparr>"

definition rr_execPipe :: "'s redis_client \<Rightarrow> 's redis_results \<Rightarrow> bool \<Rightarrow> 's redis_results \<times> bool" where
  "rr_execPipe C r ctx_done =
     (if ctx_done then (rr_exec C r, False)
      else if length (rr_pipe r) = 0 then (r, True)
      else (rr_exec C r, True))"

definition rr_DeleteJob ::
  "'s redis_client \<Rightarrow> 's redis_results \<Rightarrow> string \<Rightarrow> 's redis_results \<times> unit outcome" where
  "rr_DeleteJob C r k =
     rr_send_all C r
       [ZREM (resultPrefix @ success) [''1'', k], ZREM (resultPrefix @ failed) [''1'', k], DEL (resultPrefix @ k)]"

definition rr_SetSuccess ::
  "'s redis_client \<Rightarrow> 's redis_results \<Rightarrow> string \<Rightarrow> 's redis_results \<times> unit outcome" where
  "rr_SetSuccess C r k =
     (if rPipePeriod (rr_opts r) \<noteq> 0
      then rr_collect r (ZADD (resultPrefix @ success) (to_double (sint (UnixNano (rr_now r)))) k)
      else rr_send C r (ZADD (resultPrefix @ success) (to_double (sint (UnixNano (rr_now r)))) k))"

definition rr_SetFailed ::
  "'s redis_client \<Rightarrow> 's redis_results \<Rightarrow> string \<Rightarrow> 's redis_results \<times> unit outcome" where
  "rr_SetFailed C r k =
     (if rPipePeriod (rr_opts r) \<noteq> 0
      then rr_collect r (ZADD (resultPrefix @ failed) (to_double (sint (UnixNano (rr_now r)))) k)
      else rr_send C r (ZADD (resultPrefix @ failed) (to_double (sint (UnixNano (rr_now r)))) k))"

definition rr_Set ::
  "'s redis_client \<Rightarrow> 's redis_results \<Rightarrow> string \<Rightarrow> bytes \<Rightarrow> 's redis_results \<times> unit outcome" where
  "rr_Set C r k b =
     (if rPipePeriod (rr_opts r) \<noteq> 0 then rr_collect r (SET (resultPrefix @ k) b (rExpiry (rr_opts r)))
      else rr_send C r (SET (resultPrefix @ k) b (rExpiry (rr_opts r))))"

text \<open>
  A turn of \<open>expireMeta\<close>, when its ticker ticks: both purges are sent, an error of the first
  is logged only.
\<close>

definition purge_score :: "time \<Rightarrow> duration \<Rightarrow> int" where
  "purge_score now ttl = sint (UnixNano now - word_of_int ttl)"

definition rr_expireMeta :: "'s redis_client \<Rightarrow> 's redis_results \<Rightarrow> duration \<Rightarrow> 's redis_results" where
  "rr_expireMeta C r ttl =
     (let score = purge_score (rr_now r) ttl in
      if rPipePeriod (rr_opts r) \<noteq> 0
      then (let r = fst (rr_collect r (ZREMRANGEBYSCORE (resultPrefix @ failed) 0 score))
            in fst (rr_collect r (ZREMRANGEBYSCORE (resultPrefix @ success) 0 score)))
      else (let r = fst (rr_send C r (ZREMRANGEBYSCORE (resultPrefix @ failed) 0 score))
            in fst (rr_send C r (ZREMRANGEBYSCORE (resultPrefix @ success) 0 score))))"

definition rr_SetTask ::
  "'s redis_client \<Rightarrow> 's redis_results \<Rightarrow> string \<Rightarrow> bytes \<Rightarrow> 's redis_results \<times> unit outcome" where
  "rr_SetTask C r name task = rr_send_all C r [SET (taskPrefix @ name) task 0, SADD tasksSet name]"

definition rr_DeleteTask ::
  "'s redis_client \<Rightarrow> 's redis_results \<Rightarrow> string \<Rightarrow> 's redis_results \<times> unit outcome" where
  "rr_DeleteTask C r name = rr_send_all C r [DEL (taskPrefix @ name), SREM tasksSet name]"

section \<open>Reading\<close>

definition rr_NilError :: go_error where
  "rr_NilError = RedisNil"

definition rr_Get :: "'s redis_client \<Rightarrow> 's redis_results \<Rightarrow> string \<Rightarrow> bytes outcome" where
  "rr_Get C r k = c_Get C (rr_conn r) (resultPrefix @ k)"

definition rr_GetSuccess :: "'s redis_client \<Rightarrow> 's redis_results \<Rightarrow> string list outcome" where
  "rr_GetSuccess C r =
     c_ZRevRangeByScore C (rr_conn r) (resultPrefix @ success) 0 (sint (UnixNano (rr_now r))) (0, 0)"

definition rr_GetFailed :: "'s redis_client \<Rightarrow> 's redis_results \<Rightarrow> string list outcome" where
  "rr_GetFailed C r =
     c_ZRevRangeByScore C (rr_conn r) (resultPrefix @ failed) 0 (sint (UnixNano (rr_now r))) (0, 0)"

definition rr_GetTask :: "'s redis_client \<Rightarrow> 's redis_results \<Rightarrow> string \<Rightarrow> bytes outcome" where
  "rr_GetTask C r name = c_Get C (rr_conn r) (taskPrefix @ name)"

text \<open>The loop over the results of \<open>MGET\<close> leaves out the nil ones.\<close>

fun present :: "bytes option list \<Rightarrow> bytes list" where
  "present [] = []"
| "present (None # rs) = present rs"
| "present (Some b # rs) = b # present rs"

definition rr_GetAllTasks :: "'s redis_client \<Rightarrow> 's redis_results \<Rightarrow> bytes list outcome" where
  "rr_GetAllTasks C r =
     bind_ok (c_SMembers C (rr_conn r) tasksSet) (\<lambda>names.
       if length names = 0 then Ok []
       else bind_ok (c_MGet C (rr_conn r) (map (\<lambda>name. taskPrefix @ name) names)) (\<lambda>rs. Ok (present rs)))"

definition redis_results_impl :: "'s redis_client \<Rightarrow> 's redis_results results_impl" where
  "redis_results_impl C =
     \<lparr>r_Get = rr_Get C, r_NilError = rr_NilError, r_Set = rr_Set C, r_DeleteJob = rr_DeleteJob C,
      r_GetFailed = rr_GetFailed C, r_GetSuccess = rr_GetSuccess C, r_SetFailed = rr_SetFailed C,
      r_SetSuccess = rr_SetSuccess C, r_SetTask = rr_SetTask C, r_GetTask = rr_GetTask C,
      r_GetAllTasks = rr_GetAllTasks C, r_DeleteTask = rr_DeleteTask C\<rparr>"

lemma redis_results_impl_sel [simp]:
  "r_Get (redis_results_impl C) = rr_Get C" "r_NilError (redis_results_impl C) = rr_NilError"
  "r_Set (redis_results_impl C) = rr_Set C" "r_DeleteJob (redis_results_impl C) = rr_DeleteJob C"
  "r_GetFailed (redis_results_impl C) = rr_GetFailed C" "r_GetSuccess (redis_results_impl C) = rr_GetSuccess C"
  "r_SetFailed (redis_results_impl C) = rr_SetFailed C" "r_SetSuccess (redis_results_impl C) = rr_SetSuccess C"
  "r_SetTask (redis_results_impl C) = rr_SetTask C" "r_GetTask (redis_results_impl C) = rr_GetTask C"
  "r_GetAllTasks (redis_results_impl C) = rr_GetAllTasks C" "r_DeleteTask (redis_results_impl C) = rr_DeleteTask C"
  by (simp_all add: redis_results_impl_def)

section \<open>The contracts\<close>

definition rr_direct :: "'s redis_results \<Rightarrow> bool" where
  "rr_direct r \<longleftrightarrow> rPipePeriod (rr_opts r) = 0"

definition rr_view :: "('s \<Rightarrow> redis_db) \<Rightarrow> 's redis_results \<Rightarrow> string \<Rightarrow> bytes option" where
  "rr_view db r k = db_str (db (rr_conn r)) (resultPrefix @ k)"

definition rr_succ :: "('s \<Rightarrow> redis_db) \<Rightarrow> 's redis_results \<Rightarrow> string set" where
  "rr_succ db r = dom (db_zset (db (rr_conn r)) (resultPrefix @ success))"

definition rr_fail :: "('s \<Rightarrow> redis_db) \<Rightarrow> 's redis_results \<Rightarrow> string set" where
  "rr_fail db r = dom (db_zset (db (rr_conn r)) (resultPrefix @ failed))"

text \<open>The two identifiers whose result keys are the store's own sorted sets.\<close>

definition rr_key_ok :: "string \<Rightarrow> bool" where
  "rr_key_ok k \<longleftrightarrow> k \<noteq> success \<and> k \<noteq> failed"

lemma rr_key_ok_messages [simp]:
  "rr_key_ok (jobPrefix @ k)" "rr_key_ok (chainPrefix @ k)" "rr_key_ok (groupPrefix @ k)"
  by (simp_all add: rr_key_ok_def success_def failed_def jobPrefix_def chainPrefix_def groupPrefix_def)

lemma success_neq_failed [simp]: "success \<noteq> failed" "failed \<noteq> success"
  by (simp_all add: success_def failed_def)

lemma rr_direct_eqs:
  assumes "rr_direct r"
  shows "rr_Set C r k b = rr_send C r (SET (resultPrefix @ k) b (rExpiry (rr_opts r)))"
    "rr_SetSuccess C r k = rr_send C r (ZADD (resultPrefix @ success) (to_double (sint (UnixNano (rr_now r)))) k)"
    "rr_SetFailed C r k = rr_send C r (ZADD (resultPrefix @ failed) (to_double (sint (UnixNano (rr_now r)))) k)"
  using assms by (simp_all add: rr_direct_def rr_Set_def rr_SetSuccess_def rr_SetFailed_def)

lemma rr_send_opts [simp]: "rr_opts (fst (rr_send C r c)) = rr_opts r" "rr_now (fst (rr_send C r c)) = rr_now r"
  by (simp_all add: rr_send_def split: prod.splits)

lemma rr_send_all_opts [simp]: "rr_opts (fst (rr_send_all C r cs)) = rr_opts r"
  by (simp add: rr_send_all_def split: prod.splits)

context redis_server
begin

lemma rr_send_Ok:
  "rr_send C r c = (r', Ok u) \<Longrightarrow> cmd_ok (db (rr_conn r)) c \<and> db (rr_conn r') = db_exec c (db (rr_conn r))"
  by (auto simp: rr_send_def dest: Do_Ok split: prod.splits)

lemma rr_send_Err: "rr_send C r c = (r', Err e) \<Longrightarrow> db (rr_conn r') = db (rr_conn r)"
  by (auto simp: rr_send_def dest: Do_Err split: prod.splits)

lemma rr_send_db:
  "db (rr_conn (fst (rr_send C r c))) = db (rr_conn r)
     \<or> db (rr_conn (fst (rr_send C r c))) = db_exec c (db (rr_conn r))"
proof (cases "rr_send C r c")
  case (Pair r' res)
  then have "snd (c_Do C (rr_conn r) c) = res" by (simp add: rr_send_def split: prod.splits)
  then show ?thesis
    using Pair rr_send_Ok [of r c r'] rr_send_Err [of r c r'] Do_answers [of "rr_conn r" c] by (cases res) auto
qed

lemma rr_send_all_Ok:
  "rr_send_all C r cs = (r', Ok u) \<Longrightarrow> cmds_ok (db (rr_conn r)) cs \<and> db (rr_conn r') = fold db_exec cs (db (rr_conn r))"
  by (auto simp: rr_send_all_def pipelined_True dest!: Exec split: prod.splits)

end

sublocale redis_server \<subseteq> store:
  results_store "redis_results_impl C" "rr_view db" "rr_succ db" "rr_fail db" rr_direct rr_key_ok
proof (unfold_locales, goal_cases)
  case (4 r k b)
  then show ?case by (simp add: rr_Get_def rr_view_def Get_Ok)
next
  case (5 r k e)
  then show ?case by (simp add: rr_Get_def rr_view_def rr_NilError_def Get_Nil)
next
  case (6 r k b r' u)
  then show ?case
    by (auto simp: rr_direct_eqs rr_view_def fun_eq_iff dest!: rr_send_Ok)
next
  case (7 r k b r' e)
  then show ?case by (auto simp: rr_direct_eqs rr_view_def fun_eq_iff dest!: rr_send_Err)
next
  case (8 r k b)
  then show ?case
    using rr_send_db [of r "SET (resultPrefix @ k) b (rExpiry (rr_opts r))"]
    by (auto simp: rr_direct_eqs rr_succ_def rr_key_ok_def db_clear_def)
next
  case (9 r k b)
  then show ?case
    using rr_send_db [of r "SET (resultPrefix @ k) b (rExpiry (rr_opts r))"]
    by (auto simp: rr_direct_eqs rr_fail_def rr_key_ok_def db_clear_def)
next
  case (10 r k b)
  then show ?case by (simp add: rr_direct_eqs) (simp add: rr_direct_def)
next
  case (11 r k r' u)
  then show ?case by (auto simp: rr_direct_eqs rr_succ_def dest!: rr_send_Ok)
next
  case (12 r k)
  then show ?case
    using rr_send_db [of r "ZADD (resultPrefix @ success) (to_double (sint (UnixNano (rr_now r)))) k"]
    by (auto simp: rr_direct_eqs rr_view_def fun_eq_iff)
next
  case (13 r k)
  then show ?case
    using rr_send_db [of r "ZADD (resultPrefix @ success) (to_double (sint (UnixNano (rr_now r)))) k"]
    by (auto simp: rr_direct_eqs rr_fail_def)
next
  case (14 r k)
  then show ?case by (simp add: rr_direct_eqs) (simp add: rr_direct_def)
next
  case (15 r k r' u)
  then show ?case by (auto simp: rr_direct_eqs rr_fail_def dest!: rr_send_Ok)
next
  case (16 r k)
  then show ?case
    using rr_send_db [of r "ZADD (resultPrefix @ failed) (to_double (sint (UnixNano (rr_now r)))) k"]
    by (auto simp: rr_direct_eqs rr_view_def fun_eq_iff)
next
  case (17 r k)
  then show ?case
    using rr_send_db [of r "ZADD (resultPrefix @ failed) (to_double (sint (UnixNano (rr_now r)))) k"]
    by (auto simp: rr_direct_eqs rr_succ_def)
next
  case (18 r k)
  then show ?case by (simp add: rr_direct_eqs) (simp add: rr_direct_def)
next
  case (19 r k r' u)
  then show ?case
    by (auto simp: rr_DeleteJob_def rr_view_def fun_eq_iff db_clear_def dest!: rr_send_all_Ok)
next
  case (20 r k)
  then show ?case by (simp add: rr_DeleteJob_def rr_direct_def)
qed simp_all

text \<open>
  The type of each key of a database that a broker and a store share. On a server that
  answers, and with well-typed data, no call of the store fails: a reliable store.
\<close>

definition starts_with :: "string \<Rightarrow> string \<Rightarrow> bool" where
  "starts_with p k \<longleftrightarrow> take (length p) k = p"

definition key_type :: "string \<Rightarrow> redis_type" where
  "key_type k =
     (if k = resultPrefix @ success \<or> k = resultPrefix @ failed then TZSet
      else if starts_with resultPrefix k \<or> starts_with taskPrefix k then TString
      else if k = tasksSet then TSet
      else if starts_with ''tasqueue:ss:'' k then TZSet
      else TList)"

lemma key_type_simps [simp]:
  "key_type (resultPrefix @ success) = TZSet" "key_type (resultPrefix @ failed) = TZSet"
  "rr_key_ok k \<Longrightarrow> key_type (resultPrefix @ k) = TString" "key_type (taskPrefix @ k) = TString"
  "key_type tasksSet = TSet" "key_type (sortedSetKey q) = TZSet"
  by (simp_all add: key_type_def starts_with_def rr_key_ok_def sortedSetKey_def resultPrefix_def taskPrefix_def
      tasksSet_def)

definition rr_inv :: "('s \<Rightarrow> redis_db) \<Rightarrow> 's redis_results \<Rightarrow> bool" where
  "rr_inv db r \<longleftrightarrow> rr_direct r \<and> well_typed key_type (db (rr_conn r))"

context redis_up
begin

lemma rr_send_typed:
  assumes "well_typed ty (db (rr_conn r))" "cmd_typed ty c"
  shows "snd (rr_send C r c) = Ok ()" "well_typed ty (db (rr_conn (fst (rr_send C r c))))"
proof -
  have ok: "cmd_ok (db (rr_conn r)) c" by (rule cmd_typed_ok [OF assms])
  then show "snd (rr_send C r c) = Ok ()" by (simp add: rr_send_def Do_up case_prod_beta)
  show "well_typed ty (db (rr_conn (fst (rr_send C r c))))"
    using Do_eq(2) [OF ok] cmd_typed_exec [OF assms] by (simp add: rr_send_def case_prod_beta)
qed

lemma rr_send_all_typed:
  assumes "well_typed ty (db (rr_conn r))" "list_all (cmd_typed ty) cs"
  shows "snd (rr_send_all C r cs) = Ok ()" "well_typed ty (db (rr_conn (fst (rr_send_all C r cs))))"
proof -
  have ok: "cmds_ok (db (rr_conn r)) cs" and ty: "well_typed ty (fold db_exec cs (db (rr_conn r)))"
    using cmds_typed [OF assms] by simp_all
  show "snd (rr_send_all C r cs) = Ok ()"
    using Exec_up [OF ok] by (simp add: rr_send_all_def case_prod_beta)
  show "well_typed ty (db (rr_conn (fst (rr_send_all C r cs))))"
    using Exec_eq(2) [OF ok] ty by (simp add: rr_send_all_def case_prod_beta)
qed

end

sublocale redis_up \<subseteq> up_store:
  reliable_store "redis_results_impl C" "rr_view db" "rr_succ db" "rr_fail db" "rr_inv db" rr_key_ok
proof (unfold_locales, goal_cases)
  case (4 r k b)
  then show ?case by (intro store.Get_sound) (simp_all add: rr_inv_def)
next
  case (5 r k e)
  then show ?case by (intro store.Get_nil) (simp_all add: rr_inv_def)
next
  case (6 r k b r' u)
  then show ?case by (intro store.Set_ok) (simp_all add: rr_inv_def)
next
  case (7 r k b r' e)
  then show ?case by (intro store.Set_err) (simp_all add: rr_inv_def)
next
  case (8 r k b)
  then show ?case by (intro store.Set_succ_ids) (simp_all add: rr_inv_def)
next
  case (9 r k b)
  then show ?case by (intro store.Set_fail_ids) (simp_all add: rr_inv_def)
next
  case (10 r k b)
  then show ?case
    by (simp add: rr_inv_def rr_direct_eqs rr_send_typed) (simp add: rr_direct_def)
next
  case (11 r k r' u)
  then show ?case by (intro store.SetSuccess_ok) (simp_all add: rr_inv_def)
next
  case (12 r k)
  then show ?case by (intro store.SetSuccess_view) (simp_all add: rr_inv_def)
next
  case (13 r k)
  then show ?case by (intro store.SetSuccess_fail_ids) (simp_all add: rr_inv_def)
next
  case (14 r k)
  then show ?case
    by (simp add: rr_inv_def rr_direct_eqs rr_send_typed) (simp add: rr_direct_def)
next
  case (15 r k r' u)
  then show ?case by (intro store.SetFailed_ok) (simp_all add: rr_inv_def)
next
  case (16 r k)
  then show ?case by (intro store.SetFailed_view) (simp_all add: rr_inv_def)
next
  case (17 r k)
  then show ?case by (intro store.SetFailed_succ_ids) (simp_all add: rr_inv_def)
next
  case (18 r k)
  then show ?case
    by (simp add: rr_inv_def rr_direct_eqs rr_send_typed) (simp add: rr_direct_def)
next
  case (19 r k r' u)
  then show ?case by (intro store.DeleteJob_ok) (simp_all add: rr_inv_def)
next
  case (20 r k)
  then show ?case
    by (simp add: rr_inv_def rr_DeleteJob_def rr_send_all_typed) (simp add: rr_direct_def)
next
  case (21 r k b)
  then have "holds_only (db (rr_conn r)) (resultPrefix @ k) TString"
    by (auto simp: rr_inv_def rr_view_def intro: well_typed_str)
  then show ?case using 21 Get_up by (simp add: rr_Get_def rr_view_def)
next
  case (22 r k)
  then have "holds_only (db (rr_conn r)) (resultPrefix @ k) TString"
    by (auto simp: rr_inv_def intro: well_typedD)
  then show ?case using 22 Get_up by (simp add: rr_Get_def rr_view_def rr_NilError_def)
next
  case (23 r k b)
  then show ?case by (simp add: rr_inv_def rr_direct_eqs rr_send_def Do_up case_prod_beta)
next
  case (24 r k)
  then show ?case by (simp add: rr_inv_def rr_direct_eqs rr_send_typed [where ty = key_type])
next
  case (25 r k)
  then show ?case by (simp add: rr_inv_def rr_direct_eqs rr_send_typed [where ty = key_type])
next
  case (26 r k)
  then show ?case by (simp add: rr_inv_def rr_DeleteJob_def rr_send_all_typed [where ty = key_type])
qed simp_all

end
