(* ===== verification/Redis_System.thy ===== *)
theory Redis_System
  imports Chain_System Group_System Redis_Results
begin

text \<open>
  The Redis broker and results store together. First on databases of their own: the server's
  operations (the locale \<open>job_system\<close>) hold over them, with queues that are last in, first out.
  Then on one database that they share: every call keeps the types of the keys.
\<close>

sublocale redis_up \<subseteq> sys: job_system "redis_results_impl C" "rr_view db" "rr_succ db" "rr_fail db"
    "rr_inv db" rr_key_ok "redis_broker_impl C" "rb_line db" "only_lists db" lifo_join capacity
  for capacity
  by unfold_locales

section \<open>A broker and a store on one database\<close>

text \<open>The calls and loop turns that change state.\<close>

datatype redis_call =
    CallEnqueue string bytes
  | CallSchedule string bytes time
  | CallConsume string
  | CallPromote string
  | CallBrokerPipe
  | CallSet string bytes
  | CallSuccess string
  | CallFailed string
  | CallDelete string
  | CallExpire duration
  | CallSetTask string bytes
  | CallDeleteTask string
  | CallStorePipe

fun broker_part ::
  "'s redis_client \<Rightarrow> 's redis_broker \<Rightarrow> redis_call \<Rightarrow> ('s redis_broker \<times> unit outcome) option" where
  "broker_part C b (CallEnqueue q m) = Some (rb_Enqueue C b m q)"
| "broker_part C b (CallSchedule q m ts) = Some (rb_EnqueueScheduled C b m q ts)"
| "broker_part C b (CallConsume q) = Some (on_ok (rb_Consume C b q) (\<lambda>b _. (b, Ok ())))"
| "broker_part C b (CallPromote q) = Some (rb_consumeScheduled C b q)"
| "broker_part C b CallBrokerPipe = Some (fst (rb_execPipe C b Ticked), Ok ())"
| "broker_part C b _ = None"

fun store_part ::
  "'s redis_client \<Rightarrow> 's redis_results \<Rightarrow> redis_call \<Rightarrow> 's redis_results \<times> unit outcome" where
  "store_part C r (CallSet k v) = rr_Set C r k v"
| "store_part C r (CallSuccess k) = rr_SetSuccess C r k"
| "store_part C r (CallFailed k) = rr_SetFailed C r k"
| "store_part C r (CallDelete k) = rr_DeleteJob C r k"
| "store_part C r (CallExpire ttl) = (rr_expireMeta C r ttl, Ok ())"
| "store_part C r (CallSetTask name t) = rr_SetTask C r name t"
| "store_part C r (CallDeleteTask name) = rr_DeleteTask C r name"
| "store_part C r CallStorePipe = (fst (rr_execPipe C r False), Ok ())"
| "store_part C r _ = (r, Ok ())"

text \<open>A call on either; both then see the server's new state.\<close>

definition redis_call ::
  "'s redis_client \<Rightarrow> 's redis_broker \<times> 's redis_results \<Rightarrow> redis_call
     \<Rightarrow> ('s redis_broker \<times> 's redis_results) \<times> unit outcome" where
  "redis_call C st c =
     (case st of (b, r) \<Rightarrow>
        (case broker_part C b c of
           Some (b, res) \<Rightarrow> ((b, r\<lparr>rr_conn := rb_conn b\<rparr>), res)
         | None \<Rightarrow> (case store_part C r c of (r, res) \<Rightarrow> ((b\<lparr>rb_conn := rr_conn r\<rparr>, r), res))))"

fun redis_calls ::
  "'s redis_client \<Rightarrow> 's redis_broker \<times> 's redis_results \<Rightarrow> redis_call list
     \<Rightarrow> ('s redis_broker \<times> 's redis_results) \<times> unit outcome list" where
  "redis_calls C st [] = (st, [])"
| "redis_calls C st (c # cs) =
     (case redis_call C st c of (st, res) \<Rightarrow>
        (case redis_calls C st cs of (st, rs) \<Rightarrow> (st, res # rs)))"

text \<open>The names a call may use: a queue's name is no key of the store's or of a sorted set.\<close>

fun names_ok :: "redis_call \<Rightarrow> bool" where
  "names_ok (CallEnqueue q m) = (key_type q = TList)"
| "names_ok (CallConsume q) = (key_type q = TList)"
| "names_ok (CallPromote q) = (key_type q = TList)"
| "names_ok (CallSet k v) = rr_key_ok k"
| "names_ok _ = True"

definition host_typed :: "('s \<Rightarrow> redis_db) \<Rightarrow> 's redis_broker \<times> 's redis_results \<Rightarrow> bool" where
  "host_typed db st =
     (case st of (b, r) \<Rightarrow>
        rb_conn b = rr_conn r \<and> well_typed key_type (db (rb_conn b)) \<and>
        list_all (cmd_typed key_type) (rb_pipe b) \<and> list_all (cmd_typed key_type) (rr_pipe r))"

definition rb_typed :: "('s \<Rightarrow> redis_db) \<Rightarrow> 's redis_broker \<Rightarrow> bool" where
  "rb_typed db b \<longleftrightarrow> well_typed key_type (db (rb_conn b)) \<and> list_all (cmd_typed key_type) (rb_pipe b)"

definition rr_typed :: "('s \<Rightarrow> redis_db) \<Rightarrow> 's redis_results \<Rightarrow> bool" where
  "rr_typed db r \<longleftrightarrow> well_typed key_type (db (rr_conn r)) \<and> list_all (cmd_typed key_type) (rr_pipe r)"

lemma well_typed_list_update:
  "well_typed ty d \<Longrightarrow> ty k = TList \<Longrightarrow> well_typed ty (d\<lparr>db_list := (db_list d)(k := xs)\<rparr>)"
  by (auto simp: well_typed_def holds_only_def)

context redis_up
begin

lemma rb_write_typed:
  assumes "rb_typed db b" "cmd_typed key_type c"
  shows "rb_typed db (fst (rb_send C b c)) \<and> snd (rb_send C b c) = Ok ()"
    "rb_typed db (fst (rb_collect b c)) \<and> snd (rb_collect b c) = Ok ()"
proof -
  have "cmd_ok (db (rb_conn b)) c" using assms by (auto simp: rb_typed_def intro: cmd_typed_ok)
  then show "rb_typed db (fst (rb_send C b c)) \<and> snd (rb_send C b c) = Ok ()"
    using assms Do_eq(2) by (simp add: rb_typed_def cmd_typed_exec Do_up snd_rb_send)
qed (use assms in \<open>simp add: rb_collect_def rb_typed_def\<close>)

lemma rr_write_typed:
  assumes "rr_typed db r" "cmd_typed key_type c"
  shows "rr_typed db (fst (rr_send C r c)) \<and> snd (rr_send C r c) = Ok ()"
    "rr_typed db (fst (rr_collect r c)) \<and> snd (rr_collect r c) = Ok ()"
proof -
  have "rr_pipe (fst (rr_send C r c)) = rr_pipe r" by (simp add: rr_send_def case_prod_beta)
  then show "rr_typed db (fst (rr_send C r c)) \<and> snd (rr_send C r c) = Ok ()"
    using assms rr_send_typed [of key_type r c] by (simp add: rr_typed_def)
qed (use assms in \<open>simp add: rr_collect_def rr_typed_def\<close>)

lemma rr_send_all_pipe [simp]: "rr_pipe (fst (rr_send_all C r cs)) = rr_pipe r"
  by (simp add: rr_send_all_def case_prod_beta)

lemma Exec_typed:
  assumes "well_typed ty (db s)" "list_all (cmd_typed ty) cs"
  shows "well_typed ty (db (fst (c_Exec C s cs)))"
  using Exec_eq(2) cmds_typed [OF assms] by simp

lemma rb_Enqueue_typed:
  "rb_typed db b \<Longrightarrow> key_type q = TList \<Longrightarrow>
     rb_typed db (fst (rb_Enqueue C b m q)) \<and> snd (rb_Enqueue C b m q) = Ok ()"
  by (simp add: rb_Enqueue_def rb_write_typed)

lemma rb_enqueue_due_typed:
  "rb_typed db b \<Longrightarrow> key_type q = TList \<Longrightarrow>
     rb_typed db (fst (rb_enqueue_due C b q ts)) \<and> snd (rb_enqueue_due C b q ts) = Ok ()"
proof (induction ts arbitrary: b)
  case (Cons t ts)
  have "rb_Enqueue C b t q = (fst (rb_Enqueue C b t q), Ok ())"
    using rb_Enqueue_typed [OF Cons.prems, of t] by (simp add: prod_eq_iff)
  then have "rb_enqueue_due C b q (t # ts) = rb_enqueue_due C (fst (rb_Enqueue C b t q)) q ts"
    by (metis on_ok_simps(1) rb_enqueue_due.simps(2))
  then show ?case using Cons.IH [of "fst (rb_Enqueue C b t q)"] Cons.prems rb_Enqueue_typed by simp
qed simp

lemma rb_fetch_due_up:
  assumes "holds_only (db (rb_conn b)) (sortedSetKey q) TZSet"
  shows "\<exists>xs. rb_fetch_due C b q = Ok (take 1 xs)
    \<and> by_score_down (db_zset (db (rb_conn b)) (sortedSetKey q)) 0 (sint (UnixNano (rb_now b))) xs"
  using ZRevRangeByScore_up [OF assms, of 0 "sint (UnixNano (rb_now b))" "(0, 1)"]
    ZRevRangeByScore_Ok [of "rb_conn b" "sortedSetKey q" 0 "sint (UnixNano (rb_now b))" "(0, 1)"]
  by (auto simp: rb_fetch_due_def limited_def)

lemma rb_Consume_typed:
  assumes "rb_typed db b" "key_type q = TList"
  shows "rb_typed db (fst (rb_Consume C b q)) \<and> (\<exists>m. snd (rb_Consume C b q) = Ok m)"
proof -
  have "holds_only (db (rb_conn b)) q TList" using assms by (auto simp: rb_typed_def intro: well_typedD)
  from rb_Consume_up [OF this] show ?thesis
    using assms rb_Consume_sel(2) [of C b q]
    by (auto simp: rb_typed_def well_typed_list_update split: list.splits)
qed

lemma rb_consumeScheduled_typed:
  assumes "rb_typed db b" "key_type q = TList"
  shows "rb_typed db (fst (rb_consumeScheduled C b q))"
proof -
  have "holds_only (db (rb_conn b)) (sortedSetKey q) TZSet"
    using assms(1) by (auto simp: rb_typed_def intro: well_typedD)
  then obtain ts where ts: "rb_fetch_due C b q = Ok ts" using rb_fetch_due_up by blast
  define b1 where "b1 = fst (rb_enqueue_due C b q ts)"
  have b1: "rb_enqueue_due C b q ts = (b1, Ok ())" "rb_typed db b1"
    using rb_enqueue_due_typed [OF assms, of ts] by (simp_all add: b1_def prod_eq_iff)
  have eq: "rb_consumeScheduled C b q = rb_remove_due C b1 q ts"
    using ts b1 Watch_up by (simp add: rb_consumeScheduled_def)
  show ?thesis
  proof (cases "ts = []")
    case True
    have "\<not> cmd_ok (db (rb_conn b1)) (ZREM (sortedSetKey q) [])" by simp
    then have "snd (c_Do C (rb_conn b1) (ZREM (sortedSetKey q) [])) \<noteq> Ok ()"
      using Do_Ok by (metis prod.collapse)
    then obtain e where "c_Do C (rb_conn b1) (ZREM (sortedSetKey q) []) =
        (fst (c_Do C (rb_conn b1) (ZREM (sortedSetKey q) [])), Err e)"
      using Do_answers by (metis (full_types) old.unit.exhaust outcome.exhaust prod.collapse)
    then have "db (fst (c_Do C (rb_conn b1) (ZREM (sortedSetKey q) []))) = db (rb_conn b1)"
      by (rule Do_Err)
    then show ?thesis using b1(2) True eq by (simp add: rb_remove_due_def rb_typed_def)
  next
    case False
    then show ?thesis using rb_write_typed(1) [OF b1(2), of "ZREM (sortedSetKey q) ts"] eq
      by (simp add: rb_remove_due_def)
  qed
qed

lemma broker_part_typed:
  assumes "rb_typed db b" "names_ok c" "broker_part C b c = Some (b', res)"
  shows "rb_typed db b' \<and> (res = Ok () \<or> (\<exists>q. c = CallPromote q))"
proof (cases c)
  case (CallEnqueue q m)
  then show ?thesis using assms rb_Enqueue_typed [of b q m] by auto
next
  case (CallSchedule q m ts)
  then show ?thesis
    using assms rb_write_typed [of b "ZADD (sortedSetKey q) (to_double (sint (UnixNano ts))) m"]
    by (auto simp: rb_EnqueueScheduled_def split: if_splits)
next
  case (CallConsume q)
  then obtain m where "rb_Consume C b q = (fst (rb_Consume C b q), Ok m)" "rb_typed db (fst (rb_Consume C b q))"
    using assms rb_Consume_typed [of b q] by (auto simp: prod_eq_iff)
  then show ?thesis using assms(3) CallConsume by (metis broker_part.simps(3) on_ok_simps(1) option.inject prod.inject)
next
  case (CallPromote q)
  then show ?thesis using assms rb_consumeScheduled_typed [of b q] by (auto simp: prod_eq_iff)
next
  case CallBrokerPipe
  have "rb_typed db (fst (rb_execPipe C b Ticked))"
    using assms(1) Exec_typed by (simp add: rb_execPipe_def rb_exec_def rb_typed_def)
  then show ?thesis using assms CallBrokerPipe by auto
qed (use assms in auto)

lemma store_part_typed:
  assumes "rr_typed db r" "names_ok c"
  shows "rr_typed db (fst (store_part C r c)) \<and> snd (store_part C r c) = Ok ()"
proof -
  note w = rr_write_typed [OF assms(1)]
  have all: "rr_typed db (fst (rr_send_all C r cs)) \<and> snd (rr_send_all C r cs) = Ok ()"
    if "list_all (cmd_typed key_type) cs" for cs
    using rr_send_all_typed [OF _ that, of r] assms(1) by (simp add: rr_typed_def)
  show ?thesis
  proof (cases c)
    case (CallExpire ttl)
    let ?f = "ZREMRANGEBYSCORE (resultPrefix @ failed) 0 (purge_score (rr_now r) ttl)"
    let ?s = "ZREMRANGEBYSCORE (resultPrefix @ success) 0 (purge_score (rr_now r) ttl)"
    have "rr_typed db (fst (rr_send C (fst (rr_send C r ?f)) ?s))"
      "rr_typed db (fst (rr_collect (fst (rr_collect r ?f)) ?s))"
      using w [of ?f] rr_write_typed [of "fst (rr_send C r ?f)" ?s] rr_write_typed [of "fst (rr_collect r ?f)" ?s]
      by simp_all
    then show ?thesis using CallExpire by (simp add: rr_expireMeta_def Let_def)
  next
    case CallStorePipe
    then show ?thesis
      using assms(1) Exec_typed by (simp add: rr_execPipe_def rr_exec_def rr_typed_def)
  qed (use assms w all in \<open>auto simp: rr_Set_def rr_SetSuccess_def rr_SetFailed_def rr_DeleteJob_def
      rr_SetTask_def rr_DeleteTask_def\<close>)
qed

lemma redis_call_typed:
  assumes "host_typed db st" "names_ok c" "redis_call C st c = (st', res)"
  shows "host_typed db st' \<and> (res = Ok () \<or> (\<exists>q. c = CallPromote q))"
proof -
  obtain b r where st: "st = (b, r)" by fastforce
  have ty: "rb_typed db b" "rr_typed db r" "rb_conn b = rr_conn r"
    using assms(1) by (auto simp: st host_typed_def rb_typed_def rr_typed_def)
  show ?thesis
  proof (cases "broker_part C b c")
    case None
    obtain r' res' where r': "store_part C r c = (r', res')" by fastforce
    then have "rr_typed db r'" "res' = Ok ()" using store_part_typed [OF ty(2) assms(2)] by simp_all
    then show ?thesis
      using assms(3) None r' ty by (auto simp: st redis_call_def host_typed_def rr_typed_def rb_typed_def)
  next
    case (Some p)
    obtain b' res' where p: "p = (b', res')" by fastforce
    then show ?thesis
      using broker_part_typed [OF ty(1) assms(2), of b' res'] assms(3) Some ty
      by (auto simp: st redis_call_def host_typed_def rr_typed_def rb_typed_def)
  qed
qed

end

end
