(* ===== verification/Redis_Scheduled.thy ===== *)
theory Redis_Scheduled
  imports Redis_System
begin

text \<open>
  The scheduled messages of the Redis broker: when one is due, what a run of the turns of
  \<open>consumeScheduled\<close> does, and the turns of several pollers cut at their commands.
\<close>

section \<open>When a message is due\<close>

text \<open>The scheduled messages of a queue that a turn at the broker's present time may take.\<close>

definition due :: "('s \<Rightarrow> redis_db) \<Rightarrow> 's redis_broker \<Rightarrow> string \<Rightarrow> string set" where
  "due db b q =
     {m. in_range 0 (sint (UnixNano (rb_now b))) (db_zset (db (rb_conn b)) (sortedSetKey q) m)}"

definition unix_epoch :: time where
  "unix_epoch = 62135596800000000000"

lemma sint_UnixNano:
  assumes "- (2 ^ 63) \<le> t - unix_epoch" "t - unix_epoch < 2 ^ 63"
  shows "sint (UnixNano t) = t - unix_epoch"
proof -
  have "UnixNano t = word_of_int (t - unix_epoch)" by (simp add: UnixNano_def unix_epoch_def)
  then have "sint (UnixNano t) = signed_take_bit 63 (t - unix_epoch)"
    by (simp only: signed_of_int) simp
  then show ?thesis using assms by (simp add: signed_take_bit_int_eq_self)
qed

lemma in_range_score:
  assumes "unix_epoch \<le> ts" "ts - unix_epoch < 2 ^ 63 - 1024" "unix_epoch \<le> now" "now - unix_epoch < 2 ^ 63"
  shows "ts \<le> now \<Longrightarrow> in_range 0 (sint (UnixNano now)) (Some (to_double (sint (UnixNano ts))))"
    "in_range 0 (sint (UnixNano now)) (Some (to_double (sint (UnixNano ts)))) \<Longrightarrow> ts \<le> now + 1024"
proof -
  have eq: "sint (UnixNano ts) = ts - unix_epoch" "sint (UnixNano now) = now - unix_epoch"
    using assms by (simp_all add: sint_UnixNano)
  show "in_range 0 (sint (UnixNano now)) (Some (to_double (sint (UnixNano ts))))" if "ts \<le> now"
    using that assms to_double_mono [of 0 "ts - unix_epoch"] to_double_mono [of "ts - unix_epoch" "now - unix_epoch"]
    by (simp add: in_range_def eq)
  show "ts \<le> now + 1024" if "in_range 0 (sint (UnixNano now)) (Some (to_double (sint (UnixNano ts))))"
    using that assms to_double_close [of "ts - unix_epoch"] to_double_close [of "now - unix_epoch"]
    by (simp add: in_range_def eq abs_le_iff)
qed

text \<open>A time before 1970 is never due: its score is below the range the loop asks for.\<close>

lemma before_1970_never_due:
  assumes "ts < unix_epoch" "- (2 ^ 63) < ts - unix_epoch"
  shows "\<not> in_range 0 now (Some (to_double (sint (UnixNano ts))))"
proof -
  have eq: "sint (UnixNano ts) = ts - unix_epoch" using assms by (simp add: sint_UnixNano)
  have "to_double (ts - unix_epoch) \<le> to_double (- 1)" using assms by (intro to_double_mono) simp
  moreover have "to_double (- 1) = - 1" "to_double 0 = 0"
    by (simp_all add: to_double_def double_nat_def excess.simps round_even_def)
  ultimately show ?thesis by (simp add: in_range_def eq)
qed

section \<open>Turns of the loop\<close>

lemma by_score_down_Cons:
  assumes "by_score_down z lo hi (m # xs)" "by_score_down (z(m := None)) lo hi ys"
  shows "by_score_down z lo hi (m # ys)"
proof -
  have ys: "set ys = {k. in_range lo hi (z k)} - {m}" "m \<notin> set ys"
    using assms(2) by (auto simp: by_score_down_def in_range_def)
  then have set: "set ys = set xs" using assms(1) by (auto simp: by_score_down_def)
  have "sorted_wrt (\<lambda>a b. the (z b) \<le> the (z a)) ys"
  proof (rule sorted_wrt_mono_rel)
    show "sorted_wrt (\<lambda>a b. the ((z(m := None)) b) \<le> the ((z(m := None)) a)) ys"
      using assms(2) by (simp add: by_score_down_def)
    show "the (z y) \<le> the (z x)"
      if "x \<in> set ys" "y \<in> set ys" "the ((z(m := None)) y) \<le> the ((z(m := None)) x)" for x y
      using that ys(2) by (metis fun_upd_apply)
  qed
  then show ?thesis
    using assms ys set by (auto simp: by_score_down_def)
qed

lemma sortedSetKey_neq [simp]: "sortedSetKey q \<noteq> q" "q \<noteq> sortedSetKey q"
  by (simp_all add: sortedSetKey_def)

text \<open>One turn of the loop, the state it leaves.\<close>

definition promoted :: "'s redis_client \<Rightarrow> string \<Rightarrow> 's redis_broker \<Rightarrow> 's redis_broker" where
  "promoted C q b = fst (rb_consumeScheduled C b q)"

definition sched_ok :: "('s \<Rightarrow> redis_db) \<Rightarrow> string \<Rightarrow> 's redis_broker \<Rightarrow> bool" where
  "sched_ok db q b \<longleftrightarrow> rb_direct b \<and> holds_only (db (rb_conn b)) q TList
     \<and> holds_only (db (rb_conn b)) (sortedSetKey q) TZSet"

context redis_up
begin

lemma promote_one:
  assumes "sched_ok db q b" "rb_fetch_due C b q = Ok [m]"
  shows "\<exists>s. rb_consumeScheduled C b q = (b\<lparr>rb_conn := s\<rparr>, Ok ())
    \<and> db s = db_exec (ZREM (sortedSetKey q) [m]) (db_exec (LPUSH q m) (db (rb_conn b)))"
proof -
  have b: "rb_direct b" "holds_only (db (rb_conn b)) q TList" "holds_only (db (rb_conn b)) (sortedSetKey q) TZSet"
    using assms(1) by (simp_all add: sched_ok_def)
  obtain s1 where s1: "rb_Enqueue C b m q = (b\<lparr>rb_conn := s1\<rparr>, Ok ())"
    "db s1 = db_exec (LPUSH q m) (db (rb_conn b))"
    using rb_Enqueue_up [OF b(1,2)] by blast
  have "cmd_ok (db s1) (ZREM (sortedSetKey q) [m])"
    using b(3) by (simp add: s1 holds_only_def)
  then obtain s2 where "rb_send C (b\<lparr>rb_conn := s1\<rparr>) (ZREM (sortedSetKey q) [m]) = (b\<lparr>rb_conn := s2\<rparr>, Ok ())"
    "db s2 = db_exec (ZREM (sortedSetKey q) [m]) (db s1)"
    using rb_send_up [of "b\<lparr>rb_conn := s1\<rparr>" "ZREM (sortedSetKey q) [m]"] by auto
  then show ?thesis
    using s1 Watch_up assms(2) by (intro exI [of _ s2]) (simp add: rb_consumeScheduled_def rb_remove_due_def)
qed

lemma promoted_none:
  assumes "rb_fetch_due C b q = Ok []"
  shows "db (rb_conn (promoted C q b)) = db (rb_conn b)"
proof -
  have "promoted C q b = fst (rb_send C b (ZREM (sortedSetKey q) []))"
    using assms Watch_up by (simp add: promoted_def rb_consumeScheduled_def rb_remove_due_def)
  moreover have "snd (c_Do C (rb_conn b) (ZREM (sortedSetKey q) [])) \<noteq> Ok ()"
    using Do_Ok [of "rb_conn b" "ZREM (sortedSetKey q) []"]
    by (cases "c_Do C (rb_conn b) (ZREM (sortedSetKey q) [])") auto
  ultimately show ?thesis
    using Do_Err Do_answers [of "rb_conn b" "ZREM (sortedSetKey q) []"]
    by (cases "c_Do C (rb_conn b) (ZREM (sortedSetKey q) [])"; cases "snd (c_Do C (rb_conn b) (ZREM (sortedSetKey q) []))")
      auto
qed

text \<open>As many turns as there are due messages take them all, from the latest to the earliest.\<close>

lemma promotes_due:
  assumes "sched_ok db q b"
  shows "\<exists>xs. by_score_down (db_zset (db (rb_conn b)) (sortedSetKey q)) 0 (sint (UnixNano (rb_now b))) xs
    \<and> (\<forall>n \<le> length xs. let b' = (promoted C q ^^ n) b in
         sched_ok db q b' \<and> rb_now b' = rb_now b
         \<and> rb_line db b' q = rev (take n xs) @ rb_line db b q
         \<and> db_zset (db (rb_conn b')) (sortedSetKey q) =
             (\<lambda>m. if m \<in> set (take n xs) then None else db_zset (db (rb_conn b)) (sortedSetKey q) m))"
proof -
  have "finite (due db b q)"
    using rb_fetch_due_up [of b q] assms by (auto simp: due_def sched_ok_def by_score_down_def) (metis List.finite_set)
  then show ?thesis
    using assms
  proof (induction "card (due db b q)" arbitrary: b)
    case 0
    then have "due db b q = {}" by simp
    then have "by_score_down (db_zset (db (rb_conn b)) (sortedSetKey q)) 0 (sint (UnixNano (rb_now b))) []"
      by (auto simp: by_score_down_def due_def)
    then show ?case using 0 by (intro exI [of _ "[]"]) simp
  next
    case (Suc n)
    let ?z = "db_zset (db (rb_conn b)) (sortedSetKey q)" and ?now = "sint (UnixNano (rb_now b))"
    obtain xs where fetch: "rb_fetch_due C b q = Ok (take 1 xs)" and xs: "by_score_down ?z 0 ?now xs"
      using rb_fetch_due_up [of b q] Suc.prems(2) by (auto simp: sched_ok_def)
    have "set xs = due db b q" using xs by (simp add: by_score_down_def due_def)
    then obtain m xs' where m: "xs = m # xs'" "m \<in> due db b q" using Suc.hyps(2) by (cases xs) auto
    define b1 where "b1 = promoted C q b"
    obtain s where s: "b1 = b\<lparr>rb_conn := s\<rparr>"
      "db s = db_exec (ZREM (sortedSetKey q) [m]) (db_exec (LPUSH q m) (db (rb_conn b)))"
      using promote_one [OF Suc.prems(2), of m] fetch m by (auto simp: b1_def promoted_def)
    have z1: "db_zset (db (rb_conn b1)) (sortedSetKey q) = ?z(m := None)" by (auto simp: s)
    have l1: "rb_line db b1 q = m # rb_line db b q" by (simp add: s rb_line_def)
    have ok1: "sched_ok db q b1" "rb_now b1 = rb_now b"
      using Suc.prems(2) by (auto simp: s sched_ok_def rb_direct_def holds_only_def)
    have due1: "due db b1 q = due db b q - {m}"
      by (auto simp: due_def z1 ok1(2) in_range_def)
    then have "n = card (due db b1 q)" "finite (due db b1 q)" using Suc m(2) by simp_all
    note hyp = Suc.hyps(1) [OF this ok1(1), unfolded z1 l1 ok1(2)]
    obtain ys where
      ys: "by_score_down (?z(m := None)) 0 ?now ys" and
      IH: "\<And>n. n \<le> length ys \<Longrightarrow> let b' = (promoted C q ^^ n) b1 in
         sched_ok db q b' \<and> rb_now b' = rb_now b
         \<and> rb_line db b' q = rev (take n ys) @ m # rb_line db b q
         \<and> db_zset (db (rb_conn b')) (sortedSetKey q) = (\<lambda>k. if k \<in> set (take n ys) then None else (?z(m := None)) k)"
      using hyp by blast
    have "by_score_down ?z 0 ?now (m # ys)" by (rule by_score_down_Cons [OF xs [unfolded m(1)] ys])
    moreover have "let b' = (promoted C q ^^ k) b in
         sched_ok db q b' \<and> rb_now b' = rb_now b
         \<and> rb_line db b' q = rev (take k (m # ys)) @ rb_line db b q
         \<and> db_zset (db (rb_conn b')) (sortedSetKey q) = (\<lambda>j. if j \<in> set (take k (m # ys)) then None else ?z j)"
      if "k \<le> length (m # ys)" for k
    proof (cases k)
      case 0
      then show ?thesis using Suc.prems(2) by simp
    next
      case (Suc k')
      have "(promoted C q ^^ k) b = (promoted C q ^^ k') b1"
        by (simp add: Suc b1_def funpow_swap1)
      then show ?thesis using IH [of k'] that by (auto simp: Suc Let_def fun_eq_iff)
    qed
    ultimately show ?case by (intro exI [of _ "m # ys"]) blast
  qed
qed

end

section \<open>Several pollers\<close>

text \<open>
  Each process that consumes a queue runs the loop. A turn is not atomic: the transaction
  watches no key and its commands are sent one by one. Here the turns of any number of
  pollers with the same options, without pipe, are cut at their commands. A poller holds
  the messages it has fetched; \<open>None\<close> when it has ended its turn.
\<close>

datatype poller_step = Fetch nat | Push nat | Remove nat

fun poll_step ::
  "'s redis_client \<Rightarrow> 's redis_broker \<Rightarrow> string \<Rightarrow> 's \<times> (nat \<Rightarrow> string list option) \<Rightarrow> poller_step
     \<Rightarrow> 's \<times> (nat \<Rightarrow> string list option)" where
  "poll_step C b q (s, got) (Fetch i) =
     (s, got(i := (case rb_fetch_due C (b\<lparr>rb_conn := s\<rparr>) q of Ok tasks \<Rightarrow> Some tasks | _ \<Rightarrow> None)))"
| "poll_step C b q (s, got) (Push i) =
     (case got i of
        None \<Rightarrow> (s, got)
      | Some tasks \<Rightarrow>
          (case rb_enqueue_due C (b\<lparr>rb_conn := s\<rparr>) q tasks of
             (b, Ok _) \<Rightarrow> (rb_conn b, got)
           | (b, _) \<Rightarrow> (rb_conn b, got(i := None))))"
| "poll_step C b q (s, got) (Remove i) =
     (case got i of
        None \<Rightarrow> (s, got)
      | Some tasks \<Rightarrow> (rb_conn (fst (rb_remove_due C (b\<lparr>rb_conn := s\<rparr>) q tasks)), got(i := None)))"

definition polls ::
  "'s redis_client \<Rightarrow> 's redis_broker \<Rightarrow> string \<Rightarrow> 's \<times> (nat \<Rightarrow> string list option) \<Rightarrow> poller_step list
     \<Rightarrow> 's \<times> (nat \<Rightarrow> string list option)" where
  "polls C b q = foldl (poll_step C b q)"

lemma polls_simps [simp]:
  "polls C b q st [] = st" "polls C b q st (x # xs) = polls C b q (poll_step C b q st x) xs"
  "polls C b q st (xs @ ys) = polls C b q (polls C b q st xs) ys"
  by (simp_all add: polls_def)

text \<open>The three steps of one poller in a row are the turn of the loop.\<close>

lemma polls_turn:
  assumes "c_Watch C s [] = Ok ()"
  shows "fst (polls C b q (s, got) [Fetch i, Push i, Remove i])
    = rb_conn (fst (rb_consumeScheduled C (b\<lparr>rb_conn := s\<rparr>) q))"
proof (cases "rb_fetch_due C (b\<lparr>rb_conn := s\<rparr>) q")
  case (Ok tasks)
  obtain b' res where e: "rb_enqueue_due C (b\<lparr>rb_conn := s\<rparr>) q tasks = (b', res)" by fastforce
  then show ?thesis
    using assms Ok by (cases res) (simp_all add: rb_consumeScheduled_def rb_remove_due_def rb_send_def case_prod_beta)
qed (use assms in \<open>simp_all add: rb_consumeScheduled_def\<close>)

text \<open>The schedule in which all pollers fetch first, then all enqueue, then all remove.\<close>

definition all_at_once :: "nat list \<Rightarrow> poller_step list" where
  "all_at_once is = map Fetch is @ map Push is @ map Remove is"

definition one_by_one :: "nat list \<Rightarrow> poller_step list" where
  "one_by_one is = concat (map (\<lambda>i. [Fetch i, Push i, Remove i]) is)"

lemma polls_fetch:
  assumes "rb_fetch_due C (b\<lparr>rb_conn := s\<rparr>) q = Ok ts"
  shows "polls C b q (s, got) (map Fetch is) = (s, \<lambda>i. if i \<in> set is then Some ts else got i)"
  using assms by (induction "is" arbitrary: got) (auto simp: fun_eq_iff)

context redis_up
begin

lemma fetch_due_single:
  assumes "sched_ok db q b" "due db b q = {m}"
  shows "rb_fetch_due C b q = Ok [m]"
proof -
  obtain xs where xs: "rb_fetch_due C b q = Ok (take 1 xs)" "set xs = {m}" "distinct xs"
    using rb_fetch_due_up [of b q] assms by (auto simp: sched_ok_def by_score_down_def due_def)
  then have "xs = [m]" by (cases xs; cases "tl xs") auto
  then show ?thesis using xs(1) by simp
qed

lemma fetch_due_empty:
  assumes "sched_ok db q b" "due db b q = {}"
  shows "rb_fetch_due C b q = Ok []"
  using rb_fetch_due_up [of b q] assms by (auto simp: sched_ok_def by_score_down_def due_def)

lemma polls_push:
  assumes "sched_ok db q (b\<lparr>rb_conn := s\<rparr>)" "\<And>i. i \<in> set is \<Longrightarrow> got i = Some [m]"
  shows "\<exists>s'. polls C b q (s, got) (map Push is) = (s', got) \<and> sched_ok db q (b\<lparr>rb_conn := s'\<rparr>)
    \<and> db s' = db s\<lparr>db_list := (db_list (db s))(q := replicate (length is) m @ db_list (db s) q)\<rparr>"
  using assms
proof (induction "is" arbitrary: s)
  case (Cons i "is")
  have b: "rb_direct (b\<lparr>rb_conn := s\<rparr>)" "holds_only (db s) q TList"
    using Cons.prems(1) by (simp_all add: sched_ok_def)
  obtain s1 where s1: "rb_Enqueue C (b\<lparr>rb_conn := s\<rparr>) m q = (b\<lparr>rb_conn := s1\<rparr>, Ok ())"
    "db s1 = db s\<lparr>db_list := (db_list (db s))(q := m # db_list (db s) q)\<rparr>"
    using rb_Enqueue_up [OF b(1), of q m] b(2) by auto
  have "sched_ok db q (b\<lparr>rb_conn := s1\<rparr>)"
    using Cons.prems(1) by (auto simp: s1 sched_ok_def rb_direct_def holds_only_def)
  moreover have "\<And>j. j \<in> set is \<Longrightarrow> got j = Some [m]" using Cons.prems(2) by simp
  ultimately obtain s' where s': "polls C b q (s1, got) (map Push is) = (s', got)" "sched_ok db q (b\<lparr>rb_conn := s'\<rparr>)"
    "db s' = db s1\<lparr>db_list := (db_list (db s1))(q := replicate (length is) m @ db_list (db s1) q)\<rparr>"
    using Cons.IH by blast
  have "poll_step C b q (s, got) (Push i) = (s1, got)"
    using Cons.prems(2) s1 by simp
  then have "polls C b q (s, got) (map Push (i # is)) = (s', got)" using s'(1) by simp
  moreover have "db s' = db s\<lparr>db_list := (db_list (db s))(q := replicate (length (i # is)) m @ db_list (db s) q)\<rparr>"
    unfolding s'(3) s1(2) by (simp add: replicate_app_Cons_same)
  ultimately show ?case using s'(2) by blast
qed simp

lemma polls_remove:
  assumes "sched_ok db q (b\<lparr>rb_conn := s\<rparr>)" "\<And>i. i \<in> set is \<Longrightarrow> got i = Some [m]" "distinct is" "is \<noteq> []"
  shows "db (fst (polls C b q (s, got) (map Remove is))) = db_exec (ZREM (sortedSetKey q) [m]) (db s)"
  using assms
proof (induction "is" arbitrary: s got)
  case (Cons i "is")
  obtain s1 where s1: "rb_remove_due C (b\<lparr>rb_conn := s\<rparr>) q [m] = (b\<lparr>rb_conn := s1\<rparr>, Ok ())"
    "db s1 = db_exec (ZREM (sortedSetKey q) [m]) (db s)"
    using rb_send_up [of "b\<lparr>rb_conn := s\<rparr>" "ZREM (sortedSetKey q) [m]"] Cons.prems(1)
    by (auto simp: sched_ok_def rb_remove_due_def)
  have ok: "sched_ok db q (b\<lparr>rb_conn := s1\<rparr>)"
    using Cons.prems(1) by (auto simp: s1 sched_ok_def rb_direct_def holds_only_def)
  have step: "poll_step C b q (s, got) (Remove i) = (s1, got(i := None))"
    using Cons.prems(2) s1 by simp
  show ?case
  proof (cases "is = []")
    case True
    then show ?thesis using step s1(2) by simp
  next
    case False
    then have "db (fst (polls C b q (s1, got(i := None)) (map Remove is))) = db_exec (ZREM (sortedSetKey q) [m]) (db s1)"
      using Cons.prems ok by (intro Cons.IH) auto
    also have "\<dots> = db_exec (ZREM (sortedSetKey q) [m]) (db s)" by (auto simp: s1(2) fun_eq_iff)
    finally show ?thesis using step by simp
  qed
qed simp

lemma polls_one_by_one_none:
  assumes "sched_ok db q (b\<lparr>rb_conn := s\<rparr>)" "due db (b\<lparr>rb_conn := s\<rparr>) q = {}"
  shows "db (fst (polls C b q (s, got) (one_by_one is))) = db s"
  using assms
proof (induction "is" arbitrary: s got)
  case (Cons i "is")
  obtain s1 got1 where s1: "polls C b q (s, got) [Fetch i, Push i, Remove i] = (s1, got1)" by fastforce
  then have "s1 = rb_conn (promoted C q (b\<lparr>rb_conn := s\<rparr>))"
    using polls_turn [of C s b q got i] Watch_up by (simp add: promoted_def del: polls_simps(2))
  then have db: "db s1 = db s"
    using promoted_none [OF fetch_due_empty [OF Cons.prems]] by simp
  have "db (fst (polls C b q (s1, got1) (one_by_one is))) = db s1"
    using Cons.prems by (intro Cons.IH) (simp_all add: db sched_ok_def due_def rb_direct_def)
  moreover have "one_by_one (i # is) = [Fetch i, Push i, Remove i] @ one_by_one is" by (simp add: one_by_one_def)
  then have "polls C b q (s, got) (one_by_one (i # is)) = polls C b q (s1, got1) (one_by_one is)"
    by (simp only: polls_simps(3) s1)
  ultimately show ?case using db by simp
qed (simp add: one_by_one_def)

lemma polls_all_at_once:
  assumes "sched_ok db q b" "due db b q = {m}" "distinct is" "is \<noteq> []"
  shows "db (fst (polls C b q (rb_conn b, \<lambda>_. None) (all_at_once is))) =
    db_exec (ZREM (sortedSetKey q) [m]) (db (rb_conn b)\<lparr>db_list := (db_list (db (rb_conn b)))
      (q := replicate (length is) m @ rb_line db b q)\<rparr>)"
proof -
  let ?got = "\<lambda>i. if i \<in> set is then Some [m] else None"
  have ok: "sched_ok db q (b\<lparr>rb_conn := rb_conn b\<rparr>)" using assms(1) by simp
  obtain s where s: "polls C b q (rb_conn b, ?got) (map Push is) = (s, ?got)" "sched_ok db q (b\<lparr>rb_conn := s\<rparr>)"
    "db s = db (rb_conn b)\<lparr>db_list := (db_list (db (rb_conn b)))(q := replicate (length is) m @ db_list (db (rb_conn b)) q)\<rparr>"
    using polls_push [OF ok, of "is" ?got m] by auto
  have "polls C b q (rb_conn b, \<lambda>_. None) (map Fetch is) = (rb_conn b, ?got)"
    using polls_fetch [where b = b and s = "rb_conn b" and ts = "[m]"] fetch_due_single [OF assms(1,2)] by simp
  then have "polls C b q (rb_conn b, \<lambda>_. None) (all_at_once is) = polls C b q (s, ?got) (map Remove is)"
    using s(1) by (simp add: all_at_once_def)
  then show ?thesis using polls_remove [OF s(2), of "is" ?got m] assms(3,4) s(3) by (simp add: rb_line_def)
qed

lemma polls_one_by_one:
  assumes "sched_ok db q b" "due db b q = {m}" "is \<noteq> []"
  shows "db (fst (polls C b q (rb_conn b, \<lambda>_. None) (one_by_one is))) =
    db_exec (ZREM (sortedSetKey q) [m]) (db_exec (LPUSH q m) (db (rb_conn b)))"
proof -
  obtain i js where js: "is = i # js" using assms(3) by (cases "is") auto
  obtain s1 got1 where s1: "polls C b q (rb_conn b, \<lambda>_. None) [Fetch i, Push i, Remove i] = (s1, got1)" by fastforce
  obtain s where s: "rb_consumeScheduled C b q = (b\<lparr>rb_conn := s\<rparr>, Ok ())"
    "db s = db_exec (ZREM (sortedSetKey q) [m]) (db_exec (LPUSH q m) (db (rb_conn b)))"
    using promote_one [OF assms(1) fetch_due_single [OF assms(1,2)]] by blast
  have "s1 = s" using s1 s polls_turn [of C "rb_conn b" b q "\<lambda>_. None" i] Watch_up by (simp del: polls_simps(2))
  moreover have "sched_ok db q (b\<lparr>rb_conn := s\<rparr>)"
    using assms(1) by (auto simp: s sched_ok_def rb_direct_def holds_only_def)
  moreover have "due db (b\<lparr>rb_conn := s\<rparr>) q = {}"
    using assms(2) by (auto simp: s due_def in_range_def split: if_splits)
  ultimately have "db (fst (polls C b q (s1, got1) (one_by_one js))) = db s"
    using polls_one_by_one_none by simp
  moreover have "one_by_one is = [Fetch i, Push i, Remove i] @ one_by_one js" by (simp add: js one_by_one_def)
  then have "polls C b q (rb_conn b, \<lambda>_. None) (one_by_one is) = polls C b q (s1, got1) (one_by_one js)"
    by (simp only: polls_simps(3) s1)
  ultimately show ?thesis using s(2) by simp
qed

end

end
