(* ===== verification/Reference_Redis.thy ===== *)
theory Reference_Redis
  imports Redis_Results
begin

text \<open>
  A Redis server with its client as an executable instance of \<open>redis_up\<close>: its data are
  association lists. It shows that what is assumed of the client can hold, and the examples
  run on it.
\<close>

record ref_redis =
  ref_strs :: "(string \<times> bytes) list"
  ref_lists :: "(string \<times> bytes list) list"
  ref_zsets :: "(string \<times> (string \<times> int) list) list"
  ref_sets :: "(string \<times> string list) list"

definition ref_empty :: ref_redis where
  "ref_empty = \<lparr>ref_strs = [], ref_lists = [], ref_zsets = [], ref_sets = []\<rparr>"

definition at_key :: "(string \<times> 'a list) list \<Rightarrow> string \<Rightarrow> 'a list" where
  "at_key m k = (case map_of m k of None \<Rightarrow> [] | Some xs \<Rightarrow> xs)"

definition ref_db :: "ref_redis \<Rightarrow> redis_db" where
  "ref_db s =
     \<lparr>db_str = map_of (ref_strs s), db_list = at_key (ref_lists s),
      db_zset = (\<lambda>k. map_of (at_key (ref_zsets s) k)), db_set = (\<lambda>k. set (at_key (ref_sets s) k))\<rparr>"

lemma at_key_simps [simp]:
  "at_key [] k = []"
  "at_key (AList.update k xs m) = (at_key m)(k := xs)"
  "at_key (AList.delete k m) = (at_key m)(k := [])"
  by (simp_all add: at_key_def fun_eq_iff)

lemma ref_db_sel [simp]:
  "db_str (ref_db s) = map_of (ref_strs s)" "db_list (ref_db s) = at_key (ref_lists s)"
  "db_zset (ref_db s) k = map_of (at_key (ref_zsets s) k)" "db_set (ref_db s) k = set (at_key (ref_sets s) k)"
  by (simp_all add: ref_db_def)

lemma holds_only_ref:
  "holds_only (ref_db s) k T \<longleftrightarrow>
     (T \<noteq> TString \<longrightarrow> map_of (ref_strs s) k = None) \<and> (T \<noteq> TList \<longrightarrow> at_key (ref_lists s) k = []) \<and>
     (T \<noteq> TZSet \<longrightarrow> at_key (ref_zsets s) k = []) \<and> (T \<noteq> TSet \<longrightarrow> at_key (ref_sets s) k = [])"
  by (auto simp: holds_only_def map_of_eq_empty_iff)

section \<open>Commands\<close>

fun ref_exec :: "redis_cmd \<Rightarrow> ref_redis \<Rightarrow> ref_redis" where
  "ref_exec (SET k v ttl) s =
     \<lparr>ref_strs = AList.update k v (ref_strs s), ref_lists = AList.delete k (ref_lists s),
      ref_zsets = AList.delete k (ref_zsets s), ref_sets = AList.delete k (ref_sets s)\<rparr>"
| "ref_exec (DEL k) s =
     \<lparr>ref_strs = AList.delete k (ref_strs s), ref_lists = AList.delete k (ref_lists s),
      ref_zsets = AList.delete k (ref_zsets s), ref_sets = AList.delete k (ref_sets s)\<rparr>"
| "ref_exec (LPUSH k m) s = s\<lparr>ref_lists := AList.update k (m # at_key (ref_lists s) k) (ref_lists s)\<rparr>"
| "ref_exec (ZADD k sc m) s =
     s\<lparr>ref_zsets := AList.update k (AList.update m sc (at_key (ref_zsets s) k)) (ref_zsets s)\<rparr>"
| "ref_exec (ZREM k ms) s =
     s\<lparr>ref_zsets := AList.update k (filter (\<lambda>p. fst p \<notin> set ms) (at_key (ref_zsets s) k)) (ref_zsets s)\<rparr>"
| "ref_exec (ZREMRANGEBYSCORE k lo hi) s =
     (let z = at_key (ref_zsets s) k in
      s\<lparr>ref_zsets := AList.update k (filter (\<lambda>p. \<not> in_range lo hi (map_of z (fst p))) z) (ref_zsets s)\<rparr>)"
| "ref_exec (SADD k m) s =
     s\<lparr>ref_sets := AList.update k (List.insert m (at_key (ref_sets s) k)) (ref_sets s)\<rparr>"
| "ref_exec (SREM k m) s =
     s\<lparr>ref_sets := AList.update k (filter (\<lambda>x. x \<noteq> m) (at_key (ref_sets s) k)) (ref_sets s)\<rparr>"

lemma map_of_filter_fst: "map_of (filter (\<lambda>p. P (fst p)) xs) x = (if P x then map_of xs x else None)"
  by (induction xs) auto

lemma ref_db_exec: "ref_db (ref_exec c s) = db_exec c (ref_db s)"
proof (cases c)
  case (ZREM k ms)
  then show ?thesis by (auto simp: ref_db_def fun_eq_iff map_of_filter_fst [where P = "\<lambda>x. x \<notin> set ms"])
next
  case (ZREMRANGEBYSCORE k lo hi)
  then show ?thesis
    by (auto simp: ref_db_def fun_eq_iff Let_def
        map_of_filter_fst [where P = "\<lambda>x. \<not> in_range lo hi (map_of (at_key (ref_zsets s) k) x)"])
qed (auto simp: ref_db_def db_clear_def fun_eq_iff)

definition wrong_type :: go_error where
  "wrong_type = External ''WRONGTYPE Operation against a key holding the wrong kind of value''"

definition ref_Do :: "ref_redis \<Rightarrow> redis_cmd \<Rightarrow> ref_redis \<times> unit outcome" where
  "ref_Do s c = (if cmd_ok (ref_db s) c then (ref_exec c s, Ok ()) else (s, Err wrong_type))"

fun ref_Exec :: "ref_redis \<Rightarrow> redis_cmd list \<Rightarrow> ref_redis \<times> unit outcome" where
  "ref_Exec s [] = (s, Ok ())"
| "ref_Exec s (c # cs) =
     (if cmd_ok (ref_db s) c then ref_Exec (ref_exec c s) cs else (fst (ref_Exec s cs), Err wrong_type))"

definition ref_BLPop :: "ref_redis \<Rightarrow> duration \<Rightarrow> string \<Rightarrow> ref_redis \<times> string list outcome" where
  "ref_BLPop s t k =
     (if \<not> holds_only (ref_db s) k TList then (s, Err wrong_type)
      else case at_key (ref_lists s) k of
        [] \<Rightarrow> (s, Err RedisNil)
      | m # ms \<Rightarrow> (s\<lparr>ref_lists := AList.update k ms (ref_lists s)\<rparr>, Ok [k, m]))"

definition ref_range :: "(string \<times> int) list \<Rightarrow> int \<Rightarrow> int \<Rightarrow> string list" where
  "ref_range z lo hi =
     sort_key (\<lambda>m. - the (map_of z m)) (filter (\<lambda>m. in_range lo hi (map_of z m)) (remdups (map fst z)))"

definition if_type :: "ref_redis \<Rightarrow> string \<Rightarrow> redis_type \<Rightarrow> 'a outcome \<Rightarrow> 'a outcome" where
  "if_type s k T res = (if holds_only (ref_db s) k T then res else Err wrong_type)"

definition ref_client :: "ref_redis redis_client" where
  "ref_client =
     \<lparr>c_Do = ref_Do, c_Exec = ref_Exec,
      c_Get = (\<lambda>s k. if_type s k TString
        (case map_of (ref_strs s) k of None \<Rightarrow> Err RedisNil | Some v \<Rightarrow> Ok v)),
      c_MGet = (\<lambda>s ks. Ok (map (map_of (ref_strs s)) ks)),
      c_SMembers = (\<lambda>s k. if_type s k TSet (Ok (remdups (at_key (ref_sets s) k)))),
      c_ZRevRangeByScore = (\<lambda>s k lo hi lim. if_type s k TZSet (Ok (limited lim (ref_range (at_key (ref_zsets s) k) lo hi)))),
      c_LRange = (\<lambda>s k i j. if_type s k TList (Ok (lrange (sint i) (sint j) (at_key (ref_lists s) k)))),
      c_LLen = (\<lambda>s k. if_type s k TList (Ok (of_nat (length (at_key (ref_lists s) k))))),
      c_BLPop = ref_BLPop,
      c_Watch = (\<lambda>s ks. Ok ())\<rparr>"

lemma ref_client_sel [simp]:
  "c_Do ref_client = ref_Do" "c_Exec ref_client = ref_Exec"
  "c_Get ref_client s k = if_type s k TString (case map_of (ref_strs s) k of None \<Rightarrow> Err RedisNil | Some v \<Rightarrow> Ok v)"
  "c_MGet ref_client s ks = Ok (map (map_of (ref_strs s)) ks)"
  "c_SMembers ref_client s k = if_type s k TSet (Ok (remdups (at_key (ref_sets s) k)))"
  "c_ZRevRangeByScore ref_client s k lo hi lim =
     if_type s k TZSet (Ok (limited lim (ref_range (at_key (ref_zsets s) k) lo hi)))"
  "c_LRange ref_client s k i j = if_type s k TList (Ok (lrange (sint i) (sint j) (at_key (ref_lists s) k)))"
  "c_LLen ref_client s k = if_type s k TList (Ok (of_nat (length (at_key (ref_lists s) k))))"
  "c_BLPop ref_client = ref_BLPop" "c_Watch ref_client s ks = Ok ()"
  by (simp_all add: ref_client_def)

lemma ref_range_down: "by_score_down (map_of z) lo hi (ref_range z lo hi)"
proof -
  have "sorted_wrt (\<lambda>a b. - the (map_of z a) \<le> - the (map_of z b)) (ref_range z lo hi)"
    using sorted_sort_key [of "\<lambda>m. - the (map_of z m)"] by (simp add: ref_range_def sorted_map)
  moreover have "m \<in> fst ` set z" if "in_range lo hi (map_of z m)" for m
    using that by (auto simp: in_range_def map_of_eq_None_iff split: option.splits)
      (metis map_of_eq_None_iff option.distinct(1))
  ultimately show ?thesis by (auto simp: by_score_down_def ref_range_def)
qed

lemma ref_Exec_pipelined: "pipelined cs (ref_db s) (ref_db (fst (ref_Exec s cs))) (snd (ref_Exec s cs) = Ok ())"
proof (induction cs arbitrary: s)
  case (Cons c cs)
  show ?case
  proof (cases "cmd_ok (ref_db s) c")
    case True
    then show ?thesis using Cons.IH [of "ref_exec c s"] by (simp add: ref_db_exec pipe_Ok)
  next
    case False
    then show ?thesis using Cons.IH [of s] by (auto intro: pipe_Err)
  qed
qed simp

lemma ref_Exec_no_panic: "snd (ref_Exec s cs) = Ok () \<or> snd (ref_Exec s cs) = Err wrong_type"
  by (induction cs arbitrary: s) auto

lemma ref_Exec_ok: "cmds_ok (ref_db s) cs \<Longrightarrow> snd (ref_Exec s cs) = Ok ()"
  by (induction cs arbitrary: s) (simp_all add: ref_db_exec)

lemma wrong_type_simps [simp]: "wrong_type \<noteq> RedisNil" "error_string wrong_type \<noteq> ''redis: nil''" "\<not> errors_is wrong_type RedisNil"
  by (simp_all add: wrong_type_def)

interpretation ref: redis_up ref_client ref_db
proof (unfold_locales, goal_cases)
  case (1 s c s' u)
  then show ?case by (auto simp: ref_Do_def ref_db_exec split: if_splits)
next
  case (5 s cs s' res)
  then show ?case using ref_Exec_pipelined [of cs s] by simp
next
  case (6 s cs)
  then show ?case using ref_Exec_no_panic [of s cs] by auto
next
  case (7 s cs)
  then show ?case using ref_Exec_no_panic [of s cs] by auto
next
  case (12 s k lo hi lim ms)
  then show ?case
    using ref_range_down [of "at_key (ref_zsets s) k" lo hi] by (auto simp: if_type_def split: if_splits)
next
  case (20 s cs)
  then show ?case by (simp add: ref_Exec_ok)
qed (auto simp: ref_Do_def ref_db_exec if_type_def ref_BLPop_def ref_db_def
    split: if_splits option.splits list.splits)

end
