(* ===== verification/Redis_Properties.thy ===== *)
theory Redis_Properties
  imports Redis_Scheduled Broker_Runs Reference_Redis Reference_Ext
begin

text \<open>
  The properties of the Redis broker and results store, for every client that meets
  \<open>redis_up\<close>, with closed examples on the reference server of \<open>Reference_Redis\<close>.
\<close>

section \<open>Examples\<close>

definition ex_rb_options :: "duration \<Rightarrow> rb_options" where
  "ex_rb_options pipe =
     \<lparr>bAddrs = [], bPassword = [], bDB = 0, bDialTimeout = 0, bReadTimeout = 0, bWriteTimeout = 0,
      bIdleTimeout = 0, bMinIdleConns = 0, bPollPeriod = 0, bPipePeriod = pipe\<rparr>"

text \<open>A broker and a store on an empty server, one second after the start of 1970.\<close>

definition ex_rb :: "duration \<Rightarrow> ref_redis redis_broker" where
  "ex_rb pipe = fst (rb_New (\<lambda>_. ref_empty) (ex_rb_options pipe) 62135596801000000000)"

definition ex_rr :: "duration \<Rightarrow> ref_redis redis_results" where
  "ex_rr pipe = fst (rr_New (\<lambda>_. ref_empty) (DefaultRedis\<lparr>rPipePeriod := pipe\<rparr>) 62135596801000000000)"

lemma ex_rb_sel [simp]:
  "rb_conn (ex_rb p) = ref_empty" "rb_pipe (ex_rb p) = []" "bPipePeriod (rb_opts (ex_rb p)) = p"
  "rb_now (ex_rb p) = 62135596801000000000" "rb_direct (ex_rb 0)"
  by (simp_all add: ex_rb_def rb_New_def ex_rb_options_def Let_def rb_direct_def)

lemma ex_rr_sel [simp]:
  "rr_conn (ex_rr p) = ref_empty" "rr_pipe (ex_rr p) = []" "rPipePeriod (rr_opts (ex_rr p)) = p"
  "rr_now (ex_rr p) = 62135596801000000000" "rr_direct (ex_rr 0)"
  by (simp_all add: ex_rr_def rr_New_def DefaultRedis_def rr_direct_def)

lemma ref_empty_holds [simp]: "holds_only (ref_db ref_empty) k T" "well_typed ty (ref_db ref_empty)"
  by (simp_all add: well_typed_def holds_only_ref ref_empty_def)

lemma ref_empty_db [simp]:
  "db_str (ref_db ref_empty) k = None" "db_list (ref_db ref_empty) k = []"
  "db_zset (ref_db ref_empty) k = (\<lambda>_. None)" "db_set (ref_db ref_empty) k = {}"
  by (simp_all add: ref_empty_def)

lemma rb_line_ex [simp]: "rb_line ref_db (ex_rb p) k = []"
  by (simp add: rb_line_def ref_empty_def)

section \<open>The types of the keys\<close>

text \<open>
  C31. A broker and a store that share one database keep every key to its type, whatever
  sequence of calls, scheduler turns, purges and pipe executions they make and with or
  without pipes, as long as no queue is named like a key of the store or of a sorted set
  and no result is saved under the identifiers \<open>success\<close> and \<open>failed\<close>. Therefore, on a server
  that answers, none of the calls fails. (A scheduler turn with nothing to promote ends with
  a refused command, which the loop ignores.)
\<close>

theorem redis_calls_keep_types:
  assumes "redis_up C db" "host_typed db st" "list_all names_ok cs"
  shows "case redis_calls C st cs of (st', rs) \<Rightarrow>
    host_typed db st' \<and> length rs = length cs
    \<and> (\<forall>i < length cs. rs ! i = Ok () \<or> (\<exists>q. cs ! i = CallPromote q))"
  using assms(2,3)
proof (induction cs arbitrary: st)
  case (Cons c cs)
  obtain st1 res where c: "redis_call C st c = (st1, res)" by fastforce
  have step: "host_typed db st1 \<and> (res = Ok () \<or> (\<exists>q. c = CallPromote q))"
    using redis_up.redis_call_typed [OF assms(1) Cons.prems(1) _ c] Cons.prems(2) by simp
  obtain st2 rs where cs: "redis_calls C st1 cs = (st2, rs)" by fastforce
  then show ?case
    using Cons.IH [of st1] Cons.prems step c by (auto simp: nth_Cons split: nat.splits)
qed simp

theorem redis_calls_keep_types_witness:
  "\<exists>st' rs. redis_calls ref_client (ex_rb 0, ex_rr 1)
       [CallEnqueue ''q'' ''m'', CallSet ''a'' ''v'', CallSuccess ''a'', CallStorePipe, CallConsume ''q''] = (st', rs)
     \<and> host_typed ref_db st' \<and> list_all (\<lambda>r. r = Ok ()) rs"
proof -
  let ?cs = "[CallEnqueue ''q'' ''m'', CallSet ''a'' ''v'', CallSuccess ''a'', CallStorePipe, CallConsume ''q'']"
  have st: "host_typed ref_db (ex_rb 0, ex_rr 1)" by (simp add: host_typed_def)
  have q: "key_type ''q'' = TList" "rr_key_ok ''a''"
    by (simp_all add: key_type_def starts_with_def resultPrefix_def taskPrefix_def tasksSet_def success_def
        failed_def rr_key_ok_def)
  obtain st' rs where run: "redis_calls ref_client (ex_rb 0, ex_rr 1) ?cs = (st', rs)" by fastforce
  have "host_typed ref_db st' \<and> length rs = 5 \<and> (\<forall>i<5. rs ! i = Ok () \<or> (\<exists>q. ?cs ! i = CallPromote q))"
    using redis_calls_keep_types [OF ref.redis_up_axioms st, of ?cs] q run by simp
  then show ?thesis
    using run by (auto simp: list_all_length less_Suc_eq numeral_eq_Suc nth_Cons split: nat.splits)
qed

section \<open>Queues are stacks\<close>

text \<open>The abstract broker: for each queue a stack, of which a queue never used is the empty one.\<close>

fun stack_run :: "(string \<Rightarrow> bytes list) \<Rightarrow> broker_call list \<Rightarrow> broker_answer outcome list" where
  "stack_run s [] = []"
| "stack_run s (Enq q m # cs) = Ok Sent # stack_run (s(q := m # s q)) cs"
| "stack_run s (Deq q # cs) =
     (case s q of
        [] \<Rightarrow> Ok (Received None) # stack_run s cs
      | m # ms \<Rightarrow> Ok (Received (Some m)) # stack_run (s(q := ms)) cs)"
| "stack_run s (Inspect q # cs) = Ok (Listed (s q)) # stack_run s cs"

lemma lrange_all [simp]: "lrange 0 (- 1) xs = xs"
  by (simp add: lrange_def)

lemma rb_GetPending_up:
  assumes "redis_up C db" "holds_only (db (rb_conn b)) q TList"
  shows "rb_GetPending C b q = Ok (rb_line db b q)"
  using redis_up.LRange_eq [OF assms] by (simp add: rb_GetPending_def rb_line_def)

text \<open>
  C32. The Redis broker without a pipe, on a database of its own, answers every sequence of
  sends, receives and inspections as a family of unbounded stacks does: the message sent
  last to a queue is received first, no message is lost, duplicated or delivered to another
  queue, and no call fails or blocks.
\<close>

theorem redis_broker_refines_stacks:
  assumes "redis_up C db" "only_lists db b"
  shows "broker_run (redis_broker_impl C) b cs = stack_run (rb_line db b) cs"
  using assms(2)
proof (induction cs arbitrary: b)
  case (Cons c cs)
  have b: "rb_direct b" "holds_only (db (rb_conn b)) q TList" for q
    using only_lists_holds [OF Cons.prems] by simp_all
  show ?case
  proof (cases c)
    case (Enq q m)
    obtain s where s: "rb_Enqueue C b m q = (b\<lparr>rb_conn := s\<rparr>, Ok ())" "db s = db_exec (LPUSH q m) (db (rb_conn b))"
      using redis_up.rb_Enqueue_up [OF assms(1) b] by blast
    have "only_lists db (b\<lparr>rb_conn := s\<rparr>)"
      using Cons.prems by (simp add: only_lists_def s rb_direct_def)
    note IH = Cons.IH [OF this]
    have "(rb_line db b)(q := m # rb_line db b q) = rb_line db (b\<lparr>rb_conn := s\<rparr>)"
      by (auto simp: rb_line_def s(2) fun_eq_iff)
    then show ?thesis
      by (simp only: Enq broker_run.simps stack_run.simps redis_broker_impl_sel s(1) prod.case outcome.case IH)
  next
    case (Deq q)
    note get = redis_up.rb_Consume_up [OF assms(1) b(2) [of q]]
    have keep: "only_lists db b'" if "rb_opts b' = rb_opts b"
      "db (rb_conn b') = db (rb_conn b) \<or> (\<exists>l. db (rb_conn b') = db (rb_conn b)\<lparr>db_list := l\<rparr>)" for b'
      using that Cons.prems by (auto simp: only_lists_def rb_direct_def)
    show ?thesis
    proof (cases "rb_line db b q")
      case Nil
      then obtain b' where b': "rb_Consume C b q = (b', Ok None)" "rb_opts b' = rb_opts b" "db (rb_conn b') = db (rb_conn b)"
        using get by auto
      then have "rb_line db b' = rb_line db b" by (simp add: rb_line_def fun_eq_iff)
      then show ?thesis using Cons.IH [OF keep [OF b'(2)]] b' Deq Nil by simp
    next
      case (Cons m ms)
      then obtain b' where b': "rb_Consume C b q = (b', Ok (Some m))" "rb_opts b' = rb_opts b"
        "db (rb_conn b') = db (rb_conn b)\<lparr>db_list := (db_list (db (rb_conn b)))(q := ms)\<rparr>"
        using get by auto
      then have line: "(rb_line db b)(q := ms) = rb_line db b'" by (auto simp: rb_line_def fun_eq_iff)
      have "only_lists db b'" using keep b' by blast
      from Cons.IH [OF this] show ?thesis
        by (simp only: Deq Cons broker_run.simps stack_run.simps redis_broker_impl_sel b'(1) prod.case
            outcome.case list.case line)
    qed
  next
    case (Inspect q)
    then show ?thesis
      using Cons rb_GetPending_up [OF assms(1) b(2)] by (simp add: answer_def)
  qed
qed simp

theorem redis_broker_refines_stacks_witness:
  "broker_run (redis_broker_impl ref_client) (ex_rb 0)
     [Enq ''q'' ''a'', Enq ''q'' ''b'', Inspect ''q'', Deq ''q'', Deq ''q'', Deq ''q'']
   = [Ok Sent, Ok Sent, Ok (Listed [''b'', ''a'']), Ok (Received (Some ''b'')), Ok (Received (Some ''a'')),
      Ok (Received None)]"
proof -
  have "only_lists ref_db (ex_rb 0)" by (simp add: only_lists_def)
  then show ?thesis
    by (simp only: redis_broker_refines_stacks [OF ref.redis_up_axioms]) simp
qed

section \<open>Scheduled messages\<close>

text \<open>
  C33. The scheduler loop of the Redis broker, without a pipe and alone on its queue, takes
  one due message a turn, from the latest to the earliest, and puts it at the end of the
  queue that is served first: after as many turns as there were due messages all of them
  are queued, each once, the earliest in front. A message that is not due stays scheduled.
  (By \<open>in_range_score\<close> a message is due from its time on and at most 1024 nanoseconds before
  it, the rounding of the scores; by \<open>before_1970_never_due\<close> a time before 1970 is never due.)
\<close>

theorem due_messages_promoted:
  assumes "redis_up C db" "sched_ok db q b"
    and z: "z = db_zset (db (rb_conn b)) (sortedSetKey q)"
  shows "\<exists>xs. distinct xs \<and> set xs = due db b q \<and> sorted_wrt (\<lambda>m m'. the (z m') \<le> the (z m)) xs
    \<and> (\<forall>n \<le> length xs. let b' = (promoted C q ^^ n) b in
         rb_line db b' q = rev (take n xs) @ rb_line db b q
         \<and> due db b' q = set (drop n xs)
         \<and> (\<forall>m. m \<notin> due db b q \<longrightarrow> db_zset (db (rb_conn b')) (sortedSetKey q) m = z m))"
proof -
  obtain xs where xs: "by_score_down z 0 (sint (UnixNano (rb_now b))) xs"
    and run: "\<And>n. n \<le> length xs \<Longrightarrow> let b' = (promoted C q ^^ n) b in
         sched_ok db q b' \<and> rb_now b' = rb_now b
         \<and> rb_line db b' q = rev (take n xs) @ rb_line db b q
         \<and> db_zset (db (rb_conn b')) (sortedSetKey q) = (\<lambda>m. if m \<in> set (take n xs) then None else z m)"
    using redis_up.promotes_due [OF assms(1,2)] unfolding z by blast
  have due: "set xs = due db b q" "distinct xs" using xs by (simp_all add: by_score_down_def due_def z)
  have "due db ((promoted C q ^^ n) b) q = set (drop n xs)" if "n \<le> length xs" for n
  proof -
    have "due db ((promoted C q ^^ n) b) q = set xs - set (take n xs)"
      using run [OF that] xs by (auto simp: due_def by_score_down_def Let_def in_range_def)
    also have "\<dots> = set (drop n xs)"
    proof -
      have "set xs = set (take n xs) \<union> set (drop n xs)" by (metis append_take_drop_id set_append)
      moreover have "set (take n xs) \<inter> set (drop n xs) = {}"
        by (rule set_take_disj_set_drop_if_distinct [OF due(2)]) simp
      ultimately show ?thesis by blast
    qed
    finally show ?thesis .
  qed
  moreover have "m \<notin> set (take n xs)" if "m \<notin> set xs" for m n using that by (meson in_set_takeD)
  ultimately show ?thesis
    using run due xs unfolding due(1) [symmetric]
    by (intro exI [of _ xs]) (simp add: by_score_down_def Let_def)
qed

definition ex_sched :: "ref_redis redis_broker" where
  "ex_sched = (ex_rb 0)\<lparr>rb_conn := ref_empty\<lparr>ref_zsets :=
     [(''tasqueue:ss:q'', [(''a'', 500000000), (''b'', 800000000), (''c'', 2000000000)])]\<rparr>\<rparr>"

lemma ex_sched_made:
  "fst (rb_EnqueueScheduled ref_client (fst (rb_EnqueueScheduled ref_client (fst (rb_EnqueueScheduled ref_client
     (ex_rb 0) ''a'' ''q'' 62135596800500000000)) ''b'' ''q'' 62135596800800000000)) ''c'' ''q'' 62135596802000000000)
   = ex_sched"
  by (simp add: rb_EnqueueScheduled_def rb_send_def ref_Do_def holds_only_ref ref_empty_def sortedSetKey_def
      sint_UnixNano unix_epoch_def to_double_def double_nat_def excess.simps round_even_def Let_def
      at_key_def ex_sched_def)

lemma ex_sched_facts:
  "sched_ok ref_db ''q'' ex_sched" "rb_line ref_db ex_sched k = []"
  "due ref_db ex_sched ''q'' = {''a'', ''b''}"
  "db_zset (ref_db (rb_conn ex_sched)) (sortedSetKey ''q'') =
     [''a'' \<mapsto> 500000000, ''b'' \<mapsto> 800000000, ''c'' \<mapsto> 2000000000]"
proof -
  show z: "db_zset (ref_db (rb_conn ex_sched)) (sortedSetKey ''q'') =
     [''a'' \<mapsto> 500000000, ''b'' \<mapsto> 800000000, ''c'' \<mapsto> 2000000000]"
    by (auto simp: ex_sched_def ref_empty_def at_key_def sortedSetKey_def fun_eq_iff)
  have now: "sint (UnixNano (rb_now ex_sched)) = 1000000000"
    by (simp add: ex_sched_def sint_UnixNano unix_epoch_def)
  have "to_double 1000000000 = 1000000000" "to_double 0 = 0"
    by (simp_all add: to_double_def double_nat_def excess.simps round_even_def)
  then show "due ref_db ex_sched ''q'' = {''a'', ''b''}"
    unfolding due_def now z by (auto simp: in_range_def split: if_splits)
  show "sched_ok ref_db ''q'' ex_sched"
    by (simp add: sched_ok_def ex_sched_def holds_only_ref ref_empty_def at_key_def sortedSetKey_def rb_direct_def)
  show "rb_line ref_db ex_sched k = []"
    by (simp add: rb_line_def ex_sched_def ref_empty_def)
qed

theorem due_messages_promoted_witness:
  "rb_line ref_db ((promoted ref_client ''q'' ^^ 2) ex_sched) ''q'' = [''a'', ''b'']
   \<and> due ref_db ((promoted ref_client ''q'' ^^ 2) ex_sched) ''q'' = {}"
proof -
  let ?z = "[''a'' \<mapsto> 500000000, ''b'' \<mapsto> 800000000, ''c'' \<mapsto> 2000000000 :: int]"
  obtain xs where xs: "distinct xs" "set xs = {''a'', ''b''}" "sorted_wrt (\<lambda>m m'. the (?z m') \<le> the (?z m)) xs"
    and run: "\<forall>n \<le> length xs. let b' = (promoted ref_client ''q'' ^^ n) ex_sched in
       rb_line ref_db b' ''q'' = rev (take n xs) \<and> due ref_db b' ''q'' = set (drop n xs)
       \<and> (\<forall>m. m \<notin> {''a'', ''b''} \<longrightarrow> db_zset (ref_db (rb_conn b')) (sortedSetKey ''q'') m = ?z m)"
    using due_messages_promoted [OF ref.redis_up_axioms ex_sched_facts(1) refl,
        unfolded ex_sched_facts append_Nil2] by blast
  have len: "length xs = 2" using distinct_card [OF xs(1)] xs(2) by simp
  then obtain x y where "xs = [x, y]" by (auto simp: length_Suc_conv numeral_2_eq_2)
  then have "xs = [''b'', ''a'']" using xs by (auto simp: doubleton_eq_iff)
  then show ?thesis using run by (auto simp: Let_def numeral_2_eq_2 dest: spec [of _ "2 :: nat"])
qed

text \<open>
  C34. The turns of the scheduler loops of several processes on one queue are not atomic. If
  they follow one another, a due message is queued once; but if all the processes fetch
  before one of them has removed the message, each of them enqueues it, and it is delivered
  as often as there are processes.
\<close>

theorem concurrent_pollers_duplicate:
  assumes "redis_up C db" "sched_ok db q b" "due db b q = {m}" "0 < n"
  shows "rb_line db (b\<lparr>rb_conn := fst (polls C b q (rb_conn b, \<lambda>_. None) (one_by_one [0..<n]))\<rparr>) q
      = m # rb_line db b q
    \<and> rb_line db (b\<lparr>rb_conn := fst (polls C b q (rb_conn b, \<lambda>_. None) (all_at_once [0..<n]))\<rparr>) q
      = replicate n m @ rb_line db b q
    \<and> (\<forall>sched \<in> {one_by_one [0..<n], all_at_once [0..<n]}.
         due db (b\<lparr>rb_conn := fst (polls C b q (rb_conn b, \<lambda>_. None) sched)\<rparr>) q = {})"
proof -
  have m: "{x. x \<noteq> m \<and> in_range lo hi (z x)} = {}" if "{x. in_range lo hi (z x)} = {m}" for z lo hi
    using that by blast
  note one = redis_up.polls_one_by_one [OF assms(1-3), of "[0..<n]"]
  note all = redis_up.polls_all_at_once [OF assms(1-3), of "[0..<n]"]
  show ?thesis
    using assms(3,4) one all by (auto simp: rb_line_def due_def in_range_def split: if_splits)
qed

definition ex_one :: "ref_redis redis_broker" where
  "ex_one = (ex_rb 0)\<lparr>rb_conn := ref_empty\<lparr>ref_zsets := [(''tasqueue:ss:q'', [(''a'', 500000000)])]\<rparr>\<rparr>"

lemma ex_one_facts:
  "sched_ok ref_db ''q'' ex_one" "rb_line ref_db ex_one k = []" "due ref_db ex_one ''q'' = {''a''}"
proof -
  have z: "db_zset (ref_db (rb_conn ex_one)) (sortedSetKey ''q'') = [''a'' \<mapsto> 500000000]"
    by (auto simp: ex_one_def ref_empty_def at_key_def sortedSetKey_def fun_eq_iff)
  have now: "sint (UnixNano (rb_now ex_one)) = 1000000000"
    by (simp add: ex_one_def sint_UnixNano unix_epoch_def)
  have "to_double 1000000000 = 1000000000" "to_double 0 = 0"
    by (simp_all add: to_double_def double_nat_def excess.simps round_even_def)
  then show "due ref_db ex_one ''q'' = {''a''}"
    unfolding due_def now z by (auto simp: in_range_def split: if_splits)
  show "sched_ok ref_db ''q'' ex_one"
    by (simp add: sched_ok_def ex_one_def holds_only_ref ref_empty_def at_key_def sortedSetKey_def rb_direct_def)
  show "rb_line ref_db ex_one k = []"
    by (simp add: rb_line_def ex_one_def ref_empty_def)
qed

theorem concurrent_pollers_duplicate_witness:
  "rb_line ref_db (ex_one\<lparr>rb_conn := fst (polls ref_client ex_one ''q'' (rb_conn ex_one, \<lambda>_. None)
     (all_at_once [0..<2]))\<rparr>) ''q'' = [''a'', ''a'']"
  using concurrent_pollers_duplicate [OF ref.redis_up_axioms ex_one_facts(1,3), of 2]
  by (simp add: ex_one_facts numeral_2_eq_2)

end
