(* ===== verification/Redis_Store_Properties.thy ===== *)
theory Redis_Store_Properties
  imports Redis_Properties InMemory_Broker Job_Properties
begin

text \<open>
  Further properties of the Redis implementations: what a pipe changes, the lists of
  successful and failed jobs, pages of pending jobs, and a chain run from end to end.
\<close>

section \<open>Writing through a pipe\<close>

datatype result_write = WriteSet string bytes | WriteSuccess string | WriteFailed string

fun store_write :: "'s redis_client \<Rightarrow> 's redis_results \<Rightarrow> result_write \<Rightarrow> 's redis_results" where
  "store_write C r (WriteSet k v) = fst (rr_Set C r k v)"
| "store_write C r (WriteSuccess k) = fst (rr_SetSuccess C r k)"
| "store_write C r (WriteFailed k) = fst (rr_SetFailed C r k)"

fun write_cmd :: "'s redis_results \<Rightarrow> result_write \<Rightarrow> redis_cmd" where
  "write_cmd r (WriteSet k v) = SET (resultPrefix @ k) v (rExpiry (rr_opts r))"
| "write_cmd r (WriteSuccess k) = ZADD (resultPrefix @ success) (to_double (sint (UnixNano (rr_now r)))) k"
| "write_cmd r (WriteFailed k) = ZADD (resultPrefix @ failed) (to_double (sint (UnixNano (rr_now r)))) k"

fun write_ok :: "result_write \<Rightarrow> bool" where
  "write_ok (WriteSet k v) = rr_key_ok k"
| "write_ok _ = True"

lemma write_typed: "write_ok w \<Longrightarrow> cmd_typed key_type (write_cmd r w)"
  by (cases w) simp_all

lemma store_write_piped:
  "rPipePeriod (rr_opts r) \<noteq> 0 \<Longrightarrow> store_write C r w = r\<lparr>rr_pipe := rr_pipe r @ [write_cmd r w]\<rparr>"
  by (cases w) (simp_all add: rr_Set_def rr_SetSuccess_def rr_SetFailed_def rr_collect_def)

lemma store_write_direct:
  "rPipePeriod (rr_opts r) = 0 \<Longrightarrow> store_write C r w = fst (rr_send C r (write_cmd r w))"
  by (cases w) (simp_all add: rr_Set_def rr_SetSuccess_def rr_SetFailed_def)

lemma write_cmd_cong: "rExpiry (rr_opts r) = rExpiry (rr_opts r') \<Longrightarrow> rr_now r = rr_now r' \<Longrightarrow> write_cmd r = write_cmd r'"
  by (rule ext, case_tac x) simp_all

lemma store_writes_piped:
  "rPipePeriod (rr_opts r) \<noteq> 0 \<Longrightarrow>
     foldl (store_write C) r ws = r\<lparr>rr_pipe := rr_pipe r @ map (write_cmd r) ws\<rparr>"
proof (induction ws arbitrary: r)
  case (Cons w ws)
  let ?r = "r\<lparr>rr_pipe := rr_pipe r @ [write_cmd r w]\<rparr>"
  have "write_cmd ?r = write_cmd r" by (intro write_cmd_cong) simp_all
  then show ?case using Cons.IH [of ?r] Cons.prems by (simp add: store_write_piped)
qed simp

context redis_up
begin

lemma store_writes_direct:
  assumes "rPipePeriod (rr_opts r) = 0" "well_typed key_type (db (rr_conn r))" "list_all write_ok ws"
  shows "db (rr_conn (foldl (store_write C) r ws)) = fold db_exec (map (write_cmd r) ws) (db (rr_conn r))"
  using assms
proof (induction ws arbitrary: r)
  case (Cons w ws)
  let ?r = "fst (rr_send C r (write_cmd r w))"
  have ty: "cmd_typed key_type (write_cmd r w)" using Cons.prems(3) by (simp add: write_typed)
  have db: "db (rr_conn ?r) = db_exec (write_cmd r w) (db (rr_conn r))"
    using Do_eq(2) [OF cmd_typed_ok [OF Cons.prems(2) ty]] by (simp add: rr_send_def case_prod_beta)
  have "write_cmd ?r = write_cmd r" by (intro write_cmd_cong) simp_all
  then show ?case
    using Cons rr_send_typed(2) [OF Cons.prems(2) ty] db by (simp add: store_write_direct)
qed simp

end

text \<open>
  C35. With a pipe period, writes to the Redis store are not visible to reads until the pipe
  is executed: a value just set is not found. The execution then makes exactly the changes
  that the same writes make when they are sent at once, in the same order.
\<close>

theorem piped_writes_equal_direct_ones:
  assumes "redis_up C db" "rPipePeriod (rr_opts r) \<noteq> 0" "rr_pipe r = []"
    and "well_typed key_type (db (rr_conn r))" "list_all write_ok ws"
    and p: "p = foldl (store_write C) r ws"
    and d: "d = foldl (store_write C) (r\<lparr>rr_opts := (rr_opts r)\<lparr>rPipePeriod := 0\<rparr>\<rparr>) ws"
    and x: "x = fst (rr_execPipe C p False)"
  shows "(\<forall>k. rr_Get C p k = rr_Get C r k) \<and> rr_GetSuccess C p = rr_GetSuccess C r
    \<and> rr_GetFailed C p = rr_GetFailed C r
    \<and> db (rr_conn x) = db (rr_conn d) \<and> rr_pipe x = []"
proof -
  let ?r = "r\<lparr>rr_opts := (rr_opts r)\<lparr>rPipePeriod := 0\<rparr>\<rparr>" and ?cs = "map (write_cmd r) ws"
  have p': "p = r\<lparr>rr_pipe := ?cs\<rparr>" using store_writes_piped [OF assms(2)] assms(3) p by simp
  have "write_cmd ?r = write_cmd r" by (intro write_cmd_cong) simp_all
  then have d': "db (rr_conn d) = fold db_exec ?cs (db (rr_conn r))"
    using redis_up.store_writes_direct [OF assms(1), of ?r ws] assms(4,5) d by simp
  have "list_all (cmd_typed key_type) ?cs"
    using assms(5) by (auto simp: list_all_iff intro: write_typed)
  then have "cmds_ok (db (rr_conn r)) ?cs" using cmds_typed [OF assms(4)] by blast
  then have "db (fst (c_Exec C (rr_conn r) ?cs)) = fold db_exec ?cs (db (rr_conn r))"
    by (rule redis_up.Exec_eq(2) [OF assms(1)])
  then have "db (rr_conn x) = db (rr_conn d) \<and> rr_pipe x = []"
    by (cases "ws = []") (simp_all add: x p' d' rr_execPipe_def rr_exec_def assms(3))
  then show ?thesis by (simp add: p' rr_Get_def rr_GetSuccess_def rr_GetFailed_def)
qed

theorem piped_writes_equal_direct_ones_witness:
  "rr_Get ref_client (fst (rr_Set ref_client (ex_rr 1) ''a'' ''v'')) ''a'' = rr_Get ref_client (ex_rr 1) ''a''
   \<and> db_str (ref_db (rr_conn (fst (rr_execPipe ref_client (fst (rr_Set ref_client (ex_rr 1) ''a'' ''v'')) False))))
       ''tq:res:a'' = Some ''v''"
proof -
  have "well_typed key_type (ref_db (rr_conn (ex_rr 1)))" "list_all write_ok [WriteSet ''a'' ''v'']"
    by (simp_all add: rr_key_ok_def success_def failed_def)
  note eq = piped_writes_equal_direct_ones [OF ref.redis_up_axioms _ _ this refl refl refl]
  show ?thesis
    using eq by (simp add: rr_Set_def rr_send_def ref_Do_def resultPrefix_def)
qed

section \<open>The lists of successful and failed jobs\<close>

lemma rr_succ_exec:
  "rr_succ db r = {k. db_zset (db (rr_conn r)) (resultPrefix @ success) k \<noteq> None}"
  "rr_fail db r = {k. db_zset (db (rr_conn r)) (resultPrefix @ failed) k \<noteq> None}"
  by (auto simp: rr_succ_def rr_fail_def)

context redis_up
begin

lemma rr_lists:
  assumes "rr_inv db r"
  shows "\<exists>xs. rr_GetSuccess C r = Ok xs
      \<and> by_score_down (db_zset (db (rr_conn r)) (resultPrefix @ success)) 0 (sint (UnixNano (rr_now r))) xs"
    "\<exists>xs. rr_GetFailed C r = Ok xs
      \<and> by_score_down (db_zset (db (rr_conn r)) (resultPrefix @ failed)) 0 (sint (UnixNano (rr_now r))) xs"
proof -
  have ty: "well_typed key_type (db (rr_conn r))" using assms by (simp add: rr_inv_def)
  have get: "\<exists>xs. c_ZRevRangeByScore C (rr_conn r) k lo hi (0, 0) = Ok xs \<and> by_score_down (db_zset (db (rr_conn r)) k) lo hi xs"
    if "key_type k = TZSet" for k lo hi
    using ZRevRangeByScore_up [OF well_typedD [OF ty that]] ZRevRangeByScore_Ok by (metis limited_def)
  show "\<exists>xs. rr_GetSuccess C r = Ok xs
      \<and> by_score_down (db_zset (db (rr_conn r)) (resultPrefix @ success)) 0 (sint (UnixNano (rr_now r))) xs"
    unfolding rr_GetSuccess_def by (rule get) simp
  show "\<exists>xs. rr_GetFailed C r = Ok xs
      \<and> by_score_down (db_zset (db (rr_conn r)) (resultPrefix @ failed)) 0 (sint (UnixNano (rr_now r))) xs"
    unfolding rr_GetFailed_def by (rule get) simp
qed

lemma rr_purge:
  assumes "rr_inv db r"
  shows "rr_inv db (rr_expireMeta C r ttl)" and "db (rr_conn (rr_expireMeta C r ttl)) =
      db_exec (ZREMRANGEBYSCORE (resultPrefix @ success) 0 (purge_score (rr_now r) ttl))
        (db_exec (ZREMRANGEBYSCORE (resultPrefix @ failed) 0 (purge_score (rr_now r) ttl)) (db (rr_conn r)))"
proof -
  let ?f = "ZREMRANGEBYSCORE (resultPrefix @ failed) 0 (purge_score (rr_now r) ttl)"
  let ?s = "ZREMRANGEBYSCORE (resultPrefix @ success) 0 (purge_score (rr_now r) ttl)"
  have r: "rr_direct r" "well_typed key_type (db (rr_conn r))" using assms by (simp_all add: rr_inv_def)
  let ?r1 = "fst (rr_send C r ?f)"
  have r1: "well_typed key_type (db (rr_conn ?r1))" "db (rr_conn ?r1) = db_exec ?f (db (rr_conn r))"
    using rr_send_typed(2) [OF r(2), of ?f] Do_eq(2) [OF cmd_typed_ok [OF r(2), of ?f]]
    by (simp_all add: rr_send_def case_prod_beta)
  have e: "rr_expireMeta C r ttl = fst (rr_send C ?r1 ?s)"
    using r(1) by (simp add: rr_expireMeta_def rr_direct_def Let_def)
  show "rr_inv db (rr_expireMeta C r ttl)"
    using rr_send_typed(2) [OF r1(1), of ?s] r(1) by (simp add: e rr_inv_def) (simp add: rr_direct_def)
  show "db (rr_conn (rr_expireMeta C r ttl)) = db_exec ?s (db_exec ?f (db (rr_conn r)))"
    unfolding e r1(2) [symmetric]
    using Do_eq(2) [OF cmd_typed_ok [OF r1(1), of ?s]] by (simp add: rr_send_def case_prod_beta)
qed

lemma rr_DeleteJob_up:
  assumes "rr_inv db r"
  shows "\<exists>r'. rr_DeleteJob C r k = (r', Ok ()) \<and> rr_inv db r' \<and> db (rr_conn r') =
    fold db_exec [ZREM (resultPrefix @ success) [''1'', k], ZREM (resultPrefix @ failed) [''1'', k], DEL (resultPrefix @ k)]
      (db (rr_conn r))"
proof -
  let ?cs = "[ZREM (resultPrefix @ success) [''1'', k], ZREM (resultPrefix @ failed) [''1'', k], DEL (resultPrefix @ k)]"
  have r: "rr_direct r" "well_typed key_type (db (rr_conn r))" using assms by (simp_all add: rr_inv_def)
  have ty: "list_all (cmd_typed key_type) ?cs" by simp
  have "rr_send_all C r ?cs = (fst (rr_send_all C r ?cs), Ok ())"
    using rr_send_all_typed(1) [OF r(2) ty] by (simp add: prod_eq_iff)
  moreover from rr_send_all_Ok [OF this] have "db (rr_conn (fst (rr_send_all C r ?cs))) = fold db_exec ?cs (db (rr_conn r))"
    by blast
  moreover have "rr_inv db (fst (rr_send_all C r ?cs))"
    using rr_send_all_typed(2) [OF r(2) ty] r(1) by (simp add: rr_inv_def) (simp add: rr_direct_def)
  ultimately show ?thesis unfolding rr_DeleteJob_def by blast
qed

end

text \<open>
  C36. \<open>GetSuccess\<close> and \<open>GetFailed\<close> of the Redis store list the jobs marked successful and
  failed, each once, the last marked first. The purge takes off each of the two lists exactly
  the jobs marked at least \<open>ttl\<close> ago, and no result. \<open>DeleteJob\<close> removes the job's result and
  takes it off both lists, and with it the job whose identifier is \<open>1\<close>, because the code
  passes a count to \<open>ZREM\<close> that this command takes for a member.
\<close>

theorem marked_lists_purge_and_delete:
  assumes "redis_up C db" "rr_inv db r"
    and "\<forall>k\<in>{success, failed}. \<forall>i sc. db_zset (db (rr_conn r)) (resultPrefix @ k) i = Some sc
      \<longrightarrow> 0 \<le> sc \<and> sc \<le> to_double (sint (UnixNano (rr_now r)))"
    and at: "at = (\<lambda>k i. the (db_zset (db (rr_conn r)) (resultPrefix @ k) i))"
    and r1: "r1 = rr_expireMeta C r ttl" and "rr_key_ok k"
  shows "(\<exists>ids. rr_GetSuccess C r = Ok ids \<and> distinct ids \<and> set ids = rr_succ db r
        \<and> sorted_wrt (\<lambda>i j. at success j \<le> at success i) ids)
    \<and> (\<exists>ids. rr_GetFailed C r = Ok ids \<and> distinct ids \<and> set ids = rr_fail db r
        \<and> sorted_wrt (\<lambda>i j. at failed j \<le> at failed i) ids)
    \<and> rr_succ db r1 = {i \<in> rr_succ db r. to_double (purge_score (rr_now r) ttl) < at success i}
    \<and> rr_fail db r1 = {i \<in> rr_fail db r. to_double (purge_score (rr_now r) ttl) < at failed i}
    \<and> rr_view db r1 = rr_view db r
    \<and> (\<exists>r2. rr_DeleteJob C r k = (r2, Ok ()) \<and> rr_view db r2 = (rr_view db r)(k := None)
        \<and> rr_succ db r2 = rr_succ db r - {k, ''1''} \<and> rr_fail db r2 = rr_fail db r - {k, ''1''})"
proof -
  have z0: "to_double 0 = 0" by (simp add: to_double_def)
  let ?z = "db_zset (db (rr_conn r)) (resultPrefix @ success)"
  let ?f = "db_zset (db (rr_conn r)) (resultPrefix @ failed)"
  have all: "in_range 0 (sint (UnixNano (rr_now r))) (?z i) \<longleftrightarrow> i \<in> rr_succ db r"
    "in_range 0 (sint (UnixNano (rr_now r))) (?f i) \<longleftrightarrow> i \<in> rr_fail db r" for i
    using assms(3) by (auto simp: in_range_def z0 rr_succ_def rr_fail_def split: option.splits)
  obtain ids where ids: "rr_GetSuccess C r = Ok ids" "by_score_down ?z 0 (sint (UnixNano (rr_now r))) ids"
    using redis_up.rr_lists(1) [OF assms(1,2)] by blast
  obtain fids where fids: "rr_GetFailed C r = Ok fids" "by_score_down ?f 0 (sint (UnixNano (rr_now r))) fids"
    using redis_up.rr_lists(2) [OF assms(1,2)] by blast
  have purged: "in_range 0 (purge_score (rr_now r) ttl) (?z i) \<longleftrightarrow>
      i \<in> rr_succ db r \<and> at success i \<le> to_double (purge_score (rr_now r) ttl)"
    "in_range 0 (purge_score (rr_now r) ttl) (?f i) \<longleftrightarrow>
      i \<in> rr_fail db r \<and> at failed i \<le> to_double (purge_score (rr_now r) ttl)" for i
    using assms(3) by (auto simp: in_range_def z0 rr_succ_def rr_fail_def at split: option.splits)
  have succ1: "rr_succ db r1 = {i \<in> rr_succ db r. to_double (purge_score (rr_now r) ttl) < at success i}"
    using purged(1) by (auto simp: r1 rr_succ_exec redis_up.rr_purge(2) [OF assms(1,2)] split: if_splits)
  have fail1: "rr_fail db r1 = {i \<in> rr_fail db r. to_double (purge_score (rr_now r) ttl) < at failed i}"
    using purged(2) by (auto simp: r1 rr_succ_exec redis_up.rr_purge(2) [OF assms(1,2)] split: if_splits)
  have view1: "rr_view db r1 = rr_view db r"
    by (simp add: r1 rr_view_def redis_up.rr_purge(2) [OF assms(1,2)] fun_eq_iff)
  obtain r2 where r2: "rr_DeleteJob C r k = (r2, Ok ())" "db (rr_conn r2) =
      fold db_exec [ZREM (resultPrefix @ success) [''1'', k], ZREM (resultPrefix @ failed) [''1'', k], DEL (resultPrefix @ k)]
        (db (rr_conn r))" using redis_up.rr_DeleteJob_up [OF assms(1,2)] by blast
  have "rr_view db r2 = (rr_view db r)(k := None)"
    by (auto simp: rr_view_def r2(2) db_clear_def fun_eq_iff)
  moreover have "rr_succ db r2 = rr_succ db r - {k, ''1''} \<and> rr_fail db r2 = rr_fail db r - {k, ''1''}"
    using assms(6) by (auto simp: rr_succ_exec r2(2) db_clear_def rr_key_ok_def split: if_splits)
  ultimately have del: "\<exists>r2. rr_DeleteJob C r k = (r2, Ok ()) \<and> rr_view db r2 = (rr_view db r)(k := None)
        \<and> rr_succ db r2 = rr_succ db r - {k, ''1''} \<and> rr_fail db r2 = rr_fail db r - {k, ''1''}"
    using r2(1) by (intro exI [of _ r2]) simp
  have "distinct ids \<and> set ids = rr_succ db r \<and> sorted_wrt (\<lambda>i j. at success j \<le> at success i) ids"
    "distinct fids \<and> set fids = rr_fail db r \<and> sorted_wrt (\<lambda>i j. at failed j \<le> at failed i) fids"
    using ids(2) fids(2) all by (auto simp: by_score_down_def at)
  then have lists: "\<exists>ids. rr_GetSuccess C r = Ok ids \<and> distinct ids \<and> set ids = rr_succ db r
        \<and> sorted_wrt (\<lambda>i j. at success j \<le> at success i) ids"
    "\<exists>ids. rr_GetFailed C r = Ok ids \<and> distinct ids \<and> set ids = rr_fail db r
        \<and> sorted_wrt (\<lambda>i j. at failed j \<le> at failed i) ids"
    using ids(1) fids(1) by simp_all
  show ?thesis by (intro conjI lists succ1 fail1 view1 del)
qed

text \<open>At one second: two jobs marked successful and two failed, at 400 and 900 milliseconds.\<close>

definition ex_marked_rr :: "ref_redis redis_results" where
  "ex_marked_rr = (ex_rr 0)\<lparr>rr_conn := ref_empty\<lparr>ref_zsets :=
     [(''tq:res:success'', [(''1'', 400000000), (''b'', 900000000)]),
      (''tq:res:failed'', [(''f'', 400000000), (''g'', 900000000)])]\<rparr>\<rparr>"

lemma ex_marked_rr_facts:
  "db_zset (ref_db (rr_conn ex_marked_rr)) (resultPrefix @ success) =
     [''1'' \<mapsto> 400000000, ''b'' \<mapsto> 900000000]"
  "db_zset (ref_db (rr_conn ex_marked_rr)) (resultPrefix @ failed) =
     [''f'' \<mapsto> 400000000, ''g'' \<mapsto> 900000000]"
  "rr_inv ref_db ex_marked_rr" "to_double (sint (UnixNano (rr_now ex_marked_rr))) = 1000000000"
  "purge_score (rr_now ex_marked_rr) 400000000 = 600000000" "to_double 600000000 = 600000000"
proof -
  show "db_zset (ref_db (rr_conn ex_marked_rr)) (resultPrefix @ success) =
     [''1'' \<mapsto> 400000000, ''b'' \<mapsto> 900000000]"
    by (auto simp: ex_marked_rr_def ref_empty_def at_key_def resultPrefix_def success_def fun_eq_iff)
  show "db_zset (ref_db (rr_conn ex_marked_rr)) (resultPrefix @ failed) =
     [''f'' \<mapsto> 400000000, ''g'' \<mapsto> 900000000]"
    by (auto simp: ex_marked_rr_def ref_empty_def at_key_def resultPrefix_def failed_def fun_eq_iff)
  have "well_typed key_type (ref_db (rr_conn ex_marked_rr))"
    using key_type_simps
    by (auto simp: well_typed_def holds_only_ref ex_marked_rr_def ref_empty_def at_key_def resultPrefix_def
        success_def failed_def)
  then show "rr_inv ref_db ex_marked_rr" by (simp add: rr_inv_def) (simp add: ex_marked_rr_def rr_direct_def)
  have now: "sint (UnixNano (rr_now ex_marked_rr)) = 1000000000"
    by (simp add: ex_marked_rr_def sint_UnixNano unix_epoch_def)
  then show "to_double (sint (UnixNano (rr_now ex_marked_rr))) = 1000000000"
    by (simp add: to_double_def double_nat_def excess.simps round_even_def)
  show "to_double 600000000 = 600000000"
    by (simp add: to_double_def double_nat_def excess.simps round_even_def)
  show "purge_score (rr_now ex_marked_rr) 400000000 = 600000000"
    unfolding purge_score_def
    by (subst sint_diff_int64) (simp_all add: now)
qed

theorem marked_lists_purge_and_delete_witness:
  "rr_GetSuccess ref_client ex_marked_rr = Ok [''b'', ''1'']
   \<and> rr_GetFailed ref_client ex_marked_rr = Ok [''g'', ''f'']
   \<and> rr_succ ref_db (rr_expireMeta ref_client ex_marked_rr 400000000) = {''b''}
   \<and> rr_fail ref_db (rr_expireMeta ref_client ex_marked_rr 400000000) = {''g''}
   \<and> rr_succ ref_db (fst (rr_DeleteJob ref_client ex_marked_rr ''b'')) = {}"
proof -
  have sc: "\<forall>k\<in>{success, failed}. \<forall>i sc. db_zset (ref_db (rr_conn ex_marked_rr)) (resultPrefix @ k) i = Some sc
      \<longrightarrow> 0 \<le> sc \<and> sc \<le> to_double (sint (UnixNano (rr_now ex_marked_rr)))"
    using ex_marked_rr_facts(1,2) unfolding ex_marked_rr_facts(4) by (auto split: if_splits)
  have k: "rr_key_ok ''b''" by (simp add: rr_key_ok_def success_def failed_def)
  have marked: "rr_succ ref_db ex_marked_rr = {''1'', ''b''}" "rr_fail ref_db ex_marked_rr = {''f'', ''g''}"
    unfolding rr_succ_def rr_fail_def ex_marked_rr_facts by auto
  have two: "ids = [x, y]"
    if "distinct ids" "set ids = {x, y}" "sorted_wrt (\<lambda>i j. z j \<le> z i) ids" "z y < z x"
    for ids :: "string list" and x y and z :: "string \<Rightarrow> int"
  proof -
    have "x \<noteq> y" using that(4) by auto
    then have "length ids = 2" using distinct_card [OF that(1)] that(2) by simp
    then obtain a b where "ids = [a, b]" by (auto simp: length_Suc_conv numeral_2_eq_2)
    then show ?thesis using that by (auto simp: doubleton_eq_iff)
  qed
  note all = marked_lists_purge_and_delete [OF ref.redis_up_axioms ex_marked_rr_facts(3) sc refl refl k,
      where ttl = 400000000, unfolded marked ex_marked_rr_facts]
  obtain ids where ids: "rr_GetSuccess ref_client ex_marked_rr = Ok ids" "distinct ids" "set ids = {''1'', ''b''}"
    "sorted_wrt (\<lambda>i j. the ([''1'' \<mapsto> 400000000, ''b'' \<mapsto> 900000000 :: int] j)
       \<le> the ([''1'' \<mapsto> 400000000, ''b'' \<mapsto> 900000000 :: int] i)) ids"
    using conjunct1 [OF all] by blast
  obtain fids where fids: "rr_GetFailed ref_client ex_marked_rr = Ok fids" "distinct fids" "set fids = {''f'', ''g''}"
    "sorted_wrt (\<lambda>i j. the ([''f'' \<mapsto> 400000000, ''g'' \<mapsto> 900000000 :: int] j)
       \<le> the ([''f'' \<mapsto> 400000000, ''g'' \<mapsto> 900000000 :: int] i)) fids"
    using conjunct1 [OF conjunct2 [OF all]] by blast
  have "set ids = {''b'', ''1''}" "set fids = {''g'', ''f''}" using ids(3) fids(3) by auto
  then have "ids = [''b'', ''1'']" "fids = [''g'', ''f'']"
    using two [OF ids(2) _ ids(4)] two [OF fids(2) _ fids(4)] by simp_all
  moreover note rest = conjunct2 [OF conjunct2 [OF all]]
  have "rr_succ ref_db (rr_expireMeta ref_client ex_marked_rr 400000000) = {''b''}"
    using conjunct1 [OF rest] by auto
  moreover have "rr_fail ref_db (rr_expireMeta ref_client ex_marked_rr 400000000) = {''g''}"
    using conjunct1 [OF conjunct2 [OF rest]] by auto
  moreover have "rr_succ ref_db (fst (rr_DeleteJob ref_client ex_marked_rr ''b'')) = {}"
  proof -
    obtain r2 where "rr_DeleteJob ref_client ex_marked_rr ''b'' = (r2, Ok ())"
      and r2: "rr_succ ref_db r2 = {''1'', ''b''} - {''b'', ''1''}"
      using conjunct2 [OF conjunct2 [OF conjunct2 [OF rest]]] by (elim exE conjE)
    then show ?thesis by (simp only: fst_conv) (simp add: r2)
  qed
  ultimately show ?thesis using ids(1) fids(1) by simp
qed

text \<open>
  A result saved under the identifier \<open>success\<close> replaces the set of successful jobs: all of
  them are off the list, and no job can be marked successful from then on.
\<close>

lemma success_identifier_breaks_list:
  assumes "redis_up C db" "rr_inv db r"
  shows "\<exists>r1. rr_Set C r success v = (r1, Ok ()) \<and> rr_succ db r1 = {}
    \<and> (\<forall>k. snd (rr_SetSuccess C r1 k) \<noteq> Ok ())"
proof -
  have d: "rr_direct r" using assms(2) by (simp add: rr_inv_def)
  let ?c = "SET (resultPrefix @ success) v (rExpiry (rr_opts r))"
  define r1 where "r1 = fst (rr_send C r ?c)"
  have r1: "rr_Set C r success v = (r1, Ok ())" "db (rr_conn r1) = db_exec ?c (db (rr_conn r))" "rr_direct r1"
    using redis_up.Do_eq [OF assms(1), of "rr_conn r" ?c] d
    by (simp_all add: r1_def rr_direct_eqs rr_send_def case_prod_beta redis_up.Do_up [OF assms(1)])
      (simp_all add: rr_direct_def)
  have "rr_succ db r1 = {}" by (simp add: rr_succ_def r1(2) db_clear_def)
  moreover have "snd (rr_SetSuccess C r1 k) \<noteq> Ok ()" for k
  proof
    let ?z = "ZADD (resultPrefix @ success) (to_double (sint (UnixNano (rr_now r1)))) k"
    assume "snd (rr_SetSuccess C r1 k) = Ok ()"
    then have "rr_send C r1 ?z = (fst (rr_send C r1 ?z), Ok ())"
      using r1(3) by (simp add: rr_direct_eqs prod_eq_iff)
    then have "cmd_ok (db (rr_conn r1)) ?z"
      using redis_server.rr_send_Ok [OF redis_up.axioms(1) [OF assms(1)]] by blast
    then show False by (simp add: holds_only_def r1(2))
  qed
  ultimately show ?thesis using r1(1) by blast
qed

section \<open>Pages\<close>

text \<open>
  The Redis broker and the in-process broker give the same page of the same list of pending
  messages, for every offset and limit.
\<close>

lemma redis_page_eq:
  assumes "redis_up C db" "holds_only (db (rb_conn b)) q TList" "length (rb_line db b q) < 2 ^ 63 - 10000"
  shows "rb_GetPendingWithPagination C b q offset limit =
    Ok (take (page_length limit) (drop (page_start offset) (rb_line db b q)), of_nat (length (rb_line db b q)))"
proof (cases "rb_line db b q = []")
  case True
  then show ?thesis
    using redis_up.LLen_eq [OF assms(1,2)] by (simp add: rb_GetPendingWithPagination_def rb_line_def)
next
  case False
  let ?xs = "rb_line db b q" and ?t = "of_nat (length (rb_line db b q)) :: int64"
  have n: "length ?xs < 2 ^ 63 - 10000" "0 < length ?xs" using assms(3) False by simp_all
  have llen: "c_LLen C (rb_conn b) q = Ok ?t" using redis_up.LLen_eq [OF assms(1,2)] by (simp add: rb_line_def)
  have t: "sint ?t = int (length ?xs)" using n by (intro sint_of_nat_int64) simp
  then have t0: "?t \<noteq> 0" using n(2) by (metis of_nat_0_less_iff less_irrefl signed_0)
  define o' where "o' = (if offset <s 0 then 0 else offset)"
  have o': "sint o' = int (page_start offset)"
    by (auto simp: o'_def page_start_def word_sless_alt)
  show ?thesis
  proof (cases "length ?xs \<le> page_start offset")
    case True
    then have "?t \<le>s o'" by (simp add: word_sle_eq t o')
    then show ?thesis
      using llen t0 True by (simp add: rb_GetPendingWithPagination_def Let_def flip: o'_def)
  next
    case False
    then have no: "\<not> ?t \<le>s o'" by (simp add: word_sle_eq t o')
    have len: "page_length limit \<le> 10000" "1 \<le> page_length limit" by (auto simp: page_length_def)
    have "sint (o' + clamp_limit limit) = int (page_start offset + page_length limit)"
      using False n len by (subst sint_add_int64) (simp_all add: o' sint_clamp_limit)
    then have e: "sint (o' + clamp_limit limit - 1) = int (page_start offset + page_length limit) - 1"
      using False n len by (subst sint_diff_int64) simp_all
    have "lrange (sint o') (sint (o' + clamp_limit limit - 1)) ?xs =
        take (page_length limit) (drop (page_start offset) ?xs)"
      using len by (simp add: lrange_def Let_def o' e)
    then have lr: "c_LRange C (rb_conn b) q o' (o' + clamp_limit limit - 1) =
        Ok (take (page_length limit) (drop (page_start offset) ?xs))"
      using redis_up.LRange_eq [OF assms(1,2)] by (simp add: rb_line_def)
    have clamp: "(if 10000 <s (if limit \<le>s 0 then 100 else limit) then 10000
        else (if limit \<le>s 0 then 100 else limit)) = clamp_limit limit"
      by (simp add: clamp_limit_def Let_def)
    show ?thesis
      unfolding rb_GetPendingWithPagination_def Let_def clamp
      using llen t0 no lr by (simp flip: o'_def)
  qed
qed

corollary redis_page_as_inmem:
  assumes "redis_up C db" "holds_only (db (rb_conn b)) q TList" "length (rb_line db b q) < 2 ^ 63 - 10000"
    and "pending_of ib q = rb_line db b q"
  shows "rb_GetPendingWithPagination C b q offset limit = ib_GetPendingWithPagination ib q offset limit"
  using redis_page_eq [OF assms(1-3)] ib_GetPendingWithPagination_eq [of ib q] assms(3,4) by simp

end
