(* ===== verification/Redis_Chain_Properties.thy ===== *)
theory Redis_Chain_Properties
  imports Chain_Properties Redis_Properties
begin

text \<open>
  A chain run from end to end over the Redis broker and the Redis results store, each on a
  database of its own: the same lemma as for the in-process implementations
  (\<open>job_system.chain_completes\<close>), over queues that are last in, first out.
\<close>

definition redis_chain_id :: "string \<Rightarrow> bool" where
  "redis_chain_id i \<longleftrightarrow> plain_id i \<and> rr_key_ok i"

context redis_up
begin

lemmas redis_chain_completes = sys.chain_completes
lemmas redis_store_Set_eqs = up_store.store_Set_eq up_store.put_facts

end

text \<open>
  C37. Over Redis, without pipes, a chain of two or more jobs with distinct identifiers (none
  of them the name of one of the store's own sets), all of one empty queue and each succeeding
  with a saved result, is completed by as many turns of the queue's worker as it has jobs:
  then \<open>GetChain\<close> reports the chain successful, with the identifiers of all its jobs, in order.
\<close>

theorem chain_runs_to_completion_on_redis:
  assumes "redis_up C db" "rr_inv db (rst w)" "only_lists db (bst w)"
    and "codec_ok (job_codec E)" "codec_ok (chain_codec E)"
    and "NewChain js opts = Ok c" "chain_tasks_save redis_chain_id (rr_inv db) (rr_view db) ts js sel"
    and "\<forall>t\<in>set js. immediate t \<and> OnSuccess t = [] \<and> OptQueue (Opts t) = q"
    and "rb_line db (bst w) q = []" "\<forall>p. length (rb_line db (bst w) p) < n"
    and "ids = ids_from E (chain_uuids (uuid_calls w) c) js"
    and "distinct ids" "\<forall>i\<in>set ids. redis_chain_id i"
  shows "\<exists>w1 cid w2 m.
      EnqueueChain (redis_results_impl C) (redis_broker_impl C) E w c = (w1, Ok cid)
    \<and> GetChain (redis_results_impl C) E
        (work_queue (redis_results_impl C) (redis_broker_impl C) E ts q w1 (map sel js)) cid = (w2, Ok m)
    \<and> ChainStatus m = StatusDone \<and> PrevJobs m = ids"
proof -
  have room: "length (rb_line db (bst w) p) < n + 2" for p
    using assms(10) by (simp add: less_Suc_eq)
  show ?thesis
    using redis_up.redis_chain_completes [OF assms(1) assms(2-7) _ assms(9) room _ assms(11,12)] assms(8,13)
    by (auto simp: redis_chain_id_def)
qed

definition redis_saving_task :: "(ref_redis redis_broker, ref_redis redis_results) task" where
  "redis_saving_task = \<lparr>TaskName = ''log'',
     Handler = (\<lambda>p c w. (fst (Save (redis_results_impl ref_client) w c p), None)),
     TaskOpts = ex_no_cb\<rparr>"

definition redis_world :: "(ref_redis redis_broker, ref_redis redis_results) world" where
  "redis_world = \<lparr>bst = ex_rb 0, rst = ex_rr 0, uuid_calls = 0, now_calls = 0\<rparr>"

lemma redis_saving_task_succeeds:
  "redis_chain_id (ID msg) \<Longrightarrow>
     succeeds (rr_inv ref_db) (rr_view ref_db) redis_saving_task j msg HandlerReturned (\<lambda>_. Some (Payload j))"
  using plain_id_neq [of "ID msg"]
  by (auto simp: succeeds_def attempt_def run_handler_def redis_saving_task_def ex_no_cb_def call_cb_def
      client_frame_def no_cancel_def Save_def redis_chain_id_def meta.defs
      ref.redis_store_Set_eqs)

theorem chain_runs_to_completion_on_redis_witness:
  "\<exists>c w1 cid w2 m. NewChain [ex_job, ex_follow] \<lparr>ChainOptID = []\<rparr> = Ok c
    \<and> EnqueueChain (redis_results_impl ref_client) (redis_broker_impl ref_client) ref_ext redis_world c = (w1, Ok cid)
    \<and> GetChain (redis_results_impl ref_client) ref_ext
        (work_queue (redis_results_impl ref_client) (redis_broker_impl ref_client)
          ref_ext [(''log'', redis_saving_task)] ''q'' w1 [HandlerReturned, HandlerReturned]) cid = (w2, Ok m)
    \<and> ChainStatus m = StatusDone \<and> PrevJobs m = [''a'', ''b'']"
proof -
  obtain c where c: "NewChain [ex_job, ex_follow] \<lparr>ChainOptID = []\<rparr> = Ok c"
    by (simp add: NewChain_def)
  have ids: "[''a'', ''b''] = ids_from ref_ext n [ex_job, ex_follow]" for n
    by (simp add: job_id_def next_uuids_def ex_jobs)
  have simple: "\<forall>t\<in>set [ex_job, ex_follow]. immediate t \<and> OnSuccess t = [] \<and> OptQueue (Opts t) = ''q''"
    by (auto simp: immediate_def ex_jobs)
  have ok: "\<forall>i\<in>set [''a'', ''b'']. redis_chain_id i"
    by (auto simp: redis_chain_id_def plain_id_def jobPrefix_def chainPrefix_def groupPrefix_def
        rr_key_ok_def success_def failed_def)
  have tasks: "chain_tasks_save redis_chain_id (rr_inv ref_db) (rr_view ref_db)
      [(''log'', redis_saving_task)] [ex_job, ex_follow] (\<lambda>_. HandlerReturned)"
    using redis_saving_task_succeeds by (auto simp: chain_tasks_save_def ex_jobs)
  have start: "rr_inv ref_db (rst redis_world)" "only_lists ref_db (bst redis_world)"
    "rb_line ref_db (bst redis_world) ''q'' = []" "\<forall>p. length (rb_line ref_db (bst redis_world) p) < 1"
    by (simp_all add: redis_world_def rr_inv_def only_lists_def)
  show ?thesis
    using chain_runs_to_completion_on_redis [OF ref.redis_up_axioms start(1,2) ref_ext_codecs(1,2) c tasks simple
        start(3,4) ids _ ok] c by simp
qed

end
