(* ===== verification/Redis_Delayed_Properties.thy ===== *)
theory Redis_Delayed_Properties
  imports Redis_Chain_Properties
begin

text \<open>
  A job with an ETA over the Redis broker and store, from \<open>Enqueue\<close> through the scheduled
  messages and the turn of the scheduler's loop to its execution by the queue's worker.
\<close>

text \<open>The message of a job enqueued on a world, and the state \<open>Enqueue\<close> leaves if it has an ETA.\<close>

definition first_message :: "ext \<Rightarrow> ('b, 'r) world \<Rightarrow> job \<Rightarrow> job_message" where
  "first_message E w t = job_message_of t (default_meta E (uuid_calls w) [] t)"

lemma first_message_sel [simp]:
  "MsgJob (first_message E w t) = Some t" "Queue (first_message E w t) = OptQueue (Opts t)"
  by (simp_all add: first_message_def)

text \<open>Turns of the scheduler's loop, at the times of a list.\<close>

definition sched_turns :: "'s redis_client \<Rightarrow> string \<Rightarrow> 's redis_broker \<Rightarrow> time list \<Rightarrow> 's redis_broker" where
  "sched_turns C q = foldl (\<lambda>b now. promoted C q (b\<lparr>rb_now := now\<rparr>))"

context redis_up
begin

lemma Enqueue_delayed:
  assumes "rr_inv db (rst w)" "only_lists db (bst w)" "codec_ok (job_codec E)"
    and "OptSchedule (Opts t) = []" "ETA (Opts t) \<noteq> 0" "rb_line db (bst w) (sortedSetKey q) = []"
    and msg: "msg = first_message E w t" and q: "q = OptQueue (Opts t)"
  shows "\<exists>w1 s now. Enqueue (redis_results_impl C) (redis_broker_impl C) E w t = (w1, Ok (ID msg))
    \<and> bst w1 = (bst w)\<lparr>rb_conn := s\<rparr>
    \<and> db s = db_exec (ZADD (sortedSetKey q) (to_double (sint (UnixNano (ETA (Opts t))))) (job_bytes E msg))
        (db (rb_conn (bst w)))
    \<and> rr_inv db (rst w1)
    \<and> GetJob (redis_results_impl C) E w1 (ID msg) = Ok (msg\<lparr>ProcessedAt := now, Status := StatusStarted\<rparr>)"
proof -
  let ?R = "redis_results_impl C" and ?B = "redis_broker_impl C"
  let ?w0 = "w\<lparr>uuid_calls := next_uuids (uuid_calls w) t\<rparr>"
  let ?w1 = "with_status ?R E ?w0 StatusStarted msg"
  let ?c = "ZADD (sortedSetKey q) (to_double (sint (UnixNano (ETA (Opts t))))) (job_bytes E msg)"
  have b: "rb_direct (bst w)" "cmd_ok (db (rb_conn (bst w))) ?c"
    using assms(2,6) by (auto simp: only_lists_def well_typed_def holds_only_def rb_line_def)
  obtain s where s: "rb_send C (bst w) ?c = ((bst w)\<lparr>rb_conn := s\<rparr>, Ok ())" "db s = db_exec ?c (db (rb_conn (bst w)))"
    using rb_send_up [OF b(2)] by blast
  have "rb_EnqueueScheduled C (bst w) (job_bytes E msg) q (ETA (Opts t)) = ((bst w)\<lparr>rb_conn := s\<rparr>, Ok ())"
    using b(1) s(1) by (simp add: rb_EnqueueScheduled_def rb_direct_def)
  then have sched: "enqueueScheduled ?B E ?w1 msg = (?w1\<lparr>bst := (bst w)\<lparr>rb_conn := s\<rparr>\<rparr>, Ok ())"
    by (simp add: enqueueScheduled_def marshal_job_bytes assms(3) broker_EnqueueScheduled_def msg q)
  have start: "statusStarted ?R E ?w0 msg = (?w1, Ok ())"
    using assms(1,3) by (simp add: up_store.status_eq)
  have meta: "DefaultMeta E w (Opts t) = (?w0, default_meta E (uuid_calls w) [] t)" by (rule DefaultMeta_eq)
  have enq: "Enqueue ?R ?B E w t = (?w1\<lparr>bst := (bst w)\<lparr>rb_conn := s\<rparr>\<rparr>, Ok (ID msg))"
    using start sched assms(4,5)
    by (simp add: Enqueue_def meta enqueueWithMeta_def schedule_job_def msg first_message_def)
  have inv: "rr_inv db (rst ?w1)" using assms(1) by simp
  have "GetJob ?R E (?w1\<lparr>bst := b\<rparr>) (ID msg) = GetJob ?R E ?w1 (ID msg)" for b
    by (simp add: GetJob_def GetResult_def store_Get_def)
  also have "GetJob ?R E ?w1 (ID msg) = Ok (stamp E ?w0 StatusStarted msg)"
    using assms(1,3) by (simp add: up_store.GetJob_with_status)
  finally show ?thesis
    using enq s(2) inv
    by (intro exI [of _ "?w1\<lparr>bst := (bst w)\<lparr>rb_conn := s\<rparr>\<rparr>"] exI [of _ s] exI [of _ "time_Now E (now_calls w)"])
      (simp add: stamp_def)
qed

text \<open>A turn of the scheduler that finds nothing due.\<close>

lemma promoted_none_conn:
  assumes "rb_fetch_due C b q = Ok []"
  shows "\<exists>s. promoted C q b = b\<lparr>rb_conn := s\<rparr>"
  using assms Watch_up
  by (auto simp: promoted_def rb_consumeScheduled_def rb_remove_due_def rb_send_def split: prod.splits)

text \<open>One scheduled message on a broker without others.\<close>

lemma promote_alone:
  assumes "only_lists db b" "rb_line db b (sortedSetKey q) = []"
    and s: "db s = db_exec (ZADD (sortedSetKey q) (to_double (sint (UnixNano ts))) m) (db (rb_conn b))"
    and time: "unix_epoch \<le> ts" "ts - unix_epoch < 2 ^ 63 - 1024" "unix_epoch \<le> now" "now - unix_epoch < 2 ^ 63"
    and b': "b' = promoted C q (b\<lparr>rb_conn := s, rb_now := now\<rparr>)"
  shows "now + 1024 < ts \<Longrightarrow> rb_line db b' q = rb_line db b q"
    and "ts \<le> now \<Longrightarrow> only_lists db b' \<and> rb_line db b' = (rb_line db b)(q := m # rb_line db b q)"
    and "now + 1024 < ts \<Longrightarrow> \<exists>s'. b' = b\<lparr>rb_conn := s', rb_now := now\<rparr> \<and> db s' = db s"
proof -
  let ?b = "b\<lparr>rb_conn := s, rb_now := now\<rparr>" and ?sc = "to_double (sint (UnixNano ts))"
  have none: "db_str (db (rb_conn b)) k = None" "db_zset (db (rb_conn b)) k = (\<lambda>_. None)" "db_set (db (rb_conn b)) k = {}" for k
    using assms(1) by (auto simp: only_lists_def well_typed_def holds_only_def)
  have z: "db_zset (db s) (sortedSetKey q) = [m \<mapsto> ?sc]" by (auto simp: s none)
  have ok: "sched_ok db q ?b"
    using assms(1,2) by (auto simp: sched_ok_def only_lists_def rb_direct_def s holds_only_def none rb_line_def)
  have due: "due db ?b q = (if in_range 0 (sint (UnixNano now)) (Some ?sc) then {m} else {})"
    by (auto simp: due_def z in_range_def)
  have early: "\<exists>s'. promoted C q ?b = b\<lparr>rb_conn := s', rb_now := now\<rparr> \<and> db s' = db s" if "now + 1024 < ts"
  proof -
    have "due db ?b q = {}" using due in_range_score(2) [OF time] that by auto
    then have "rb_fetch_due C ?b q = Ok []" using fetch_due_empty [OF ok] by simp
    then obtain s' where s': "promoted C q ?b = ?b\<lparr>rb_conn := s'\<rparr>" "db s' = db s"
      using promoted_none [of ?b q] promoted_none_conn [of ?b q] by auto
    have "?b\<lparr>rb_conn := s'\<rparr> = b\<lparr>rb_conn := s', rb_now := now\<rparr>" by (cases b) simp
    then show ?thesis using s' by metis
  qed
  show "rb_line db b' q = rb_line db b q" if "now + 1024 < ts"
    using early [OF that] by (auto simp: b' rb_line_def s)
  show "\<exists>s'. b' = b\<lparr>rb_conn := s', rb_now := now\<rparr> \<and> db s' = db s" if "now + 1024 < ts"
    using early [OF that] by (simp add: b')
  show "only_lists db b' \<and> rb_line db b' = (rb_line db b)(q := m # rb_line db b q)" if "ts \<le> now"
  proof -
    have "due db ?b q = {m}" using due in_range_score(1) [OF time that] by simp
    then obtain s' where s': "b' = ?b\<lparr>rb_conn := s'\<rparr>"
      "db s' = db_exec (ZREM (sortedSetKey q) [m]) (db_exec (LPUSH q m) (db s))"
      using promote_one [OF ok fetch_due_single [OF ok]] by (auto simp: b' promoted_def)
    have "db_zset (db s') k = (\<lambda>_. None)" for k
      by (auto simp: s'(2) s none fun_eq_iff)
    then show ?thesis
      using assms(1) by (auto simp: s' only_lists_def well_typed_def holds_only_def rb_direct_def rb_line_def s none fun_eq_iff)
  qed
qed

text \<open>Any number of turns of the scheduler before the message is due, at any times.\<close>

lemma early_turns:
  assumes "only_lists db b" "rb_line db b (sortedSetKey q) = []"
    and "db s = db_exec (ZADD (sortedSetKey q) (to_double (sint (UnixNano ts))) m) (db (rb_conn b))"
    and "unix_epoch \<le> ts" "ts - unix_epoch < 2 ^ 63 - 1024"
    and "\<forall>now\<in>set nows. unix_epoch \<le> now \<and> now + 1024 < ts"
  shows "\<exists>s' n. sched_turns C q (b\<lparr>rb_conn := s, rb_now := n0\<rparr>) nows = b\<lparr>rb_conn := s', rb_now := n\<rparr> \<and> db s' = db s"
  using assms(3,6)
proof (induction nows arbitrary: s n0)
  case Nil
  then show ?case by (auto simp: sched_turns_def)
next
  case (Cons now nows)
  obtain s1 where s1: "promoted C q (b\<lparr>rb_conn := s, rb_now := now\<rparr>) = b\<lparr>rb_conn := s1, rb_now := now\<rparr>" "db s1 = db s"
    using promote_alone(3) [OF assms(1,2) Cons.prems(1) assms(4,5) _ _ refl, of now] Cons.prems(2) assms(5) by auto
  then show ?case
    using Cons.IH [of s1 now] Cons.prems by (simp add: sched_turns_def)
qed

lemmas redis_succeeding_turn = sys.succeeding_turn

end

text \<open>
  C22. Over Redis, without pipes, a job with an ETA on a queue with nothing else: \<open>Enqueue\<close>
  stores it as queued and leaves every queue empty. From then on, through any turns of the
  scheduler's loop more than 1024 nanoseconds before the ETA, the sorted set of its queue is
  exactly its message with its ETA as the score, and no queue has a message. The first turn
  at the ETA or later moves it to the queue and empties the sorted set, and one turn of the
  worker, when the task succeeds, then leaves the job successful and listed, and the queue
  empty again.
\<close>

theorem delayed_job_runs_on_redis:
  fixes w :: "('s redis_broker, 's redis_results) world"
  assumes "redis_up C db" "rr_inv db (rst w)" "only_lists db (bst w)" "codec_ok (job_codec E)"
    and "OptSchedule (Opts t) = []" "OnSuccess t = []" "q = OptQueue (Opts t)"
    and "\<forall>p. rb_line db (bst w) p = []"
    and "unix_epoch \<le> ETA (Opts t)" "ETA (Opts t) - unix_epoch < 2 ^ 63 - 1024"
    and "msg = first_message E w t" "map_of ts (Task t) = Some task"
    and "succeeds (rr_inv db) (rr_view db) task t msg sel result"
    and R: "R = redis_results_impl C" and B: "B = redis_broker_impl C"
  shows "\<exists>w1 m1. Enqueue R B E w t = (w1, Ok (ID msg))
    \<and> GetJob R E w1 (ID msg) = Ok m1 \<and> Status m1 = StatusStarted
    \<and> (\<forall>nows. (\<forall>now\<in>set nows. unix_epoch \<le> now \<and> now + 1024 < ETA (Opts t)) \<longrightarrow>
         (let b = sched_turns C q (bst w1) nows in
          (\<forall>p. rb_line db b p = [])
          \<and> db_zset (db (rb_conn b)) (sortedSetKey q) =
              [job_bytes E msg \<mapsto> to_double (sint (UnixNano (ETA (Opts t))))]
          \<and> (\<forall>now. ETA (Opts t) \<le> now \<and> now - unix_epoch < 2 ^ 63 \<longrightarrow>
               (let w2 = w1\<lparr>bst := promoted C q (b\<lparr>rb_now := now\<rparr>)\<rparr>; w3 = work_queue R B E ts q w2 [sel]
                in rb_line db (bst w2) q = [job_bytes E msg]
                 \<and> db_zset (db (rb_conn (bst w2))) (sortedSetKey q) = (\<lambda>_. None)
                 \<and> (\<exists>m3. GetJob R E w3 (ID msg) = Ok m3 \<and> Status m3 = StatusDone)
                 \<and> ID msg \<in> rr_succ db (rst w3) \<and> rb_line db (bst w3) q = []))))"
proof -
  note up = assms(1)
  let ?sc = "to_double (sint (UnixNano (ETA (Opts t))))"
  have eta: "ETA (Opts t) \<noteq> 0" using assms(9) by (simp add: unix_epoch_def)
  have nol: "rb_line db (bst w) (sortedSetKey q) = []" using assms(8) by simp
  obtain w1 s n where w1: "Enqueue R B E w t = (w1, Ok (ID msg))" "bst w1 = (bst w)\<lparr>rb_conn := s\<rparr>"
    "db s = db_exec (ZADD (sortedSetKey q) ?sc (job_bytes E msg)) (db (rb_conn (bst w)))"
    "rr_inv db (rst w1)" "GetJob R E w1 (ID msg) = Ok (msg\<lparr>ProcessedAt := n, Status := StatusStarted\<rparr>)"
    using redis_up.Enqueue_delayed [OF up assms(2-5) eta nol assms(11,7)] R B by blast
  have none: "db_zset (db (rb_conn (bst w))) k = (\<lambda>_. None)" for k
    using assms(3) by (auto simp: only_lists_def well_typed_def holds_only_def)
  have bw1: "bst w1 = (bst w)\<lparr>rb_conn := s, rb_now := rb_now (bst w)\<rparr>" using w1(2) by simp
  have turns: "\<exists>s' n. sched_turns C q (bst w1) nows = (bst w)\<lparr>rb_conn := s', rb_now := n\<rparr> \<and> db s' = db s"
    if "\<forall>now\<in>set nows. unix_epoch \<le> now \<and> now + 1024 < ETA (Opts t)" for nows
    unfolding bw1 by (rule redis_up.early_turns [OF up assms(3) nol w1(3) assms(9,10) that])
  have waits: "(\<forall>p. rb_line db b p = []) \<and> db_zset (db (rb_conn b)) (sortedSetKey q) = [job_bytes E msg \<mapsto> ?sc]"
    if "b = (bst w)\<lparr>rb_conn := s', rb_now := n\<rparr>" "db s' = db s" for b s' n
    using assms(8) that w1(3) by (auto simp: rb_line_def none)
  have after: "let w2 = w1\<lparr>bst := promoted C q (b\<lparr>rb_now := now\<rparr>)\<rparr>; w3 = work_queue R B E ts q w2 [sel]
          in rb_line db (bst w2) q = [job_bytes E msg]
           \<and> db_zset (db (rb_conn (bst w2))) (sortedSetKey q) = (\<lambda>_. None)
           \<and> (\<exists>m3. GetJob R E w3 (ID msg) = Ok m3 \<and> Status m3 = StatusDone)
           \<and> ID msg \<in> rr_succ db (rst w3) \<and> rb_line db (bst w3) q = []"
    if now: "ETA (Opts t) \<le> now" "now - unix_epoch < 2 ^ 63"
      and b: "b = (bst w)\<lparr>rb_conn := s', rb_now := n\<rparr>" "db s' = db s" for now b s' n
  proof -
    define w2 where "w2 = w1\<lparr>bst := promoted C q (b\<lparr>rb_now := now\<rparr>)\<rparr>"
    have "promoted C q (b\<lparr>rb_now := now\<rparr>) = promoted C q ((bst w)\<lparr>rb_conn := s', rb_now := now\<rparr>)"
      by (simp add: b)
    then have w2: "only_lists db (bst w2)" "rb_line db (bst w2) = (rb_line db (bst w))(q := [job_bytes E msg])"
      using redis_up.promote_alone(2) [OF up assms(3) nol _ assms(9,10) _ now(2) refl now(1), of s' "job_bytes E msg"]
        b(2) w1(3) now assms(8,9) by (simp_all add: w2_def)
    have z2: "db_zset (db (rb_conn (bst w2))) (sortedSetKey q) = (\<lambda>_. None)"
      using w2(1) by (auto simp: only_lists_def well_typed_def holds_only_def)
    have q: "Queue msg = q" using assms(7,11) by simp
    have room: "length (rb_line db (bst w2) p) + length (OnSuccess t) \<le> 1" for p
      using assms(6,8) by (simp add: w2(2))
    have msg: "MsgJob msg = Some t" by (simp add: assms(11))
    have line2: "rb_line db (bst w2) (Queue msg) = [job_bytes E msg]" by (simp add: q w2(2))
    have inv2: "rr_inv db (rst w2)" using w1(4) by (simp add: w2_def)
    have none: "OnSuccess t \<noteq> [] \<Longrightarrow> result (rr_view db (rst w2) (ID msg)) = Some []"
      "OnSuccess t \<noteq> [] \<Longrightarrow> plain_id (ID msg)" "\<And>u. u \<in> set (OnSuccess t) \<Longrightarrow> immediate u"
      using assms(6) by simp_all
    obtain w3 n' where w3: "\<forall>sels. work_queue R B E ts q w2 (sel # sels) = work_queue R B E ts q w3 sels"
      "\<forall>p. rb_line db (bst w3) p = lifo_join (((rb_line db (bst w2))(q := [])) p)
         (bytes_for E p (messages_from E (uuid_calls w2) [] (OnSuccess t)))"
      "GetJob R E w3 (ID msg) = Ok (msg\<lparr>ProcessedAt := n', Status := StatusDone,
         OnSuccessIDs := OnSuccessIDs msg @ map ID (metas_from E (uuid_calls w2) [] (OnSuccess t))\<rparr>)"
      "ID msg \<in> rr_succ db (rst w3)"
      using redis_up.redis_succeeding_turn [OF up inv2 w2(1) assms(4) msg assms(12) line2 assms(13) none room]
      unfolding q R B by blast
    have "rb_line db (bst w3) q = []" using w3(2) by (simp add: assms(6) lifo_join_def)
    then show ?thesis
      using w3 w2(2) z2 by (simp add: Let_def flip: w2_def)
  qed
  have "let b = sched_turns C q (bst w1) nows in
          (\<forall>p. rb_line db b p = [])
          \<and> db_zset (db (rb_conn b)) (sortedSetKey q) = [job_bytes E msg \<mapsto> ?sc]
          \<and> (\<forall>now. ETA (Opts t) \<le> now \<and> now - unix_epoch < 2 ^ 63 \<longrightarrow>
               (let w2 = w1\<lparr>bst := promoted C q (b\<lparr>rb_now := now\<rparr>)\<rparr>; w3 = work_queue R B E ts q w2 [sel]
                in rb_line db (bst w2) q = [job_bytes E msg]
                 \<and> db_zset (db (rb_conn (bst w2))) (sortedSetKey q) = (\<lambda>_. None)
                 \<and> (\<exists>m3. GetJob R E w3 (ID msg) = Ok m3 \<and> Status m3 = StatusDone)
                 \<and> ID msg \<in> rr_succ db (rst w3) \<and> rb_line db (bst w3) q = []))"
    if early: "\<forall>now\<in>set nows. unix_epoch \<le> now \<and> now + 1024 < ETA (Opts t)" for nows
  proof -
    obtain s' n' where b: "sched_turns C q (bst w1) nows = (bst w)\<lparr>rb_conn := s', rb_now := n'\<rparr>" "db s' = db s"
      using turns [OF early] by blast
    show ?thesis
      using waits [OF b] after [OF _ _ b] by (simp only: Let_def) blast
  qed
  then show ?thesis using w1(1,5) by (intro exI [of _ w1]) auto
qed

text \<open>A job due two seconds after the start of 1970; the scheduler looks after one and three.\<close>

definition ex_delayed :: job where
  "ex_delayed = Job [] ''log'' ''x'' [] (ex_opts\<lparr>ETA := 62135596802000000000\<rparr>)"

theorem delayed_job_runs_on_redis_witness:
  "\<exists>w1 m3. Enqueue (redis_results_impl ref_client) (redis_broker_impl ref_client) ref_ext redis_world ex_delayed
      = (w1, Ok ''a'')
    \<and> (let b = promoted ref_client ''q'' ((bst w1)\<lparr>rb_now := 62135596801000000000\<rparr>) in
       rb_line ref_db b ''q'' = [] \<and> dom (db_zset (ref_db (rb_conn b)) (sortedSetKey ''q'')) \<noteq> {}
       \<and> GetJob (redis_results_impl ref_client) ref_ext
           (work_queue (redis_results_impl ref_client) (redis_broker_impl ref_client) ref_ext
             [(''log'', redis_saving_task)] ''q''
             (w1\<lparr>bst := promoted ref_client ''q'' (b\<lparr>rb_now := 62135596803000000000\<rparr>)\<rparr>) [HandlerReturned]) ''a''
         = Ok m3)
    \<and> Status m3 = StatusDone"
proof -
  let ?R = "redis_results_impl ref_client" and ?B = "redis_broker_impl ref_client"
  let ?ts = "[(''log'', redis_saving_task)]" and ?msg = "first_message ref_ext redis_world ex_delayed"
  have opts: "OptSchedule (Opts ex_delayed) = []" "OnSuccess ex_delayed = []" "''q'' = OptQueue (Opts ex_delayed)"
    "ETA (Opts ex_delayed) = 62135596802000000000" "map_of ?ts (Task ex_delayed) = Some redis_saving_task"
    by (simp_all add: ex_delayed_def ex_opts_def)
  have id: "ID ?msg = ''a''"
    by (simp add: first_message_def ex_delayed_def ex_opts_def default_meta_def)
  have start: "rr_inv ref_db (rst redis_world)" "only_lists ref_db (bst redis_world)"
    "\<forall>p. rb_line ref_db (bst redis_world) p = []"
    by (simp_all add: redis_world_def rr_inv_def only_lists_def)
  have eta: "unix_epoch \<le> ETA (Opts ex_delayed)" "ETA (Opts ex_delayed) - unix_epoch < 2 ^ 63 - 1024"
    by (simp_all add: opts unix_epoch_def)
  have "redis_chain_id (ID ?msg)"
    by (simp add: id redis_chain_id_def plain_id_def jobPrefix_def chainPrefix_def groupPrefix_def
        rr_key_ok_def success_def failed_def)
  note succ = redis_saving_task_succeeds [OF this, of ex_delayed]
  have early: "\<forall>now\<in>set [62135596801000000000]. unix_epoch \<le> now \<and> now + 1024 < ETA (Opts ex_delayed)"
    and due: "ETA (Opts ex_delayed) \<le> 62135596803000000000 \<and> 62135596803000000000 - unix_epoch < 2 ^ 63"
    by (simp_all add: opts unix_epoch_def)
  obtain w1 where w1: "Enqueue ?R ?B ref_ext redis_world ex_delayed = (w1, Ok (ID ?msg))"
    and turns: "let b = sched_turns ref_client ''q'' (bst w1) [62135596801000000000] in
          (\<forall>p. rb_line ref_db b p = [])
          \<and> db_zset (ref_db (rb_conn b)) (sortedSetKey ''q'') =
              [job_bytes ref_ext ?msg \<mapsto> to_double (sint (UnixNano (ETA (Opts ex_delayed))))]
          \<and> (\<forall>now. ETA (Opts ex_delayed) \<le> now \<and> now - unix_epoch < 2 ^ 63 \<longrightarrow>
               (let w2 = w1\<lparr>bst := promoted ref_client ''q'' (b\<lparr>rb_now := now\<rparr>)\<rparr>;
                    w3 = work_queue ?R ?B ref_ext ?ts ''q'' w2 [HandlerReturned]
                in rb_line ref_db (bst w2) ''q'' = [job_bytes ref_ext ?msg]
                 \<and> db_zset (ref_db (rb_conn (bst w2))) (sortedSetKey ''q'') = (\<lambda>_. None)
                 \<and> (\<exists>m3. GetJob ?R ref_ext w3 (ID ?msg) = Ok m3 \<and> Status m3 = StatusDone)
                 \<and> ID ?msg \<in> rr_succ ref_db (rst w3) \<and> rb_line ref_db (bst w3) ''q'' = []))"
    using delayed_job_runs_on_redis [OF ref.redis_up_axioms start(1,2) ref_ext_codecs(1) opts(1-3) start(3) eta refl
        opts(5) succ refl refl] early by blast
  define b where "b = promoted ref_client ''q'' ((bst w1)\<lparr>rb_now := 62135596801000000000\<rparr>)"
  have b: "sched_turns ref_client ''q'' (bst w1) [62135596801000000000] = b"
    by (simp add: sched_turns_def b_def)
  have waits: "rb_line ref_db b ''q'' = []" "dom (db_zset (ref_db (rb_conn b)) (sortedSetKey ''q'')) \<noteq> {}"
    using turns unfolding b Let_def by simp_all
  moreover obtain m3 where "GetJob ?R ref_ext (work_queue ?R ?B ref_ext ?ts ''q''
      (w1\<lparr>bst := promoted ref_client ''q'' (b\<lparr>rb_now := 62135596803000000000\<rparr>)\<rparr>) [HandlerReturned]) ''a'' = Ok m3"
    "Status m3 = StatusDone"
    using turns due unfolding b Let_def id by blast
  ultimately show ?thesis using w1 unfolding id Let_def b_def by blast
qed

end
