(* ===== verification/Go_UTF8.thy ===== *)
theory Go_UTF8
  imports Go_Prelude
begin

text \<open>
  The \<open>range\<close> over a Go string, which decodes UTF-8: each iteration gets a rune. A rune is
  represented by its encoding, which is also what \<open>string(rune)\<close> gives; a byte that starts
  no valid encoding counts as the rune U+FFFD.
\<close>

definition between :: "nat \<Rightarrow> nat \<Rightarrow> char \<Rightarrow> bool" where
  "between lo hi c \<longleftrightarrow> lo \<le> of_char c \<and> of_char c \<le> hi"

definition rune_error :: bytes where
  "rune_error = [CHR 0xEF, CHR 0xBF, CHR 0xBD]"

text \<open>
  The number of bytes of the encoding the string starts with, 0 if it starts with none:
  no overlong forms, no surrogates, nothing above U+10FFFF.
\<close>

fun rune_width :: "bytes \<Rightarrow> nat" where
  "rune_width [] = 0"
| "rune_width (a # cs) =
     (if between 0 0x7F a then 1
      else case cs of
        [] \<Rightarrow> 0
      | b # ds \<Rightarrow>
         if between 0xC2 0xDF a then (if between 0x80 0xBF b then 2 else 0)
         else case ds of
           [] \<Rightarrow> 0
         | c # es \<Rightarrow>
            if between 0xE0 0xEF a then
              (if between (if a = CHR 0xE0 then 0xA0 else 0x80) (if a = CHR 0xED then 0x9F else 0xBF) b
                  \<and> between 0x80 0xBF c then 3 else 0)
            else case es of
              [] \<Rightarrow> 0
            | d # _ \<Rightarrow>
               if between 0xF0 0xF4 a
                  \<and> between (if a = CHR 0xF0 then 0x90 else 0x80) (if a = CHR 0xF4 then 0x8F else 0xBF) b
                  \<and> between 0x80 0xBF c \<and> between 0x80 0xBF d then 4 else 0)"

function runes :: "bytes \<Rightarrow> bytes list" where
  "runes s =
     (if s = [] then []
      else if rune_width s = 0 then rune_error # runes (tl s)
      else take (rune_width s) s # runes (drop (rune_width s) s))"
  by pat_completeness auto
termination by (relation "measure length") (auto simp: neq_Nil_conv)

declare runes.simps [simp del]

definition ascii :: "bytes \<Rightarrow> bool" where
  "ascii s \<longleftrightarrow> list_all (between 0 0x7F) s"

lemma ascii_simps [simp]:
  "ascii []" "ascii (c # s) \<longleftrightarrow> between 0 0x7F c \<and> ascii s" "ascii (s @ t) \<longleftrightarrow> ascii s \<and> ascii t"
  by (simp_all add: ascii_def)

lemma runes_ascii: "ascii s \<Longrightarrow> runes s = map (\<lambda>c. [c]) s"
  by (induction s) (simp_all add: runes.simps [of "_ # _"] runes.simps [of "[]"])

end
