(* ===== verification/Nats_Client.thy ===== *)
theory Nats_Client
  imports Go_UTF8 Tasqueue_Interfaces
begin

text \<open>
  What the program uses of the package \<open>nats.go\<close> and of the server behind it, a parameter of
  the model: a record of calls on a state of the client's choice (the server and the
  connection to it). What is relied on of its key-value store is the locale \<open>nats_kv\<close>: a call
  that succeeds has its effect, a call that fails has none, \<open>ErrKeyNotFound\<close> is the answer for
  a missing key, and a key with a character that keys may not have is refused by the client
  itself. \<open>nats_kv_up\<close> is a server that answers.
\<close>

datatype nats_option = UserInfo string string

record 's nats_client =
  n_Connect :: "'s \<Rightarrow> string \<Rightarrow> nats_option list \<Rightarrow> 's \<times> unit outcome"
  n_JetStream :: "'s \<Rightarrow> 's \<times> unit outcome"
  n_AddStream :: "'s \<Rightarrow> string \<Rightarrow> string list \<Rightarrow> 's \<times> unit outcome"
  n_Publish :: "'s \<Rightarrow> string \<Rightarrow> bytes \<Rightarrow> 's \<times> unit outcome"
  n_Subscribe :: "'s \<Rightarrow> string \<Rightarrow> string \<Rightarrow> 's \<times> unit outcome"
  n_Deliver :: "'s \<Rightarrow> string \<Rightarrow> 's \<times> bytes option outcome"
  n_KeyValue :: "'s \<Rightarrow> string \<Rightarrow> 's \<times> unit outcome"
  n_Put :: "'s \<Rightarrow> string \<Rightarrow> bytes \<Rightarrow> 's \<times> unit outcome"
  n_Get :: "'s \<Rightarrow> string \<Rightarrow> bytes outcome"
  n_Delete :: "'s \<Rightarrow> string \<Rightarrow> 's \<times> unit outcome"

section \<open>Keys\<close>

text \<open>The keys of the key-value store: the characters \<open>[-/_=.a-zA-Z0-9]\<close>, no dot at either end.\<close>

definition key_char :: "char \<Rightarrow> bool" where
  "key_char c \<longleftrightarrow> c \<in> set ''-/_=.'' \<or> between 0x61 0x7A c \<or> between 0x41 0x5A c \<or> between 0x30 0x39 c"

definition valid_key :: "string \<Rightarrow> bool" where
  "valid_key k \<longleftrightarrow> k \<noteq> [] \<and> hd k \<noteq> CHR ''.'' \<and> last k \<noteq> CHR ''.'' \<and> list_all key_char k"

definition ErrInvalidKey :: go_error where
  "ErrInvalidKey = External ''nats: invalid key''"

lemma key_char_ascii: "key_char c \<Longrightarrow> between 0 0x7F c \<and> c \<noteq> CHR 0x00 \<and> c \<noteq> CHR 0x0A"
  by (auto simp: key_char_def between_def)

lemma valid_key_append: "valid_key (p @ k) \<Longrightarrow> list_all key_char k"
  by (simp add: valid_key_def)

lemma no_colon: "\<not> list_all key_char (s @ CHR '':'' # t)"
  by (simp add: key_char_def between_def)

section \<open>What is relied on\<close>

locale nats_kv =
  fixes N :: "'s nats_client"
    and kv :: "'s \<Rightarrow> string \<Rightarrow> bytes option"
  assumes Put_Ok: "n_Put N s k v = (s', Ok u) \<Longrightarrow> kv s' = (kv s)(k \<mapsto> v)"
    and Put_Err: "n_Put N s k v = (s', Err e) \<Longrightarrow> kv s' = kv s"
    and Put_answers: "snd (n_Put N s k v) \<notin> {Panic, Diverge}"
    and Put_invalid: "\<not> valid_key k \<Longrightarrow> n_Put N s k v = (s, Err ErrInvalidKey)"
    and Get_Ok: "n_Get N s k = Ok v \<Longrightarrow> kv s k = Some v"
    and Get_nil: "n_Get N s k = Err e \<Longrightarrow> errors_is e NatsErrKeyNotFound \<Longrightarrow> kv s k = None"
    and Get_answers: "n_Get N s k \<notin> {Panic, Diverge}"
    and Get_invalid: "\<not> valid_key k \<Longrightarrow> n_Get N s k = Err ErrInvalidKey"
    and Delete_Ok: "n_Delete N s k = (s', Ok u) \<Longrightarrow> kv s' = (kv s)(k := None)"
    and Delete_Err: "n_Delete N s k = (s', Err e) \<Longrightarrow> kv s' = kv s"
    and Delete_answers: "snd (n_Delete N s k) \<notin> {Panic, Diverge}"
    and Delete_invalid: "\<not> valid_key k \<Longrightarrow> n_Delete N s k = (s, Err ErrInvalidKey)"

locale nats_kv_up = nats_kv +
  assumes Put_up: "valid_key k \<Longrightarrow> snd (n_Put N s k v) = Ok ()"
    and Get_hit: "valid_key k \<Longrightarrow> kv s k = Some v \<Longrightarrow> n_Get N s k = Ok v"
    and Get_miss: "valid_key k \<Longrightarrow> kv s k = None \<Longrightarrow> n_Get N s k = Err NatsErrKeyNotFound"
    and Delete_up: "valid_key k \<Longrightarrow> snd (n_Delete N s k) = Ok ()"

context nats_kv_up
begin

lemma Put_cases:
  assumes "valid_key k"
  obtains s' where "n_Put N s k v = (s', Ok ())" "kv s' = (kv s)(k \<mapsto> v)"
  using assms Put_Ok Put_up by (metis prod.collapse)

lemma Delete_cases:
  assumes "valid_key k"
  obtains s' where "n_Delete N s k = (s', Ok ())" "kv s' = (kv s)(k := None)"
  using assms Delete_Ok Delete_up by (metis prod.collapse)

lemma Get_eq: "valid_key k \<Longrightarrow> n_Get N s k = (case kv s k of None \<Rightarrow> Err NatsErrKeyNotFound | Some v \<Rightarrow> Ok v)"
  using Get_hit Get_miss by (simp split: option.splits)

end

end
