(* ===== verification/Nats_Broker.thy ===== *)
theory Nats_Broker
  imports Nats_Client
begin

text \<open>
  The NATS JetStream broker, \<open>brokers/nats-js/broker.go\<close>, on a client \<open>N\<close> (a parameter). A
  queue is a subject; \<open>Enqueue\<close> publishes to it, and \<open>Consume\<close> subscribes a callback that sends
  each message the client delivers on the work channel. The methods that inspect or schedule
  messages are not supported.
\<close>

record nb_options =
  nbURL :: string
  nbEnabledAuth :: bool
  nbUsername :: string
  nbPassword :: string
  nbStreams :: "(string, string list) gomap"

record 's nats_broker =
  nb_opt :: nb_options
  nb_conn :: 's

definition not_supported :: go_error where
  "not_supported = ErrorString ''nats broker does not support this method''"

text \<open>The loop of \<open>New\<close> over the streams, in the order the \<open>range\<close> visits them.\<close>

fun nb_add_streams :: "'s nats_client \<Rightarrow> 's \<Rightarrow> (string \<times> string list) list \<Rightarrow> 's \<times> unit outcome" where
  "nb_add_streams N s [] = (s, Ok ())"
| "nb_add_streams N s ((k, v) # kvs) = on_ok (n_AddStream N s k v) (\<lambda>s _. nb_add_streams N s kvs)"

definition nb_New ::
  "'s nats_client \<Rightarrow> ((string \<times> string list) list \<Rightarrow> (string \<times> string list) list) \<Rightarrow> 's \<Rightarrow> nb_options
     \<Rightarrow> 's \<times> 's nats_broker outcome" where
  "nb_New N ord s cfg =
     (let opt = (if nbEnabledAuth cfg then [UserInfo (nbUsername cfg) (nbPassword cfg)] else []) in
      on_ok (wrap_err ''error connecting to nats : '' (n_Connect N s (nbURL cfg) opt)) (\<lambda>s _.
      on_ok (wrap_err ''error creating jetstream context : '' (n_JetStream N s)) (\<lambda>s _.
      on_ok (nb_add_streams N s (ord (nbStreams cfg))) (\<lambda>s _.
      (s, Ok \<lparr>nb_opt = cfg, nb_conn = s\<rparr>)))))"

definition nb_Enqueue ::
  "'s nats_client \<Rightarrow> 's nats_broker \<Rightarrow> bytes \<Rightarrow> string \<Rightarrow> 's nats_broker \<times> unit outcome" where
  "nb_Enqueue N b msg q = (case n_Publish N (nb_conn b) q msg of (s, res) \<Rightarrow> (b\<lparr>nb_conn := s\<rparr>, res))"

text \<open>
  \<open>Consume\<close> subscribes, with the queue as the name of the durable consumer. An error is
  logged; in either case it then waits for the context's end: \<open>False\<close> says that it waits
  without a subscription.
\<close>

definition nb_Consume ::
  "'s nats_client \<Rightarrow> 's nats_broker \<Rightarrow> string \<Rightarrow> 's nats_broker \<times> bool outcome" where
  "nb_Consume N b q =
     (case n_Subscribe N (nb_conn b) q q of
        (s, Ok _) \<Rightarrow> (b\<lparr>nb_conn := s\<rparr>, Ok True)
      | (s, Err _) \<Rightarrow> (b\<lparr>nb_conn := s\<rparr>, Ok False)
      | (s, Panic) \<Rightarrow> (b\<lparr>nb_conn := s\<rparr>, Panic)
      | (s, Diverge) \<Rightarrow> (b\<lparr>nb_conn := s\<rparr>, Diverge))"

text \<open>A run of the callback: the message the client delivers is sent on the work channel.\<close>

definition nb_callback ::
  "'s nats_client \<Rightarrow> 's nats_broker \<Rightarrow> string \<Rightarrow> 's nats_broker \<times> bytes option outcome" where
  "nb_callback N b q = (case n_Deliver N (nb_conn b) q of (s, res) \<Rightarrow> (b\<lparr>nb_conn := s\<rparr>, res))"

definition nb_GetPending :: "'s nats_broker \<Rightarrow> string \<Rightarrow> string list outcome" where
  "nb_GetPending b q = Err not_supported"

definition nb_GetPendingWithPagination ::
  "'s nats_broker \<Rightarrow> string \<Rightarrow> int64 \<Rightarrow> int64 \<Rightarrow> (string list \<times> int64) outcome" where
  "nb_GetPendingWithPagination b q offset limit = Err not_supported"

definition nb_GetPendingCount :: "'s nats_broker \<Rightarrow> string \<Rightarrow> int64 outcome" where
  "nb_GetPendingCount b q = Err not_supported"

definition nb_EnqueueScheduled ::
  "'s nats_broker \<Rightarrow> bytes \<Rightarrow> string \<Rightarrow> time \<Rightarrow> 's nats_broker \<times> unit outcome" where
  "nb_EnqueueScheduled b msg q ts = (b, Err not_supported)"

definition nats_broker_impl :: "'s nats_client \<Rightarrow> 's nats_broker broker_impl" where
  "nats_broker_impl N =
     \<lparr>b_Enqueue = nb_Enqueue N, b_EnqueueScheduled = nb_EnqueueScheduled, b_Consume = nb_callback N,
      b_GetPending = nb_GetPending, b_GetPendingWithPagination = nb_GetPendingWithPagination,
      b_GetPendingCount = nb_GetPendingCount\<rparr>"

lemma nats_broker_impl_sel [simp]:
  "b_Enqueue (nats_broker_impl N) = nb_Enqueue N" "b_EnqueueScheduled (nats_broker_impl N) = nb_EnqueueScheduled"
  "b_Consume (nats_broker_impl N) = nb_callback N" "b_GetPending (nats_broker_impl N) = nb_GetPending"
  "b_GetPendingWithPagination (nats_broker_impl N) = nb_GetPendingWithPagination"
  "b_GetPendingCount (nats_broker_impl N) = nb_GetPendingCount"
  by (simp_all add: nats_broker_impl_def)

lemma nb_New_fails:
  "n_Connect N s (nbURL cfg) (if nbEnabledAuth cfg then [UserInfo (nbUsername cfg) (nbPassword cfg)] else []) = (s', Err e)
     \<Longrightarrow> nb_New N ord s cfg = (s', Err (Wrapped ''error connecting to nats : '' e))"
  by (simp add: nb_New_def Let_def)

text \<open>The streams are added one by one: those before the one that fails stay.\<close>

lemma nb_add_streams_append:
  "nb_add_streams N s (xs @ ys) = on_ok (nb_add_streams N s xs) (\<lambda>s _. nb_add_streams N s ys)"
  by (induction xs arbitrary: s) (auto simp: on_ok_assoc)

end
