(* ===== verification/Nats_Results.thy ===== *)
theory Nats_Results
  imports Nats_Client
begin

text \<open>
  The NATS JetStream results store, \<open>results/nats-js/results.go\<close>, on a client \<open>N\<close> (a
  parameter). Results and the metadata of tasks are values of one key-value bucket; the names
  of the tasks are one more value, a list separated by newlines, which \<open>SetTask\<close>,
  \<open>DeleteTask\<close> and \<open>GetAllTasks\<close> parse. There are no lists of successful and failed jobs.
\<close>

section \<open>Constants and state\<close>

definition nr_resultPrefix :: string where "nr_resultPrefix = ''tasqueue-results-''"
definition nr_taskPrefix :: string where "nr_taskPrefix = ''tasqueue-task-''"
definition nr_tasksKey :: string where "nr_tasksKey = ''tasqueue-tasks-list''"
definition nr_kvBucket :: string where "nr_kvBucket = ''tasqueue''"

definition newline :: char where "newline = CHR 0x0A"

record nr_options =
  nrURL :: string
  nrEnabledAuth :: bool
  nrUsername :: string
  nrPassword :: string

record 's nats_results =
  nr_opt :: nr_options
  nr_conn :: 's

definition nr_New :: "'s nats_client \<Rightarrow> 's \<Rightarrow> nr_options \<Rightarrow> 's \<times> 's nats_results outcome" where
  "nr_New N s cfg =
     (let opt = (if nrEnabledAuth cfg then [UserInfo (nrUsername cfg) (nrPassword cfg)] else []) in
      on_ok (wrap_err ''error connecting to nats : '' (n_Connect N s (nrURL cfg) opt)) (\<lambda>s _.
      on_ok (wrap_err ''error creating jetstream context : '' (n_JetStream N s)) (\<lambda>s _.
      on_ok (wrap_err ''error creating key/value bucket : '' (n_KeyValue N s nr_kvBucket)) (\<lambda>s _.
      (s, Ok \<lparr>nr_opt = cfg, nr_conn = s\<rparr>)))))"

section \<open>Results\<close>

definition not_implemented :: go_error where
  "not_implemented = ErrorString ''method not implemented''"

text \<open>\<open>if _, err := r.conn.Put(k, v); err != nil { return err }\<close>.\<close>

definition nr_Put :: "'s nats_client \<Rightarrow> 's nats_results \<Rightarrow> string \<Rightarrow> bytes \<Rightarrow> 's nats_results \<times> unit outcome" where
  "nr_Put N r k v = (case n_Put N (nr_conn r) k v of (s, res) \<Rightarrow> (r\<lparr>nr_conn := s\<rparr>, res))"

definition nr_Get :: "'s nats_client \<Rightarrow> 's nats_results \<Rightarrow> string \<Rightarrow> bytes outcome" where
  "nr_Get N r k = n_Get N (nr_conn r) (nr_resultPrefix @ k)"

definition nr_NilError :: go_error where
  "nr_NilError = NatsErrKeyNotFound"

definition nr_Set ::
  "'s nats_client \<Rightarrow> 's nats_results \<Rightarrow> string \<Rightarrow> bytes \<Rightarrow> 's nats_results \<times> unit outcome" where
  "nr_Set N r k b = nr_Put N r (nr_resultPrefix @ k) b"

definition nr_SetSuccess :: "'s nats_results \<Rightarrow> string \<Rightarrow> 's nats_results \<times> unit outcome" where
  "nr_SetSuccess r k = (r, Err not_implemented)"

definition nr_SetFailed :: "'s nats_results \<Rightarrow> string \<Rightarrow> 's nats_results \<times> unit outcome" where
  "nr_SetFailed r k = (r, Err not_implemented)"

definition nr_GetSuccess :: "'s nats_results \<Rightarrow> string list outcome" where
  "nr_GetSuccess r = Err not_implemented"

definition nr_GetFailed :: "'s nats_results \<Rightarrow> string list outcome" where
  "nr_GetFailed r = Err not_implemented"

definition nr_Delete :: "'s nats_client \<Rightarrow> 's nats_results \<Rightarrow> string \<Rightarrow> 's nats_results \<times> unit outcome" where
  "nr_Delete N r k = (case n_Delete N (nr_conn r) k of (s, res) \<Rightarrow> (r\<lparr>nr_conn := s\<rparr>, res))"

definition nr_DeleteJob ::
  "'s nats_client \<Rightarrow> 's nats_results \<Rightarrow> string \<Rightarrow> 's nats_results \<times> unit outcome" where
  "nr_DeleteJob N r k = nr_Delete N r (nr_resultPrefix @ k)"

section \<open>The list of tasks\<close>

text \<open>
  The loop of \<open>SetTask\<close> over the stored list: a \<open>range\<close> over a string, so the variable
  named \<open>line\<close> is a rune.
\<close>

definition nr_rune_list :: "bytes \<Rightarrow> string list" where
  "nr_rune_list v = filter (\<lambda>line. line \<noteq> [CHR 0x00]) (runes v)"

text \<open>The loop of \<open>GetAllTasks\<close> and \<open>DeleteTask\<close> over the bytes of the list; \<open>current\<close> is the line so far.\<close>

fun nr_lines_from :: "bytes \<Rightarrow> bytes \<Rightarrow> string list" where
  "nr_lines_from current [] = (if length current > 0 then [current] else [])"
| "nr_lines_from current (b # bs) =
     (if b = newline
      then (if length current > 0 then current # nr_lines_from [] bs else nr_lines_from current bs)
      else nr_lines_from (current @ [b]) bs)"

definition nr_lines :: "bytes \<Rightarrow> string list" where
  "nr_lines v = nr_lines_from [] v"

text \<open>The loop that writes the list, with its index.\<close>

fun nr_print_from :: "nat \<Rightarrow> bytes \<Rightarrow> string list \<Rightarrow> bytes" where
  "nr_print_from i listBytes [] = listBytes"
| "nr_print_from i listBytes (t # ts) =
     nr_print_from (Suc i) ((if i > 0 then listBytes @ [newline] else listBytes) @ t) ts"

definition nr_print :: "string list \<Rightarrow> bytes" where
  "nr_print ts = nr_print_from 0 [] ts"

definition nr_add_name ::
  "'s nats_client \<Rightarrow> 's nats_results \<Rightarrow> string list \<Rightarrow> string \<Rightarrow> 's nats_results \<times> unit outcome" where
  "nr_add_name N r tasksList name =
     (if name \<in> set tasksList then (r, Ok ())
      else nr_Put N r nr_tasksKey (nr_print (tasksList @ [name])))"

definition nr_SetTask ::
  "'s nats_client \<Rightarrow> 's nats_results \<Rightarrow> string \<Rightarrow> bytes \<Rightarrow> 's nats_results \<times> unit outcome" where
  "nr_SetTask N r name task =
     on_ok (nr_Put N r (nr_taskPrefix @ name) task) (\<lambda>r _.
       case n_Get N (nr_conn r) nr_tasksKey of
         Err e \<Rightarrow> if e \<noteq> NatsErrKeyNotFound then (r, Err e) else nr_add_name N r [] name
       | Ok v \<Rightarrow> nr_add_name N r (nr_rune_list v) name
       | Panic \<Rightarrow> (r, Panic)
       | Diverge \<Rightarrow> (r, Diverge))"

definition nr_GetTask :: "'s nats_client \<Rightarrow> 's nats_results \<Rightarrow> string \<Rightarrow> bytes outcome" where
  "nr_GetTask N r name = n_Get N (nr_conn r) (nr_taskPrefix @ name)"

text \<open>The loop of \<open>GetAllTasks\<close> over the names.\<close>

fun nr_fetch :: "'s nats_client \<Rightarrow> 's \<Rightarrow> string list \<Rightarrow> bytes list outcome" where
  "nr_fetch N s [] = Ok []"
| "nr_fetch N s (name # names) =
     (case n_Get N s (nr_taskPrefix @ name) of
        Err e \<Rightarrow> if e = NatsErrKeyNotFound then nr_fetch N s names else Err e
      | Ok v \<Rightarrow> bind_ok (nr_fetch N s names) (\<lambda>tasks. Ok (v # tasks))
      | Panic \<Rightarrow> Panic
      | Diverge \<Rightarrow> Diverge)"

definition nr_GetAllTasks :: "'s nats_client \<Rightarrow> 's nats_results \<Rightarrow> bytes list outcome" where
  "nr_GetAllTasks N r =
     (case n_Get N (nr_conn r) nr_tasksKey of
        Err e \<Rightarrow> if e = NatsErrKeyNotFound then Ok [] else Err e
      | Ok v \<Rightarrow> (let taskNames = nr_lines v in
                 if length taskNames = 0 then Ok [] else nr_fetch N (nr_conn r) taskNames)
      | Panic \<Rightarrow> Panic
      | Diverge \<Rightarrow> Diverge)"

definition nr_DeleteTask ::
  "'s nats_client \<Rightarrow> 's nats_results \<Rightarrow> string \<Rightarrow> 's nats_results \<times> unit outcome" where
  "nr_DeleteTask N r name =
     on_ok (nr_Delete N r (nr_taskPrefix @ name)) (\<lambda>r _.
       case n_Get N (nr_conn r) nr_tasksKey of
         Err e \<Rightarrow> if e = NatsErrKeyNotFound then (r, Ok ()) else (r, Err e)
       | Ok v \<Rightarrow> nr_Put N r nr_tasksKey (nr_print (filter (\<lambda>t. t \<noteq> name) (nr_lines v)))
       | Panic \<Rightarrow> (r, Panic)
       | Diverge \<Rightarrow> (r, Diverge))"

definition nats_results_impl :: "'s nats_client \<Rightarrow> 's nats_results results_impl" where
  "nats_results_impl N =
     \<lparr>r_Get = nr_Get N, r_NilError = nr_NilError, r_Set = nr_Set N, r_DeleteJob = nr_DeleteJob N,
      r_GetFailed = nr_GetFailed, r_GetSuccess = nr_GetSuccess, r_SetFailed = nr_SetFailed,
      r_SetSuccess = nr_SetSuccess, r_SetTask = nr_SetTask N, r_GetTask = nr_GetTask N,
      r_GetAllTasks = nr_GetAllTasks N, r_DeleteTask = nr_DeleteTask N\<rparr>"

lemma nats_results_impl_sel [simp]:
  "r_Get (nats_results_impl N) = nr_Get N" "r_NilError (nats_results_impl N) = nr_NilError"
  "r_Set (nats_results_impl N) = nr_Set N" "r_DeleteJob (nats_results_impl N) = nr_DeleteJob N"
  "r_GetFailed (nats_results_impl N) = nr_GetFailed" "r_GetSuccess (nats_results_impl N) = nr_GetSuccess"
  "r_SetFailed (nats_results_impl N) = nr_SetFailed" "r_SetSuccess (nats_results_impl N) = nr_SetSuccess"
  "r_SetTask (nats_results_impl N) = nr_SetTask N" "r_GetTask (nats_results_impl N) = nr_GetTask N"
  "r_GetAllTasks (nats_results_impl N) = nr_GetAllTasks N" "r_DeleteTask (nats_results_impl N) = nr_DeleteTask N"
  by (simp_all add: nats_results_impl_def)

section \<open>The contract\<close>

text \<open>
  The store meets the contract of a results store in the weak sense: what it does not do it
  refuses. It has no successful and no failed jobs.
\<close>

definition nr_view :: "('s \<Rightarrow> string \<Rightarrow> bytes option) \<Rightarrow> 's nats_results \<Rightarrow> string \<Rightarrow> bytes option" where
  "nr_view kv r k = kv (nr_conn r) (nr_resultPrefix @ k)"

sublocale nats_kv \<subseteq> store: results_store "nats_results_impl N" "nr_view kv" "\<lambda>_. {}" "\<lambda>_. {}" "\<lambda>_. True" "\<lambda>_. True"
  by unfold_locales
    (auto simp: nr_view_def nr_Get_def nr_Set_def nr_Put_def nr_DeleteJob_def nr_Delete_def nr_NilError_def
      nr_SetSuccess_def nr_SetFailed_def fun_eq_iff
      dest: Get_Ok Get_nil dest!: Put_Ok Put_Err Delete_Ok split: prod.splits)

section \<open>Parsing and printing\<close>

definition name_ok :: "string \<Rightarrow> bool" where
  "name_ok t \<longleftrightarrow> t \<noteq> [] \<and> newline \<notin> set t"

lemma nr_print_from_Suc: "nr_print_from (Suc i) lb ts = lb @ concat (map (\<lambda>t. newline # t) ts)"
  by (induction ts arbitrary: i lb) simp_all

lemma nr_print_simps:
  "nr_print [] = []" "nr_print [t] = t"
  "nr_print (t # ts) = t @ concat (map (\<lambda>t. newline # t) ts)"
  "ts \<noteq> [] \<Longrightarrow> nr_print (ts @ us) = nr_print ts @ concat (map (\<lambda>t. newline # t) us)"
  by (simp_all add: nr_print_def nr_print_from_Suc) (cases ts, simp_all add: nr_print_from_Suc)

lemma nr_lines_from_append:
  "newline \<notin> set t \<Longrightarrow> nr_lines_from cur (t @ bs) = nr_lines_from (cur @ t) bs"
  by (induction t arbitrary: cur) auto

lemma nr_lines_from_concat:
  "list_all name_ok ts \<Longrightarrow> cur \<noteq> [] \<Longrightarrow>
     nr_lines_from cur (concat (map (\<lambda>t. newline # t) ts)) = cur # ts"
proof (induction ts arbitrary: cur)
  case (Cons t ts)
  then show ?case by (simp add: nr_lines_from_append name_ok_def)
qed simp

lemma nr_lines_print: "list_all name_ok ts \<Longrightarrow> nr_lines (nr_print ts) = ts"
proof (cases ts)
  case (Cons t us)
  moreover assume "list_all name_ok ts"
  ultimately show ?thesis
    by (simp add: nr_print_simps(3) nr_lines_def nr_lines_from_append nr_lines_from_concat name_ok_def)
qed (simp add: nr_print_simps nr_lines_def)

lemma nr_lines_from_ok: "newline \<notin> set cur \<Longrightarrow> list_all name_ok (nr_lines_from cur bs)"
  by (induction cur bs rule: nr_lines_from.induct) (auto simp: name_ok_def)

lemma nr_lines_ok: "list_all name_ok (nr_lines bs)"
  by (simp add: nr_lines_def nr_lines_from_ok)

end
