(* ===== verification/Nats_System.thy ===== *)
theory Nats_System
  imports Chain_System Group_System Nats_Broker Nats_Results
begin

text \<open>
  The server over the NATS implementations: what of its operations they do not support, and
  the list of tasks.
\<close>

section \<open>Keys of messages\<close>

lemma message_keys_invalid:
  "\<not> valid_key (nr_resultPrefix @ jobPrefix @ k)" "\<not> valid_key (nr_resultPrefix @ chainPrefix @ k)"
  "\<not> valid_key (nr_resultPrefix @ groupPrefix @ k)"
  by (auto simp: valid_key_def nr_resultPrefix_def jobPrefix_def chainPrefix_def groupPrefix_def
      key_char_def between_def)

lemma nr_keys:
  "nr_taskPrefix @ name \<noteq> nr_tasksKey" "nr_tasksKey \<noteq> nr_taskPrefix @ name" "valid_key nr_tasksKey"
  by (auto simp: nr_taskPrefix_def nr_tasksKey_def valid_key_def key_char_def between_def)

definition invalid_message_key :: go_error where
  "invalid_message_key = Wrapped ''could not set job message in store : '' ErrInvalidKey"

lemma nats_unsupported_status:
  "snd (statusDone (nats_results_impl N) E w m) = Err not_implemented"
  "snd (statusFailed (nats_results_impl N) E w m) = Err not_implemented"
  by (simp_all add: statusDone_def statusFailed_def store_SetSuccess_def store_SetFailed_def
      nr_SetSuccess_def nr_SetFailed_def time_now_def Let_def)

lemma DefaultMeta_frame:
  "bst (fst (DefaultMeta E w opts)) = bst w" "rst (fst (DefaultMeta E w opts)) = rst w"
  by (simp_all add: DefaultMeta_def Let_def case_prod_beta)

context nats_kv
begin

lemma nr_Put_invalid: "\<not> valid_key k \<Longrightarrow> nr_Put N r k v = (r, Err ErrInvalidKey)"
  by (simp add: nr_Put_def Put_invalid)

lemma store_Set_message:
  "store_Set (nats_results_impl N) w (jobPrefix @ k) b = (w, Err ErrInvalidKey)"
  by (simp add: store_Set_def nr_Set_def nr_Put_invalid message_keys_invalid)

lemma GetJob_invalid: "GetJob (nats_results_impl N) E w k = Err ErrInvalidKey"
  by (simp add: GetJob_def GetResult_def store_Get_def nr_Get_def Get_invalid message_keys_invalid
      nr_NilError_def ErrInvalidKey_def)

lemma statusStarted_invalid:
  assumes "codec_ok (job_codec E)"
  shows "\<exists>w'. statusStarted (nats_results_impl N) E w m = (w', Err invalid_message_key)
    \<and> bst w' = bst w \<and> rst w' = rst w"
  using assms
  by (simp add: statusStarted_def time_now_def setJobMessage_def marshal_job_bytes store_Set_message
      invalid_message_key_def)

lemma Enqueue_invalid:
  assumes "codec_ok (job_codec E)" "OptSchedule (Opts t) = []"
  shows "\<exists>w'. Enqueue (nats_results_impl N) B E w t = (w', Err invalid_message_key)
    \<and> bst w' = bst w \<and> rst w' = rst w"
proof -
  obtain w1 m where m: "DefaultMeta E w (Opts t) = (w1, m)" by fastforce
  then have w1: "bst w1 = bst w" "rst w1 = rst w" using DefaultMeta_frame by (metis fst_conv)+
  obtain w2 where "statusStarted (nats_results_impl N) E w1 (job_message_of t m) = (w2, Err invalid_message_key)"
    "bst w2 = bst w1" "rst w2 = rst w1" using statusStarted_invalid [OF assms(1)] by blast
  then show ?thesis
    using assms(2) m w1 by (simp add: Enqueue_def enqueueWithMeta_def schedule_job_def)
qed

lemma EnqueueChain_invalid:
  assumes "codec_ok (job_codec E)" "ChainJobs c = t # ts" "OptSchedule (Opts t) = []"
  shows "\<exists>w'. EnqueueChain (nats_results_impl N) B E w c = (w', Err invalid_message_key)
    \<and> bst w' = bst w \<and> rst w' = rst w"
proof -
  obtain w1 msg where msg: "chain_message_of E w c = (w1, msg)" by fastforce
  then have "bst w1 = bst w \<and> rst w1 = rst w"
    by (auto simp: chain_message_of_def new_uuid_def Let_def split: if_splits)
  then show ?thesis
    using Enqueue_invalid [OF assms(1,3), of B w1] msg assms(2) by (auto simp: EnqueueChain_def)
qed

lemma EnqueueGroup_invalid:
  assumes "codec_ok (job_codec E)" "GroupJobs g = t # ts" "OptSchedule (Opts t) = []"
  shows "\<exists>w'. EnqueueGroup (nats_results_impl N) B E w g
      = (w', Err (Wrapped ''could not enqueue group : '' invalid_message_key))
    \<and> bst w' = bst w \<and> rst w' = rst w"
proof -
  obtain w1 msg where msg: "group_message_of E w g = (w1, msg)" by fastforce
  then have "bst w1 = bst w \<and> rst w1 = rst w"
    by (auto simp: group_message_of_def new_uuid_def Let_def split: if_splits)
  then show ?thesis
    using Enqueue_invalid [OF assms(1,3), of B w1] msg assms(2) by (auto simp: EnqueueGroup_def)
qed

end

section \<open>The list of tasks\<close>

definition nr_meta :: "('s \<Rightarrow> string \<Rightarrow> bytes option) \<Rightarrow> 's nats_results \<Rightarrow> string \<Rightarrow> bytes option" where
  "nr_meta kv r name = kv (nr_conn r) (nr_taskPrefix @ name)"

definition task_key_ok :: "string \<Rightarrow> bool" where
  "task_key_ok name \<longleftrightarrow> valid_key (nr_taskPrefix @ name)"

lemma task_key_ok_chars: "task_key_ok name \<Longrightarrow> list_all key_char name"
  unfolding task_key_ok_def by (rule valid_key_append)

lemma task_key_okI: "list_all key_char name \<Longrightarrow> CHR ''.'' \<notin> set name \<Longrightarrow> task_key_ok name"
  by (auto simp: task_key_ok_def valid_key_def nr_taskPrefix_def key_char_def between_def
      dest!: last_in_set)

lemma nr_lines_from_newline: "nr_lines_from cur (t @ newline # bs) = nr_lines_from cur t @ nr_lines bs"
  by (induction cur t rule: nr_lines_from.induct) (auto simp: nr_lines_def)

lemma nr_lines_parts: "nr_lines (nr_print ts) = concat (map nr_lines ts)"
proof (cases ts)
  case (Cons t us)
  have "nr_lines (t @ concat (map (\<lambda>t. newline # t) us)) = nr_lines t @ concat (map nr_lines us)" for t
  proof (induction us arbitrary: t)
    case (Cons u us)
    then show ?case by (simp add: nr_lines_def nr_lines_from_newline)
  qed simp
  then show ?thesis by (simp add: Cons nr_print_simps(3))
qed (simp add: nr_print_simps nr_lines_def)

lemma nr_lines_char: "nr_lines [c] = (if c = newline then [] else [[c]])"
  by (simp add: nr_lines_def)

lemma nr_lines_name: "name_ok t \<Longrightarrow> nr_lines t = [t]"
  using nr_lines_print [of "[t]"] by (simp add: nr_print_simps)

text \<open>The list that \<open>SetTask\<close> writes over a stored list \<open>v\<close>, all of whose characters are ASCII.\<close>

definition list_chars :: "bytes \<Rightarrow> bool" where
  "list_chars v \<longleftrightarrow> list_all (\<lambda>c. c = newline \<or> key_char c) v"

lemma nr_rune_list_chars:
  assumes "list_chars v"
  shows "nr_rune_list v = map (\<lambda>c. [c]) v"
proof -
  have "between 0 0x7F c \<and> c \<noteq> CHR 0x00" if "c \<in> set v" for c
  proof -
    have "c = newline \<or> key_char c" using assms that by (simp add: list_chars_def list_all_iff)
    then show ?thesis using key_char_ascii [of c] by (elim disjE) (simp_all add: newline_def between_def)
  qed
  then have "ascii v" "filter (\<lambda>c. c \<noteq> CHR 0x00) v = v"
    by (auto simp: ascii_def list_all_iff intro: filter_True)
  then show ?thesis by (simp add: nr_rune_list_def runes_ascii filter_map o_def)
qed

lemma length_nr_print: "ts \<noteq> [] \<Longrightarrow> length (nr_print ts) = sum_list (map length ts) + length ts - 1"
  by (cases ts) (simp_all add: nr_print_simps(3) length_concat o_def sum_list_Suc)

lemma nr_rewritten:
  assumes "list_chars v" "list_all key_char name" "name \<noteq> []"
  defines "v' \<equiv> nr_print (nr_rune_list v @ [name])"
  shows "length v' = 2 * length v + length name" "list_chars v'"
    "nr_lines v' = map (\<lambda>c. [c]) (filter (\<lambda>c. c \<noteq> newline) v) @ [name]"
    "set v' \<subseteq> insert newline (set v \<union> set name)"
proof -
  have runes: "nr_rune_list v = map (\<lambda>c. [c]) v" using assms(1) by (rule nr_rune_list_chars)
  have name: "name_ok name"
    using assms(2,3) key_char_ascii by (auto simp: name_ok_def list_all_iff newline_def)
  show "length v' = 2 * length v + length name"
    by (simp add: v'_def runes length_nr_print o_def sum_list_triv)
  have "set (nr_print ts) \<subseteq> insert newline (\<Union>(set ` set ts))" for ts
    by (cases ts) (auto simp: nr_print_simps(3) nr_print_simps(1))
  from this [of "nr_rune_list v @ [name]"] show set: "set v' \<subseteq> insert newline (set v \<union> set name)"
    by (auto simp: v'_def runes)
  then show "list_chars v'"
    using assms(1,2) by (auto simp: list_chars_def list_all_iff subset_iff)
  have "concat (map nr_lines (map (\<lambda>c. [c]) xs)) = map (\<lambda>c. [c]) (filter (\<lambda>c. c \<noteq> newline) xs)" for xs
    by (induction xs) (simp_all add: nr_lines_char)
  then show "nr_lines v' = map (\<lambda>c. [c]) (filter (\<lambda>c. c \<noteq> newline) v) @ [name]"
    by (simp add: v'_def nr_lines_parts runes nr_lines_name [OF name])
qed

context nats_kv_up
begin

lemma nr_fetch_eq:
  "list_all task_key_ok names \<Longrightarrow>
     nr_fetch N s names = Ok (List.map_filter (\<lambda>n. kv s (nr_taskPrefix @ n)) names)"
proof (induction names)
  case (Cons n names)
  then show ?case
    by (cases "kv s (nr_taskPrefix @ n)") (simp_all add: Get_eq task_key_ok_def map_filter_simps)
qed (simp add: map_filter_simps)

lemma nr_GetAllTasks_eq:
  assumes "kv (nr_conn r) nr_tasksKey = Some v" "list_all task_key_ok (nr_lines v)"
  shows "nr_GetAllTasks N r = Ok (List.map_filter (nr_meta kv r) (nr_lines v))"
  using assms
  by (simp add: nr_GetAllTasks_def Get_eq nr_keys nr_fetch_eq Let_def map_filter_simps nr_meta_def [abs_def])

lemma nr_Put_cases:
  assumes "valid_key k"
  obtains r' where "nr_Put N r k v = (r', Ok ())" "kv (nr_conn r') = (kv (nr_conn r))(k \<mapsto> v)"
proof -
  obtain s' where "n_Put N (nr_conn r) k v = (s', Ok ())" "kv s' = (kv (nr_conn r))(k \<mapsto> v)"
    using assms by (rule Put_cases)
  then show ?thesis using that [of "r\<lparr>nr_conn := s'\<rparr>"] by (simp add: nr_Put_def)
qed

lemma nr_Delete_cases:
  assumes "valid_key k"
  obtains r' where "nr_Delete N r k = (r', Ok ())" "kv (nr_conn r') = (kv (nr_conn r))(k := None)"
proof -
  obtain s' where "n_Delete N (nr_conn r) k = (s', Ok ())" "kv s' = (kv (nr_conn r))(k := None)"
    using assms by (rule Delete_cases)
  then show ?thesis using that [of "r\<lparr>nr_conn := s'\<rparr>"] by (simp add: nr_Delete_def)
qed

text \<open>A task whose name is on no line of the stored list: its name is appended to what \<open>SetTask\<close> has parsed.\<close>

lemma nr_SetTask_eq:
  assumes "task_key_ok name"
    and parsed: "parsed = (case kv (nr_conn r) nr_tasksKey of None \<Rightarrow> [] | Some v \<Rightarrow> nr_rune_list v)"
    and "name \<notin> set parsed"
  shows "\<exists>r'. nr_SetTask N r name task = (r', Ok ())
    \<and> kv (nr_conn r') = (kv (nr_conn r))(nr_taskPrefix @ name \<mapsto> task, nr_tasksKey \<mapsto> nr_print (parsed @ [name]))"
proof -
  obtain r1 where r1: "nr_Put N r (nr_taskPrefix @ name) task = (r1, Ok ())"
    "kv (nr_conn r1) = (kv (nr_conn r))(nr_taskPrefix @ name \<mapsto> task)"
    using assms(1) nr_Put_cases unfolding task_key_ok_def by blast
  obtain r2 where r2: "nr_Put N r1 nr_tasksKey (nr_print (parsed @ [name])) = (r2, Ok ())"
    "kv (nr_conn r2) = (kv (nr_conn r1))(nr_tasksKey \<mapsto> nr_print (parsed @ [name]))"
    using nr_keys(3) by (rule nr_Put_cases)
  have "nr_SetTask N r name task = nr_add_name N r1 parsed name"
    by (simp add: nr_SetTask_def r1 Get_eq nr_keys parsed split: option.splits)
  then show ?thesis
    using assms(3) r1(2) r2 by (simp add: nr_add_name_def)
qed

lemma nr_DeleteTask_eq:
  assumes "task_key_ok name" "kv (nr_conn r) nr_tasksKey = Some v"
  shows "\<exists>r'. nr_DeleteTask N r name = (r', Ok ()) \<and> kv (nr_conn r') = (kv (nr_conn r))
    (nr_taskPrefix @ name := None, nr_tasksKey \<mapsto> nr_print (filter (\<lambda>t. t \<noteq> name) (nr_lines v)))"
proof -
  obtain r1 where r1: "nr_Delete N r (nr_taskPrefix @ name) = (r1, Ok ())"
    "kv (nr_conn r1) = (kv (nr_conn r))(nr_taskPrefix @ name := None)"
    using assms(1) nr_Delete_cases unfolding task_key_ok_def by blast
  then show ?thesis
    using assms(2) nr_keys(3) nr_Put_cases [of nr_tasksKey r1]
    by (simp add: nr_DeleteTask_def Get_eq nr_keys) metis
qed

end

text \<open>Tasks registered one after the other; the first failure ends it, as in the client's code.\<close>

fun nr_SetTasks ::
  "'s nats_client \<Rightarrow> 's nats_results \<Rightarrow> (string \<times> bytes) list \<Rightarrow> 's nats_results \<times> unit outcome" where
  "nr_SetTasks N r [] = (r, Ok ())"
| "nr_SetTasks N r ((name, task) # ts) = on_ok (nr_SetTask N r name task) (\<lambda>r _. nr_SetTasks N r ts)"

lemma nr_SetTasks_snoc:
  "nr_SetTasks N r (ts @ [(name, task)]) = on_ok (nr_SetTasks N r ts) (\<lambda>r _. nr_SetTask N r name task)"
  by (induction ts arbitrary: r) (auto simp: on_ok_assoc on_ok_def split: prod.splits outcome.splits)

lemma nr_meta_snoc:
  assumes "kv (nr_conn r') = (kv (nr_conn r))(nr_taskPrefix @ name \<mapsto> task, nr_tasksKey \<mapsto> v)"
    and "nr_meta kv r = m ++ map_of (rev ts)"
  shows "nr_meta kv r' = m ++ map_of (rev (ts @ [(name, task)]))"
proof -
  have "nr_meta kv r' = (nr_meta kv r)(name \<mapsto> task)"
    by (auto simp: nr_meta_def assms(1) nr_keys fun_eq_iff)
  then show ?thesis by (simp add: assms(2))
qed

text \<open>The names considered: two or more of the characters of a key, without the dot.\<close>

definition plain_name :: "string \<Rightarrow> bool" where
  "plain_name name \<longleftrightarrow> 2 \<le> length name \<and> list_all key_char name \<and> CHR ''.'' \<notin> set name"

context nats_kv_up
begin

lemma nr_SetTasks_garbled:
  assumes "kv (nr_conn r) nr_tasksKey = None" "list_all (\<lambda>p. plain_name (fst p)) ts" "ts \<noteq> []"
  shows "\<exists>r' v cs. nr_SetTasks N r ts = (r', Ok ()) \<and> kv (nr_conn r') nr_tasksKey = Some v
    \<and> nr_meta kv r' = nr_meta kv r ++ map_of (rev ts)
    \<and> 2 ^ length ts \<le> length v \<and> list_chars v \<and> CHR ''.'' \<notin> set v
    \<and> nr_lines v = map (\<lambda>c. [c]) cs @ [fst (last ts)]
    \<and> list_all (\<lambda>c. key_char c \<and> c \<noteq> CHR ''.'') cs"
  using assms(2,3)
proof (induction ts rule: rev_induct)
  case (snoc p ts)
  obtain name task where p: "p = (name, task)" by fastforce
  have name: "2 \<le> length name" "list_all key_char name" "CHR ''.'' \<notin> set name" "name \<noteq> []" "task_key_ok name"
    using snoc.prems(1) by (auto simp: p plain_name_def intro: task_key_okI)
  have ok: "name_ok name" and chars: "list_chars name"
    using name key_char_ascii by (auto simp: name_ok_def list_chars_def list_all_iff newline_def)
  show ?case
  proof (cases "ts = []")
    case True
    obtain r' where r': "nr_SetTask N r name task = (r', Ok ())"
      "kv (nr_conn r') = (kv (nr_conn r))(nr_taskPrefix @ name \<mapsto> task, nr_tasksKey \<mapsto> name)"
      using nr_SetTask_eq [OF name(5) refl, of r task] assms(1) by (auto simp: nr_print_simps)
    have "nr_meta kv r' = nr_meta kv r ++ map_of (rev (ts @ [p]))"
      unfolding p by (rule nr_meta_snoc [OF r'(2)]) (simp add: True)
    moreover have "nr_SetTasks N r (ts @ [p]) = (r', Ok ())" "2 ^ length (ts @ [p]) \<le> length name"
      "nr_lines name = map (\<lambda>c. [c]) [] @ [fst (last (ts @ [p]))]"
      using name(1) by (simp_all add: True p r'(1) nr_lines_name [OF ok])
    moreover have "kv (nr_conn r') nr_tasksKey = Some name" by (simp add: r'(2))
    moreover have "list_all (\<lambda>c. key_char c \<and> c \<noteq> CHR ''.'') []" by simp
    ultimately show ?thesis using name(3) chars by blast
  next
    case False
    then obtain r1 v cs where r1: "nr_SetTasks N r ts = (r1, Ok ())" "kv (nr_conn r1) nr_tasksKey = Some v"
      "nr_meta kv r1 = nr_meta kv r ++ map_of (rev ts)"
      "2 ^ length ts \<le> length v" "list_chars v" "CHR ''.'' \<notin> set v"
      using snoc by auto
    let ?v = "nr_print (nr_rune_list v @ [name])"
    note v = nr_rewritten [OF r1(5) name(2,4)]
    have "name \<notin> set (nr_rune_list v)" using name(1) by (auto simp: nr_rune_list_chars [OF r1(5)])
    then obtain r' where r': "nr_SetTask N r1 name task = (r', Ok ())"
      "kv (nr_conn r') = (kv (nr_conn r1))(nr_taskPrefix @ name \<mapsto> task, nr_tasksKey \<mapsto> ?v)"
      using nr_SetTask_eq [OF name(5) refl, of r1 task] r1(2) by auto
    have "CHR ''.'' \<notin> set ?v" using v(4) r1(6) name(3) by (auto simp: newline_def)
    moreover have "list_all (\<lambda>c. key_char c \<and> c \<noteq> CHR ''.'') (filter (\<lambda>c. c \<noteq> newline) v)"
      using r1(5,6) by (auto simp: list_chars_def list_all_iff)
    moreover have "nr_meta kv r' = nr_meta kv r ++ map_of (rev (ts @ [p]))"
      unfolding p by (rule nr_meta_snoc [OF r'(2) r1(3)])
    moreover have "nr_SetTasks N r (ts @ [p]) = (r', Ok ())" "2 ^ length (ts @ [p]) \<le> length ?v"
      "nr_lines ?v = map (\<lambda>c. [c]) (filter (\<lambda>c. c \<noteq> newline) v) @ [fst (last (ts @ [p]))]"
      "kv (nr_conn r') nr_tasksKey = Some ?v"
      using r1(1,4) r' v(1,3) by (simp_all add: p nr_SetTasks_snoc)
    ultimately show ?thesis using v(2) by blast
  qed
qed simp

end

end
