(* ===== verification/Reference_Nats.thy ===== *)
theory Reference_Nats
  imports Nats_Results
begin

text \<open>
  A NATS server with its client as an executable instance of \<open>nats_kv_up\<close>: it shows that what
  is assumed of the client can hold, and the examples run on it.
\<close>

record ref_nats =
  rn_kv :: "(string \<times> bytes) list"
  rn_streams :: "(string \<times> string list) list"
  rn_messages :: "(string \<times> bytes list) list"
  rn_bound :: "string list"

definition rn_empty :: ref_nats where
  "rn_empty = \<lparr>rn_kv = [], rn_streams = [], rn_messages = [], rn_bound = []\<rparr>"

definition rn_waiting :: "ref_nats \<Rightarrow> string \<Rightarrow> bytes list" where
  "rn_waiting s q = (case map_of (rn_messages s) q of None \<Rightarrow> [] | Some ms \<Rightarrow> ms)"

definition ref_nats_client :: "ref_nats nats_client" where
  "ref_nats_client =
     \<lparr>n_Connect = (\<lambda>s url opts. (s, Ok ())),
      n_JetStream = (\<lambda>s. (s, Ok ())),
      n_AddStream = (\<lambda>s k v. (s\<lparr>rn_streams := AList.update k v (rn_streams s)\<rparr>, Ok ())),
      n_Publish = (\<lambda>s q m.
        if \<exists>(k, v) \<in> set (rn_streams s). q \<in> set v
        then (s\<lparr>rn_messages := AList.update q (rn_waiting s q @ [m]) (rn_messages s)\<rparr>, Ok ())
        else (s, Err (External ''nats: no response from stream''))),
      n_Subscribe = (\<lambda>s q d. (s\<lparr>rn_bound := d # rn_bound s\<rparr>, Ok ())),
      n_Deliver = (\<lambda>s q.
        if q \<notin> set (rn_bound s) then (s, Ok None)
        else case rn_waiting s q of
          [] \<Rightarrow> (s, Ok None)
        | m # ms \<Rightarrow> (s\<lparr>rn_messages := AList.update q ms (rn_messages s)\<rparr>, Ok (Some m))),
      n_KeyValue = (\<lambda>s b. (s, Ok ())),
      n_Put = (\<lambda>s k v. if valid_key k then (s\<lparr>rn_kv := AList.update k v (rn_kv s)\<rparr>, Ok ())
                       else (s, Err ErrInvalidKey)),
      n_Get = (\<lambda>s k. if valid_key k
                     then (case map_of (rn_kv s) k of None \<Rightarrow> Err NatsErrKeyNotFound | Some v \<Rightarrow> Ok v)
                     else Err ErrInvalidKey),
      n_Delete = (\<lambda>s k. if valid_key k then (s\<lparr>rn_kv := AList.delete k (rn_kv s)\<rparr>, Ok ())
                        else (s, Err ErrInvalidKey))\<rparr>"

definition rn_view :: "ref_nats \<Rightarrow> string \<Rightarrow> bytes option" where
  "rn_view s = (\<lambda>k. if valid_key k then map_of (rn_kv s) k else None)"

interpretation rn: nats_kv_up ref_nats_client rn_view
  by unfold_locales
    (auto simp: ref_nats_client_def rn_view_def ErrInvalidKey_def fun_eq_iff split: if_splits option.splits)

end
