(* ===== verification/Nats_Properties.thy ===== *)
theory Nats_Properties
  imports Nats_System Reference_Nats Job_Properties
begin

text \<open>
  The properties of the NATS implementations, for every client that meets \<open>nats_kv\<close> or
  \<open>nats_kv_up\<close>, with closed examples on the server of \<open>Reference_Nats\<close>.
\<close>

section \<open>Examples\<close>

definition ex_nr :: "ref_nats nats_results" where
  "ex_nr = \<lparr>nr_opt = \<lparr>nrURL = ''localhost:4222'', nrEnabledAuth = False, nrUsername = [], nrPassword = []\<rparr>,
     nr_conn = rn_empty\<rparr>"

definition ex_nb :: "ref_nats nats_broker" where
  "ex_nb = \<lparr>nb_opt = \<lparr>nbURL = ''localhost:4222'', nbEnabledAuth = False, nbUsername = [], nbPassword = [],
       nbStreams = [(''default'', [''q''])]\<rparr>,
     nb_conn = rn_empty\<lparr>rn_streams := [(''default'', [''q''])]\<rparr>\<rparr>"

definition nats_world :: "(ref_nats nats_broker, ref_nats nats_results) world" where
  "nats_world = \<lparr>bst = ex_nb, rst = ex_nr, uuid_calls = 0, now_calls = 0\<rparr>"

lemma ex_nr_conn [simp]: "nr_conn ex_nr = rn_empty"
  by (simp add: ex_nr_def)

lemma rn_empty_view [simp]: "rn_view rn_empty k = None"
  by (simp add: rn_view_def rn_empty_def)

lemma ex_nr_New:
  "nr_New ref_nats_client rn_empty (nr_opt ex_nr) = (rn_empty, Ok ex_nr)"
  by (simp add: nr_New_def ref_nats_client_def ex_nr_def)

section \<open>Jobs\<close>

text \<open>
  C38. Over the NATS results store, with any broker, no job, chain or group can be enqueued:
  the prefixes of messages contain a colon, which keys of the key-value store may not have.
  The call fails before anything is stored or published. No message can be read either, and
  the two statuses that end a job fail because marking a job successful or failed is not
  implemented.
\<close>

theorem nothing_enqueued_over_nats_store:
  assumes "nats_kv C kv" "codec_ok (job_codec E)" "OptSchedule (Opts t) = []"
    and "ChainJobs c = t # cs" "GroupJobs g = t # gs"
    and e: "e = Wrapped ''could not set job message in store : '' (External ''nats: invalid key'')"
  shows "(\<exists>w'. Enqueue (nats_results_impl C) B E w t = (w', Err e) \<and> bst w' = bst w \<and> rst w' = rst w)
    \<and> (\<exists>w'. EnqueueChain (nats_results_impl C) B E w c = (w', Err e) \<and> bst w' = bst w \<and> rst w' = rst w)
    \<and> (\<exists>w'. EnqueueGroup (nats_results_impl C) B E w g = (w', Err (Wrapped ''could not enqueue group : '' e))
        \<and> bst w' = bst w \<and> rst w' = rst w)
    \<and> GetJob (nats_results_impl C) E w k = Err (External ''nats: invalid key'')
    \<and> snd (statusDone (nats_results_impl C) E w m) = Err (ErrorString ''method not implemented'')
    \<and> snd (statusFailed (nats_results_impl C) E w m) = Err (ErrorString ''method not implemented'')"
proof -
  have "e = invalid_message_key" by (simp add: e invalid_message_key_def ErrInvalidKey_def)
  then show ?thesis
    using nats_unsupported_status nats_kv.GetJob_invalid [OF assms(1)]
    by (intro conjI) (simp_all add: nats_kv.Enqueue_invalid [OF assms(1-3)] nats_kv.EnqueueGroup_invalid [OF assms(1,2,5,3)]
      nats_kv.EnqueueChain_invalid [OF assms(1,2,4,3)] ErrInvalidKey_def not_implemented_def)
qed

theorem nothing_enqueued_over_nats_store_witness:
  "(\<exists>w'. Enqueue (nats_results_impl ref_nats_client) (nats_broker_impl ref_nats_client) ref_ext nats_world ex_job
      = (w', Err (Wrapped ''could not set job message in store : '' (External ''nats: invalid key'')))
    \<and> bst w' = ex_nb \<and> rst w' = ex_nr)
   \<and> GetJob (nats_results_impl ref_nats_client) ref_ext nats_world ''a'' = Err (External ''nats: invalid key'')"
proof -
  have sched: "OptSchedule (Opts ex_job) = []" by (simp add: ex_jobs)
  have c: "ChainJobs \<lparr>ChainJobs = [ex_job, ex_follow], ChainOpts = \<lparr>ChainOptID = []\<rparr>\<rparr> = ex_job # [ex_follow]" by simp
  have g: "GroupJobs \<lparr>GroupJobs = [ex_job], GroupOpts = \<lparr>GroupOptID = []\<rparr>\<rparr> = ex_job # []" by simp
  show ?thesis
    using nothing_enqueued_over_nats_store [OF rn.nats_kv_axioms ref_ext_codecs(1) sched c g refl,
        where w = nats_world and B = "nats_broker_impl ref_nats_client" and k = "''a''"]
    by (simp add: nats_world_def)
qed

section \<open>Tasks\<close>

text \<open>
  C39. The list of task names is read back as it was written: printing names (not empty,
  without newline) one per line and parsing the bytes gives the names. On a server that
  answers, with such a list stored, \<open>GetAllTasks\<close> gives the stored metadata of the names, in
  their order, and \<open>DeleteTask\<close> removes the name and its metadata and nothing else.
\<close>

theorem task_list_roundtrip:
  assumes "nats_kv_up C kv" "list_all name_ok names" "list_all task_key_ok names" "task_key_ok name"
    and "kv (nr_conn r) nr_tasksKey = Some (nr_print names)"
  shows "nr_lines (nr_print names) = names
    \<and> nr_GetAllTasks C r = Ok (List.map_filter (nr_meta kv r) names)
    \<and> (\<exists>r'. nr_DeleteTask C r name = (r', Ok ())
        \<and> nr_meta kv r' = (nr_meta kv r)(name := None)
        \<and> kv (nr_conn r') nr_tasksKey = Some (nr_print (filter (\<lambda>n. n \<noteq> name) names))
        \<and> nr_GetAllTasks C r' = Ok (List.map_filter (nr_meta kv r) (filter (\<lambda>n. n \<noteq> name) names))
        \<and> (\<forall>k. nr_view kv r' k = nr_view kv r k))"
proof -
  note lines = nr_lines_print [OF assms(2)]
  obtain r' where r': "nr_DeleteTask C r name = (r', Ok ())" "kv (nr_conn r') = (kv (nr_conn r))
      (nr_taskPrefix @ name := None, nr_tasksKey \<mapsto> nr_print (filter (\<lambda>t. t \<noteq> name) names))"
    using nats_kv_up.nr_DeleteTask_eq [OF assms(1,4,5)] lines by auto
  let ?names = "filter (\<lambda>n. n \<noteq> name) names"
  have rest: "list_all name_ok ?names" "list_all task_key_ok ?names" using assms(2,3) by (auto simp: list_all_iff)
  have meta: "nr_meta kv r' = (nr_meta kv r)(name := None)"
    by (auto simp: nr_meta_def r'(2) nr_keys fun_eq_iff)
  have "List.map_filter (nr_meta kv r') ?names = List.map_filter (nr_meta kv r) ?names"
    unfolding meta by (induction names) (simp_all add: map_filter_simps split: option.splits)
  moreover have "nr_GetAllTasks C r' = Ok (List.map_filter (nr_meta kv r') ?names)"
    using nats_kv_up.nr_GetAllTasks_eq [OF assms(1), of r'] rest(2) by (simp add: r'(2) nr_lines_print [OF rest(1)])
  moreover have "nr_view kv r' k = nr_view kv r k" for k
    by (auto simp: nr_view_def r'(2) nr_resultPrefix_def nr_taskPrefix_def nr_tasksKey_def)
  ultimately show ?thesis
    using lines nats_kv_up.nr_GetAllTasks_eq [OF assms(1,5)] assms(3) r' meta by auto
qed

definition ex_nr_tasks :: "ref_nats nats_results" where
  "ex_nr_tasks = ex_nr\<lparr>nr_conn := rn_empty\<lparr>rn_kv :=
     [(nr_tasksKey, nr_print [''add'', ''mul'']), (nr_taskPrefix @ ''add'', ''x''), (nr_taskPrefix @ ''mul'', ''y'')]\<rparr>\<rparr>"

theorem task_list_roundtrip_witness:
  "nr_GetAllTasks ref_nats_client ex_nr_tasks = Ok [''x'', ''y'']
   \<and> nr_GetAllTasks ref_nats_client (fst (nr_DeleteTask ref_nats_client ex_nr_tasks ''add'')) = Ok [''y'']"
proof -
  let ?names = "[''add'', ''mul''] :: string list"
  have keys: "task_key_ok ''add''" "task_key_ok ''mul''"
    by (auto intro!: task_key_okI simp: key_char_def between_def)
  have meta: "nr_meta rn_view ex_nr_tasks ''add'' = Some ''x''" "nr_meta rn_view ex_nr_tasks ''mul'' = Some ''y''"
    using keys by (simp_all add: nr_meta_def rn_view_def ex_nr_tasks_def task_key_ok_def nr_keys)
  have "list_all name_ok ?names" "list_all task_key_ok ?names" "task_key_ok ''add''"
    "rn_view (nr_conn ex_nr_tasks) nr_tasksKey = Some (nr_print ?names)"
    using keys by (simp_all add: name_ok_def newline_def rn_view_def ex_nr_tasks_def nr_keys)
  from task_list_roundtrip [OF rn.nats_kv_up_axioms this] show ?thesis
    by (auto simp: map_filter_simps meta)
qed

text \<open>
  C40. \<open>SetTask\<close> does not keep the list of tasks: it takes each rune of the stored list for a
  name. After several tasks have been registered on an empty store, with names of two or more
  characters, all of the metadata are stored, but \<open>GetAllTasks\<close> gives only those of the task
  registered last, and the stored list has at least doubled with each registration.
\<close>

theorem SetTask_loses_listed_tasks:
  assumes "nats_kv_up C kv" "kv (nr_conn r) nr_tasksKey = None" "\<forall>n. nr_meta kv r n = None"
    and "list_all (\<lambda>p. plain_name (fst p)) ts" "ts \<noteq> []"
  shows "\<exists>r' v. nr_SetTasks C r ts = (r', Ok ())
    \<and> (\<forall>n t. map_of (rev ts) n = Some t \<longrightarrow> nr_GetTask C r' n = Ok t)
    \<and> nr_GetAllTasks C r' = Ok [snd (last ts)]
    \<and> kv (nr_conn r') nr_tasksKey = Some v \<and> 2 ^ length ts \<le> length v"
proof -
  obtain r' v cs where r': "nr_SetTasks C r ts = (r', Ok ())" "kv (nr_conn r') nr_tasksKey = Some v"
    and meta: "nr_meta kv r' = map_of (rev ts)"
    and v: "2 ^ length ts \<le> length v" "nr_lines v = map (\<lambda>c. [c]) cs @ [fst (last ts)]"
      "list_all (\<lambda>c. key_char c \<and> c \<noteq> CHR ''.'') cs"
  proof -
    have "nr_meta kv r = Map.empty" using assms(3) by auto
    then show thesis using that nats_kv_up.nr_SetTasks_garbled [OF assms(1,2,4,5)] by auto
  qed
  have last: "map_of (rev ts) (fst (last ts)) = Some (snd (last ts))"
    using assms(5) by (cases ts rule: rev_cases) auto
  have long: "map_of (rev ts) [c] = None" for c
    using assms(4) by (auto simp: map_of_eq_None_iff list_all_iff plain_name_def) fastforce
  have names: "plain_name n" if "map_of (rev ts) n = Some t" for n t
  proof -
    have "(n, t) \<in> set ts" using map_of_SomeD [OF that] by simp
    then show ?thesis using assms(4) unfolding list_all_iff by (metis fst_conv)
  qed
  have keys: "task_key_ok n" if "map_of (rev ts) n = Some t" for n t
    using names [OF that] by (simp add: plain_name_def task_key_okI)
  have "task_key_ok [c]" if "c \<in> set cs" for c
    by (rule task_key_okI) (use v(3) that in \<open>auto simp: list_all_iff\<close>)
  then have "list_all task_key_ok (nr_lines v)"
    by (simp add: v(2) list_all_iff keys [OF last])
  moreover have "List.map_filter (map_of (rev ts)) (map (\<lambda>c. [c]) cs @ [fst (last ts)]) = [snd (last ts)]"
    by (induction cs) (simp_all add: map_filter_simps last long)
  ultimately have "nr_GetAllTasks C r' = Ok [snd (last ts)]"
    using nats_kv_up.nr_GetAllTasks_eq [OF assms(1) r'(2)] by (simp add: meta v(2))
  moreover have "nr_GetTask C r' n = Ok t" if "map_of (rev ts) n = Some t" for n t
    using keys [OF that] meta that nats_kv_up.Get_hit [OF assms(1)]
    by (simp add: nr_GetTask_def task_key_ok_def nr_meta_def fun_eq_iff)
  ultimately show ?thesis using r' v(1) by blast
qed

theorem SetTask_loses_listed_tasks_witness:
  "\<exists>r'. nr_SetTasks ref_nats_client ex_nr [(''add'', ''x''), (''mul'', ''y'')] = (r', Ok ())
    \<and> nr_GetTask ref_nats_client r' ''add'' = Ok ''x''
    \<and> nr_GetAllTasks ref_nats_client r' = Ok [''y'']"
proof -
  let ?ts = "[(''add'', ''x''), (''mul'', ''y'')] :: (string \<times> bytes) list"
  have "rn_view (nr_conn ex_nr) nr_tasksKey = None" "\<forall>n. nr_meta rn_view ex_nr n = None"
    "list_all (\<lambda>p. plain_name (fst p)) ?ts" "?ts \<noteq> []"
    by (simp_all add: nr_meta_def plain_name_def key_char_def between_def)
  from SetTask_loses_listed_tasks [OF rn.nats_kv_up_axioms this] show ?thesis by force
qed

end
