(* ===== verification/Server_Lifecycle.thy ===== *)
theory Server_Lifecycle
  imports Server_Registry InMemory_Broker
begin

text \<open>
  The goroutines that \<open>Start\<close> launches and how they end: the cron scheduler's
  (\<open>startCronScheduler\<close>), a queue's consumer (\<open>consume\<close>, which is the broker's \<open>Consume\<close>) and
  its processors (the receive loop of \<open>process\<close>), joined by the queue's work channel, which
  is unbuffered. \<open>Start\<close> returns when all of them have ended. A step is one action of one
  goroutine; the actions that need two, a message handed from a consumer to a processor, are
  one step. What a processor does with a message is the subject of \<open>Server_Exec\<close>; here it is
  the messages it enqueues on the way (a retry, \<open>OnSuccess\<close> and \<open>OnError\<close> jobs), one step each,
  and a step at the end of it. An \<open>Enqueue\<close> of the in-process broker blocks while the channel
  of its queue is full. Each queue has one channel here; the races that make a second one
  are the subject of \<open>Broker_Interleaving\<close>.
\<close>

section \<open>State\<close>

text \<open>
  The three \<open>Consume\<close> methods. That of NATS sends from the callback of a subscription, which
  goes on when the method has returned; the other two send from their own loop, and close
  the channel as they return. \<open>Polling\<close> is inside \<open>BLPop\<close>, \<open>Subscribing\<close> before \<open>Subscribe\<close> has
  returned. \<open>Working m es\<close> is a processor in the handling of \<open>m\<close> that has \<open>es\<close> left to enqueue.
\<close>

datatype broker_kind = InProcess | RedisLoop | NatsCallback

datatype consumer_pc = Subscribing | Listening | Polling | Sending bytes | ConsumerEnded

datatype processor_pc = Waiting | Working bytes "(string \<times> bytes) list" | ProcessorEnded

datatype cron_pc = CronCheck | CronRunning | CronStopping | CronEnded

record queue_run =
  qname :: string
  consumer :: consumer_pc
  subscribed :: bool
  callback :: "bytes option"
  processors :: "processor_pc list"
  work_closed :: bool
  taken :: "bytes list"
  handled :: "bytes list"

text \<open>\<open>waiting\<close> is what the broker holds of each queue, in the order it will give it out.\<close>

record server_run =
  cancelled :: bool
  cron :: cron_pc
  waiting :: "string \<Rightarrow> bytes list"
  runs :: "queue_run list"

definition new_run :: "broker_kind \<Rightarrow> string \<Rightarrow> uint32 \<Rightarrow> queue_run" where
  "new_run k q conc =
     \<lparr>qname = q, consumer = (if k = NatsCallback then Subscribing else Listening), subscribed = False,
      callback = None, processors = replicate (unat conc) Waiting, work_closed = False,
      taken = [], handled = []\<rparr>"

definition server_started ::
  "broker_kind \<Rightarrow> ((string \<times> uint32) list \<Rightarrow> (string \<times> uint32) list) \<Rightarrow> (string \<Rightarrow> bytes list)
     \<Rightarrow> ('b, 'r) server \<Rightarrow> server_run" where
  "server_started k ord ds s =
     \<lparr>cancelled = False, cron = CronCheck, waiting = ds,
      runs = map (\<lambda>(q, conc). new_run k q conc) (ord (queues s))\<rparr>"

section \<open>Steps of the brokers\<close>

text \<open>\<open>Enqueue\<close> on what a queue holds: \<open>None\<close> while it blocks.\<close>

definition inprocess_put :: "bytes list \<Rightarrow> bytes \<Rightarrow> bytes list option" where
  "inprocess_put ds m = (if length ds < chan_cap then Some (ds @ [m]) else None)"

definition redis_put :: "bytes list \<Rightarrow> bytes \<Rightarrow> bytes list option" where
  "redis_put ds m = Some (m # ds)"

definition nats_put :: "bytes list \<Rightarrow> bytes \<Rightarrow> bytes list option" where
  "nats_put ds m = Some (ds @ [m])"

definition broker_put :: "broker_kind \<Rightarrow> bytes list \<Rightarrow> bytes \<Rightarrow> bytes list option" where
  "broker_put k =
     (case k of InProcess \<Rightarrow> inprocess_put | RedisLoop \<Rightarrow> redis_put | NatsCallback \<Rightarrow> nats_put)"

text \<open>
  The steps of \<open>Consume\<close>. \<open>NoTask\<close> is a \<open>BLPop\<close> that ends with the timeout or another error,
  \<open>Malformed\<close> the answer that \<open>blpopResult\<close> refuses; the \<open>select\<close> of the in-process broker
  chooses when both a message and the cancellation are there, that of the Redis broker looks
  for the cancellation before each \<open>BLPop\<close> only. \<open>Take\<close> of the NATS broker is a call of the
  subscription's callback.
\<close>

datatype consumer_action = Take | Stop | Poll | NoTask | Malformed | Subscribed | SubscribeFailed

definition sends :: "queue_run \<Rightarrow> bytes \<Rightarrow> queue_run" where
  "sends l m = l\<lparr>consumer := Sending m, taken := taken l @ [m]\<rparr>"

definition returns_closing :: "queue_run \<Rightarrow> queue_run" where
  "returns_closing l = l\<lparr>consumer := ConsumerEnded, work_closed := True\<rparr>"

fun inprocess_consume ::
  "bool \<Rightarrow> bytes list \<Rightarrow> queue_run \<Rightarrow> consumer_action \<Rightarrow> (bytes list \<times> queue_run) option" where
  "inprocess_consume ctx_done ds l Take =
     (case ds of
        [] \<Rightarrow> None
      | m # ms \<Rightarrow> if consumer l = Listening then Some (ms, sends l m) else None)"
| "inprocess_consume ctx_done ds l Stop =
     (if ctx_done \<and> consumer l = Listening then Some (ds, returns_closing l) else None)"
| "inprocess_consume ctx_done ds l _ = None"

fun redis_consume ::
  "bool \<Rightarrow> bytes list \<Rightarrow> queue_run \<Rightarrow> consumer_action \<Rightarrow> (bytes list \<times> queue_run) option" where
  "redis_consume ctx_done ds l Stop =
     (if ctx_done \<and> consumer l = Listening then Some (ds, returns_closing l) else None)"
| "redis_consume ctx_done ds l Poll =
     (if \<not> ctx_done \<and> consumer l = Listening then Some (ds, l\<lparr>consumer := Polling\<rparr>) else None)"
| "redis_consume ctx_done ds l Take =
     (case ds of
        [] \<Rightarrow> None
      | m # ms \<Rightarrow> if consumer l = Polling then Some (ms, sends l m) else None)"
| "redis_consume ctx_done ds l NoTask =
     (if consumer l = Polling then Some (ds, l\<lparr>consumer := Listening\<rparr>) else None)"
| "redis_consume ctx_done ds l Malformed =
     (if consumer l = Polling then Some (ds, returns_closing l) else None)"
| "redis_consume ctx_done ds l _ = None"

fun nats_consume ::
  "bool \<Rightarrow> bytes list \<Rightarrow> queue_run \<Rightarrow> consumer_action \<Rightarrow> (bytes list \<times> queue_run) option" where
  "nats_consume ctx_done ds l Subscribed =
     (if consumer l = Subscribing then Some (ds, l\<lparr>consumer := Listening, subscribed := True\<rparr>) else None)"
| "nats_consume ctx_done ds l SubscribeFailed =
     (if consumer l = Subscribing then Some (ds, l\<lparr>consumer := Listening\<rparr>) else None)"
| "nats_consume ctx_done ds l Stop =
     (if ctx_done \<and> consumer l = Listening then Some (ds, l\<lparr>consumer := ConsumerEnded\<rparr>) else None)"
| "nats_consume ctx_done ds l Take =
     (case ds of
        [] \<Rightarrow> None
      | m # ms \<Rightarrow>
         if subscribed l \<and> callback l = None then Some (ms, l\<lparr>callback := Some m, taken := taken l @ [m]\<rparr>)
         else None)"
| "nats_consume ctx_done ds l _ = None"

definition consume_step ::
  "broker_kind \<Rightarrow> bool \<Rightarrow> bytes list \<Rightarrow> queue_run \<Rightarrow> consumer_action \<Rightarrow> (bytes list \<times> queue_run) option" where
  "consume_step k =
     (case k of InProcess \<Rightarrow> inprocess_consume | RedisLoop \<Rightarrow> redis_consume | NatsCallback \<Rightarrow> nats_consume)"

section \<open>Steps of the processors\<close>

text \<open>The message on offer on the work channel, and the offer withdrawn once it is received.\<close>

definition offered :: "queue_run \<Rightarrow> bytes option" where
  "offered l = (case consumer l of Sending m \<Rightarrow> Some m | _ \<Rightarrow> callback l)"

definition accepted :: "queue_run \<Rightarrow> queue_run" where
  "accepted l = (case consumer l of Sending m \<Rightarrow> l\<lparr>consumer := Listening\<rparr> | _ \<Rightarrow> l\<lparr>callback := None\<rparr>)"

text \<open>
  \<open>Hand i es\<close>: processor \<open>i\<close> receives the message on offer, in whose handling it will enqueue
  \<open>es\<close>. \<open>Finish i\<close>: it has enqueued all of them and goes back to the channel. \<open>EndProcessor i\<close>: it
  finds the channel closed.
\<close>

datatype processor_action = Hand nat "(string \<times> bytes) list" | Finish nat | EndProcessor nat

fun process_step :: "queue_run \<Rightarrow> processor_action \<Rightarrow> queue_run option" where
  "process_step l (Hand i es) =
     (case offered l of
        None \<Rightarrow> None
      | Some m \<Rightarrow>
         if i < length (processors l) \<and> processors l ! i = Waiting
         then Some ((accepted l)\<lparr>processors := (processors l)[i := Working m es]\<rparr>) else None)"
| "process_step l (Finish i) =
     (if i < length (processors l) then
        (case processors l ! i of
           Working m [] \<Rightarrow> Some (l\<lparr>processors := (processors l)[i := Waiting], handled := handled l @ [m]\<rparr>)
         | _ \<Rightarrow> None)
      else None)"
| "process_step l (EndProcessor i) =
     (if i < length (processors l) \<and> processors l ! i = Waiting \<and> work_closed l
      then Some (l\<lparr>processors := (processors l)[i := ProcessorEnded]\<rparr>) else None)"

text \<open>The next message that processor \<open>i\<close> has to enqueue, and the run once it has done so.\<close>

definition emits :: "queue_run \<Rightarrow> nat \<Rightarrow> (string \<times> bytes \<times> queue_run) option" where
  "emits l i =
     (if i < length (processors l) then
        (case processors l ! i of
           Working m ((q, e) # es) \<Rightarrow> Some (q, e, l\<lparr>processors := (processors l)[i := Working m es]\<rparr>)
         | _ \<Rightarrow> None)
      else None)"

text \<open>
  The goroutine of the cron scheduler: it ends at once if the context is cancelled already;
  otherwise it starts the scheduler and waits for the cancellation, then for the scheduler's
  running jobs or for five seconds, whichever ends first.
\<close>

datatype cron_action = CheckContext | StopCron | JobsEnded | ShutdownTimeout

fun cron_step :: "bool \<Rightarrow> cron_pc \<Rightarrow> cron_action \<Rightarrow> cron_pc option" where
  "cron_step ctx_done CronCheck CheckContext = Some (if ctx_done then CronEnded else CronRunning)"
| "cron_step ctx_done CronRunning StopCron = (if ctx_done then Some CronStopping else None)"
| "cron_step ctx_done CronStopping JobsEnded = Some CronEnded"
| "cron_step ctx_done CronStopping ShutdownTimeout = Some CronEnded"
| "cron_step ctx_done _ _ = None"

section \<open>Steps of the server\<close>

text \<open>
  \<open>Arrive q m\<close> is not a step of the server's goroutines: it is an \<open>Enqueue\<close> of a client, or of
  a handler, that goes through. \<open>Emit i j\<close> is one of the processor \<open>j\<close> of run \<open>i\<close>.
\<close>

datatype server_action =
    Cancel
  | Arrive string bytes
  | OnCron cron_action
  | Consume nat consumer_action
  | Process nat processor_action
  | Emit nat nat

fun server_step :: "broker_kind \<Rightarrow> server_run \<Rightarrow> server_action \<Rightarrow> server_run option" where
  "server_step k s Cancel = Some (s\<lparr>cancelled := True\<rparr>)"
| "server_step k s (Arrive q m) =
     (case broker_put k (waiting s q) m of
        None \<Rightarrow> None
      | Some ds \<Rightarrow> Some (s\<lparr>waiting := (waiting s)(q := ds)\<rparr>))"
| "server_step k s (OnCron a) =
     (case cron_step (cancelled s) (cron s) a of None \<Rightarrow> None | Some c \<Rightarrow> Some (s\<lparr>cron := c\<rparr>))"
| "server_step k s (Consume i a) =
     (if i < length (runs s) then
        (case consume_step k (cancelled s) (waiting s (qname (runs s ! i))) (runs s ! i) a of
           None \<Rightarrow> None
         | Some (ds, l) \<Rightarrow>
             Some (s\<lparr>waiting := (waiting s)(qname (runs s ! i) := ds), runs := (runs s)[i := l]\<rparr>))
      else None)"
| "server_step k s (Process i a) =
     (if i < length (runs s) then
        (case process_step (runs s ! i) a of
           None \<Rightarrow> None
         | Some l \<Rightarrow> Some (s\<lparr>runs := (runs s)[i := l]\<rparr>))
      else None)"
| "server_step k s (Emit i j) =
     (if i < length (runs s) then
        (case emits (runs s ! i) j of
           None \<Rightarrow> None
         | Some (q, e, l) \<Rightarrow>
            (case broker_put k (waiting s q) e of
               None \<Rightarrow> None
             | Some ds \<Rightarrow> Some (s\<lparr>waiting := (waiting s)(q := ds), runs := (runs s)[i := l]\<rparr>)))
      else None)"

fun server_steps :: "broker_kind \<Rightarrow> server_run \<Rightarrow> server_action list \<Rightarrow> server_run option" where
  "server_steps k s [] = Some s"
| "server_steps k s (a # as) =
     (case server_step k s a of None \<Rightarrow> None | Some s' \<Rightarrow> server_steps k s' as)"

lemma server_steps_append:
  "server_steps k s as = Some t \<Longrightarrow> server_steps k s (as @ bs) = server_steps k t bs"
  by (induction as arbitrary: s) (auto split: option.splits)

lemma server_steps_Cons:
  assumes "server_steps k s (a # as) = Some t"
  obtains u where "server_step k s a = Some u" "server_steps k u as = Some t"
  using assms by (auto split: option.splits)

text \<open>\<open>wg.Wait()\<close> returns when every goroutine has called \<open>wg.Done()\<close>.\<close>

definition queue_ended :: "queue_run \<Rightarrow> bool" where
  "queue_ended l \<longleftrightarrow> consumer l = ConsumerEnded \<and> list_all (\<lambda>p. p = ProcessorEnded) (processors l)"

definition start_returns :: "server_run \<Rightarrow> bool" where
  "start_returns s \<longleftrightarrow> cron s = CronEnded \<and> list_all queue_ended (runs s)"

text \<open>The goroutines are those of \<open>Start\<close>.\<close>

lemma started_goroutines:
  "length (Start ord s) = 1 + sum_list (map (\<lambda>l. 1 + length (processors l)) (runs (server_started k ord ds s)))"
  by (simp add: Start_def server_started_def new_run_def length_concat o_def case_prod_beta)

text \<open>A message that comes when the callback and a processor are free.\<close>

lemma nats_delivers:
  assumes "i < length (runs s)" "runs s ! i = l" "qname l = q"
    and "subscribed l" "callback l = None" "waiting s q = []" "\<forall>x. consumer l \<noteq> Sending x"
    and "j < length (processors l)" "processors l ! j = Waiting"
  shows "\<exists>t. server_steps NatsCallback s [Arrive q m, Consume i Take, Process i (Hand j []), Process i (Finish j)] = Some t
    \<and> handled (runs t ! i) = handled l @ [m]"
  using assms
  by (cases "consumer l") (simp_all add: broker_put_def nats_put_def consume_step_def offered_def accepted_def)

section \<open>Invariant\<close>

text \<open>The message a consumer, a callback or a processor holds.\<close>

definition opt_mset :: "bytes option \<Rightarrow> bytes multiset" where
  "opt_mset x = (case x of None \<Rightarrow> {#} | Some m \<Rightarrow> {#m#})"

fun busy :: "processor_pc \<Rightarrow> bytes multiset" where
  "busy (Working m es) = {#m#}"
| "busy _ = {#}"

definition in_hand :: "queue_run \<Rightarrow> bytes multiset" where
  "in_hand l = (case consumer l of Sending m \<Rightarrow> {#m#} | _ \<Rightarrow> {#}) + opt_mset (callback l)
     + (\<Sum>p\<leftarrow>processors l. busy p)"

definition queue_inv :: "broker_kind \<Rightarrow> queue_run \<Rightarrow> bool" where
  "queue_inv k l \<longleftrightarrow>
     (if k = NatsCallback then \<not> work_closed l \<and> (\<forall>m. consumer l \<noteq> Sending m)
      else callback l = None \<and> work_closed l = (consumer l = ConsumerEnded) \<and> consumer l \<noteq> Subscribing) \<and>
     (consumer l = Polling \<longrightarrow> k = RedisLoop) \<and>
     (ProcessorEnded \<in> set (processors l) \<longrightarrow> work_closed l) \<and>
     mset (taken l) = mset (handled l) + in_hand l"

lemma sum_list_update_add:
  fixes f :: "'a \<Rightarrow> 'b :: comm_monoid_add"
  assumes "i < length xs"
  shows "(\<Sum>x\<leftarrow>xs[i := y]. f x) + f (xs ! i) = (\<Sum>x\<leftarrow>xs. f x) + f y"
  using assms by (induction xs arbitrary: i) (auto simp: ac_simps split: nat.splits)

lemma set_update_Ended:
  "p \<noteq> ProcessorEnded \<Longrightarrow> ProcessorEnded \<in> set (ps[i := p]) \<Longrightarrow> ProcessorEnded \<in> set ps"
  using set_update_subset_insert [of ps i p] by auto

lemmas consume_defs = consume_step_def sends_def returns_closing_def

lemma consume_step_inv:
  assumes "queue_inv k l" "consume_step k c ds l a = Some (ds', l')"
  shows "queue_inv k l' \<and> processors l' = processors l \<and> qname l' = qname l"
  using assms
  by (cases k; cases a)
    (auto simp: consume_defs queue_inv_def in_hand_def opt_mset_def split: if_splits list.splits)

lemma process_step_inv:
  assumes inv: "queue_inv k l" and step: "process_step l a = Some l'"
  shows "queue_inv k l' \<and> length (processors l') = length (processors l) \<and> qname l' = qname l"
proof (cases a)
  case (Hand i es)
  then obtain m where m: "offered l = Some m" "i < length (processors l)" "processors l ! i = Waiting"
    and l': "l' = (accepted l)\<lparr>processors := (processors l)[i := Working m es]\<rparr>"
    using step by (auto split: option.splits if_splits)
  have "(\<Sum>p\<leftarrow>(processors l)[i := Working m es]. busy p) = (\<Sum>p\<leftarrow>processors l. busy p) + {#m#}"
    using sum_list_update_add [OF m(2), of busy "Working m es"] m(3) by simp
  then show ?thesis
    using inv m l' set_update_Ended [of "Working m es" "processors l" i]
    by (cases "consumer l")
      (auto simp: queue_inv_def in_hand_def offered_def accepted_def opt_mset_def split: if_splits)
next
  case (Finish i)
  then obtain m where m: "i < length (processors l)" "processors l ! i = Working m []"
    and l': "l' = l\<lparr>processors := (processors l)[i := Waiting], handled := handled l @ [m]\<rparr>"
    using step by (auto split: processor_pc.splits list.splits if_splits)
  have "(\<Sum>p\<leftarrow>(processors l)[i := Waiting]. busy p) + {#m#} = (\<Sum>p\<leftarrow>processors l. busy p)"
    using sum_list_update_add [OF m(1), of busy Waiting] m(2) by simp
  then show ?thesis
    using inv l' set_update_Ended [of Waiting "processors l" i]
    by (auto simp: queue_inv_def in_hand_def ac_simps)
next
  case (EndProcessor i)
  then have m: "i < length (processors l)" "processors l ! i = Waiting" "work_closed l"
    and l': "l' = l\<lparr>processors := (processors l)[i := ProcessorEnded]\<rparr>"
    using step by (auto split: if_splits)
  have "(\<Sum>p\<leftarrow>(processors l)[i := ProcessorEnded]. busy p) = (\<Sum>p\<leftarrow>processors l. busy p)"
    using sum_list_update_add [OF m(1), of busy ProcessorEnded] m(2) by simp
  then show ?thesis using inv l' m(3) by (auto simp: queue_inv_def in_hand_def)
qed

lemma emitsE:
  assumes "emits l j = Some (q, e, l')"
  obtains m es where "j < length (processors l)" "processors l ! j = Working m ((q, e) # es)"
    "l' = l\<lparr>processors := (processors l)[j := Working m es]\<rparr>"
  using assms by (auto simp: emits_def split: if_splits processor_pc.splits list.splits prod.splits)

lemma emits_inv:
  assumes "queue_inv k l" "emits l j = Some (q, e, l')"
  shows "queue_inv k l' \<and> length (processors l') = length (processors l) \<and> qname l' = qname l"
proof -
  obtain m es where m: "j < length (processors l)" "processors l ! j = Working m ((q, e) # es)"
    and l': "l' = l\<lparr>processors := (processors l)[j := Working m es]\<rparr>"
    using assms(2) by (rule emitsE)
  have "(\<Sum>p\<leftarrow>(processors l)[j := Working m es]. busy p) = (\<Sum>p\<leftarrow>processors l. busy p)"
    using sum_list_update_add [OF m(1), of busy "Working m es"] m(2) by simp
  then show ?thesis
    using assms(1) l' set_update_Ended [of "Working m es" "processors l" j]
    by (auto simp: queue_inv_def in_hand_def)
qed

text \<open>A step of the server leaves all its runs as they are, but one.\<close>

lemma server_step_runs:
  assumes "server_step k s a = Some t"
  obtains "runs t = runs s" "a = Cancel \<or> (\<exists>q m. a = Arrive q m) \<or> (\<exists>b. a = OnCron b)"
  | i b ds l where "a = Consume i b" "i < length (runs s)"
      "consume_step k (cancelled s) (waiting s (qname (runs s ! i))) (runs s ! i) b = Some (ds, l)"
      "t = s\<lparr>waiting := (waiting s)(qname (runs s ! i) := ds), runs := (runs s)[i := l]\<rparr>"
  | i b l where "a = Process i b" "i < length (runs s)" "process_step (runs s ! i) b = Some l"
      "t = s\<lparr>runs := (runs s)[i := l]\<rparr>"
  | i j q e l ds where "a = Emit i j" "i < length (runs s)" "emits (runs s ! i) j = Some (q, e, l)"
      "broker_put k (waiting s q) e = Some ds"
      "t = s\<lparr>waiting := (waiting s)(q := ds), runs := (runs s)[i := l]\<rparr>"
  using assms by (cases a) (auto split: option.splits if_splits)

definition server_inv :: "broker_kind \<Rightarrow> server_run \<Rightarrow> bool" where
  "server_inv k s \<longleftrightarrow> list_all (\<lambda>l. queue_inv k l \<and> processors l \<noteq> []) (runs s)"

text \<open>What no step changes: the queues and the number of their processors.\<close>

definition shape :: "server_run \<Rightarrow> (string \<times> nat) list" where
  "shape s = map (\<lambda>l. (qname l, length (processors l))) (runs s)"

lemma shape_eqs: "length (shape s) = length (runs s)" "map fst (shape s) = map qname (runs s)"
  by (simp_all add: shape_def comp_def)

lemma shape_length: "shape s' = shape s \<Longrightarrow> length (runs s') = length (runs s)"
  using shape_eqs(1) by metis

lemma shape_qnames: "shape s' = shape s \<Longrightarrow> map qname (runs s') = map qname (runs s)"
  using shape_eqs(2) by metis

lemma server_invD: "server_inv k s \<Longrightarrow> i < length (runs s) \<Longrightarrow> queue_inv k (runs s ! i) \<and> processors (runs s ! i) \<noteq> []"
  by (simp add: server_inv_def list_all_length)

lemma server_inv_update:
  assumes "server_inv k s" "i < length (runs s)" "queue_inv k l" "length (processors l) = length (processors (runs s ! i))"
  shows "server_inv k (s\<lparr>waiting := w, runs := (runs s)[i := l]\<rparr>)"
  using assms server_invD [OF assms(1,2)]
  by (auto simp: server_inv_def list_all_length nth_list_update)

lemma server_step_inv:
  assumes "server_inv k s" "server_step k s a = Some s'"
  shows "server_inv k s'" "shape s' = shape s"
proof -
  note inv = server_invD [OF assms(1)]
  have "server_inv k s' \<and> shape s' = shape s"
  using assms(2)
  proof (cases rule: server_step_runs)
    case 1
    then show ?thesis using assms(1) by (simp add: server_inv_def shape_def)
  next
    case (2 i b ds l)
    then show ?thesis
      using consume_step_inv [OF conjunct1 [OF inv [OF 2(2)]] 2(3)] server_inv_update [OF assms(1) 2(2)]
      by (simp add: shape_def map_update list_update_same_conv)
  next
    case (3 i b l)
    then show ?thesis
      using process_step_inv [OF conjunct1 [OF inv [OF 3(2)]] 3(3)]
        server_inv_update [OF assms(1) 3(2), of l "waiting s"]
      by (simp add: shape_def map_update list_update_same_conv)
  next
    case (4 i j q e l ds)
    then show ?thesis
      using emits_inv [OF conjunct1 [OF inv [OF 4(2)]] 4(3)] server_inv_update [OF assms(1) 4(2)]
      by (simp add: shape_def map_update list_update_same_conv)
  qed
  then show "server_inv k s'" "shape s' = shape s" by simp_all
qed

lemma server_step_cancelled: "cancelled s \<Longrightarrow> server_step k s a = Some s' \<Longrightarrow> cancelled s'"
  by (cases a) (auto split: if_splits option.splits)

lemma server_steps_inv:
  assumes "server_inv k s" "server_steps k s as = Some s'"
  shows "server_inv k s'" "shape s' = shape s"
proof -
  have "server_inv k s' \<and> shape s' = shape s"
    using assms
  proof (induction as arbitrary: s)
    case (Cons a as)
    obtain u where u: "server_step k s a = Some u" "server_steps k u as = Some s'"
      using Cons.prems(2) by (rule server_steps_Cons)
    show ?case using Cons.IH [OF server_step_inv(1) [OF Cons.prems(1) u(1)] u(2)]
        server_step_inv [OF Cons.prems(1) u(1)] by simp
  qed simp
  then show "server_inv k s'" "shape s' = shape s" by simp_all
qed

lemma cancelled_stays: "cancelled s \<Longrightarrow> server_steps k s as = Some t \<Longrightarrow> cancelled t"
  by (induction as arbitrary: s) (auto split: option.splits dest: server_step_cancelled)

lemma replicate_none: "sum_list (replicate n {#}) = {#}"
  by (induction n) simp_all

lemma started_inv:
  assumes "\<forall>(q, conc) \<in> set (ord (queues srv)). conc \<noteq> 0"
  shows "server_inv k (server_started k ord ds srv)"
  using assms
  by (auto simp: server_inv_def server_started_def new_run_def list_all_iff queue_inv_def in_hand_def opt_mset_def
      replicate_none unat_eq_0)

section \<open>The end of a run\<close>

text \<open>
  Weights that every step of the goroutines lowers after the cancellation. A waiting message
  can still be taken by the in-process consumer, whose \<open>select\<close> may choose it over the
  cancellation; the Redis loop takes one more at most. A message that arrives adds its
  weight, and one that a processor is going to enqueue adds it and the step of enqueueing.
\<close>

fun cron_weight :: "cron_pc \<Rightarrow> nat" where
  "cron_weight CronCheck = 3"
| "cron_weight CronRunning = 2"
| "cron_weight CronStopping = 1"
| "cron_weight CronEnded = 0"

definition message_weight :: "broker_kind \<Rightarrow> nat" where
  "message_weight k = (if k = InProcess then 3 else 0)"

fun consumer_weight :: "consumer_pc \<Rightarrow> nat" where
  "consumer_weight Listening = 1"
| "consumer_weight Polling = 4"
| "consumer_weight (Sending m) = 3"
| "consumer_weight _ = 0"

fun processor_weight :: "broker_kind \<Rightarrow> processor_pc \<Rightarrow> nat" where
  "processor_weight k Waiting = 1"
| "processor_weight k (Working m es) = 2 + Suc (message_weight k) * length es"
| "processor_weight k ProcessorEnded = 0"

definition queue_weight :: "broker_kind \<Rightarrow> queue_run \<Rightarrow> nat" where
  "queue_weight k l = consumer_weight (consumer l) + (\<Sum>p\<leftarrow>processors l. processor_weight k p)"

definition waiting_weight :: "broker_kind \<Rightarrow> server_run \<Rightarrow> nat" where
  "waiting_weight k s = (\<Sum>q\<in>set (map qname (runs s)). message_weight k * length (waiting s q))"

definition server_weight :: "broker_kind \<Rightarrow> server_run \<Rightarrow> nat" where
  "server_weight k s = cron_weight (cron s) + (\<Sum>l\<leftarrow>runs s. queue_weight k l) + waiting_weight k s"

definition own :: "server_action \<Rightarrow> bool" where
  "own a \<longleftrightarrow> a \<noteq> Cancel \<and> (\<forall>q m. a \<noteq> Arrive q m)"

fun extra :: "broker_kind \<Rightarrow> server_action \<Rightarrow> nat" where
  "extra k (Arrive q m) = message_weight k"
| "extra k (Process i (Hand j es)) = Suc (message_weight k) * length es"
| "extra k _ = 0"

lemma consume_weight:
  assumes "k \<noteq> NatsCallback" "queue_inv k l" "consume_step k True ds l a = Some (ds', l')"
  shows "queue_weight k l' + message_weight k * length ds' + 1 \<le> queue_weight k l + message_weight k * length ds"
    "length ds' \<le> length ds"
  using assms
  by (cases k; cases a; auto simp: consume_defs queue_inv_def queue_weight_def message_weight_def
      split: if_splits list.splits)+

lemma process_weight:
  assumes "k \<noteq> NatsCallback" "queue_inv k l" "process_step l a = Some l'"
  shows "queue_weight k l' + 1 \<le> queue_weight k l + extra k (Process i a)"
proof (cases a)
  case (Hand j es)
  then obtain m where m: "offered l = Some m" "j < length (processors l)" "processors l ! j = Waiting"
    and l': "l' = (accepted l)\<lparr>processors := (processors l)[j := Working m es]\<rparr>"
    using assms(3) by (auto split: option.splits if_splits)
  then show ?thesis
    using sum_list_update_add [OF m(2), of "processor_weight k" "Working m es"] assms(1,2) Hand
    by (auto simp: queue_weight_def offered_def accepted_def queue_inv_def split: consumer_pc.splits)
next
  case (Finish j)
  then obtain m where m: "j < length (processors l)" "processors l ! j = Working m []"
    and l': "l' = l\<lparr>processors := (processors l)[j := Waiting], handled := handled l @ [m]\<rparr>"
    using assms(3) by (auto split: processor_pc.splits list.splits if_splits)
  then show ?thesis
    using sum_list_update_add [OF m(1), of "processor_weight k" Waiting] Finish by (simp add: queue_weight_def)
next
  case (EndProcessor j)
  then have m: "j < length (processors l)" "processors l ! j = Waiting"
    and l': "l' = l\<lparr>processors := (processors l)[j := ProcessorEnded]\<rparr>"
    using assms(3) by (auto split: if_splits)
  then show ?thesis
    using sum_list_update_add [OF m(1), of "processor_weight k" ProcessorEnded] EndProcessor
    by (simp add: queue_weight_def)
qed

lemma emits_weight:
  assumes "emits l j = Some (q, e, l')"
  shows "queue_weight k l' + Suc (message_weight k) = queue_weight k l"
proof -
  obtain m es where m: "j < length (processors l)" "processors l ! j = Working m ((q, e) # es)"
    and l': "l' = l\<lparr>processors := (processors l)[j := Working m es]\<rparr>"
    using assms by (rule emitsE)
  then show ?thesis
    using sum_list_update_add [OF m(1), of "processor_weight k" "Working m es"] by (simp add: queue_weight_def)
qed

lemma put_length:
  "broker_put k ds m = Some ds' \<Longrightarrow> length ds' = Suc (length ds)"
  by (cases k) (auto simp: broker_put_def inprocess_put_def redis_put_def nats_put_def split: if_splits)

text \<open>What a change of one queue's messages adds to the weight of all.\<close>

lemma waiting_weight_upd:
  assumes "map qname (runs t) = map qname (runs s)" "waiting t = (waiting s)(q := ds)"
  shows "waiting_weight k t + (if q \<in> qname ` set (runs s) then message_weight k * length (waiting s q) else 0) =
    waiting_weight k s + (if q \<in> qname ` set (runs s) then message_weight k * length ds else 0)"
proof -
  have names: "set (map qname (runs t)) = set (map qname (runs s))" using assms(1) by simp
  let ?c = "message_weight k" and ?K = "qname ` set (runs s)"
  have t: "waiting_weight k t = (\<Sum>p\<in>?K. ?c * length (((waiting s)(q := ds)) p))"
    unfolding waiting_weight_def names assms(2) by simp
  have s: "waiting_weight k s = (\<Sum>p\<in>?K. ?c * length (waiting s p))" unfolding waiting_weight_def by simp
  show ?thesis
  proof (cases "q \<in> ?K")
    case True
    have rest: "(\<Sum>p\<in>?K - {q}. ?c * length (((waiting s)(q := ds)) p)) = (\<Sum>p\<in>?K - {q}. ?c * length (waiting s p))"
      by (rule sum.cong) auto
    show ?thesis
      using True rest sum.remove [of ?K q "\<lambda>p. ?c * length (((waiting s)(q := ds)) p)"]
        sum.remove [of ?K q "\<lambda>p. ?c * length (waiting s p)"] by (simp add: t s)
  next
    case False
    then have "(\<Sum>p\<in>?K. ?c * length (((waiting s)(q := ds)) p)) = (\<Sum>p\<in>?K. ?c * length (waiting s p))"
      by (intro sum.cong) auto
    then show ?thesis using False by (simp add: t s)
  qed
qed

lemma waiting_weight_put:
  assumes "map qname (runs t) = map qname (runs s)" "waiting t = (waiting s)(q := ds)"
    and "length ds = Suc (length (waiting s q))"
  shows "waiting_weight k t \<le> waiting_weight k s + message_weight k"
  using waiting_weight_upd [OF assms(1,2), of k] assms(3) by (cases "q \<in> qname ` set (runs s)") simp_all

lemma server_step_weight:
  assumes "k \<noteq> NatsCallback" "server_inv k s" "cancelled s" "server_step k s a = Some t"
  shows "server_weight k t + (if own a then 1 else 0) \<le> server_weight k s + extra k a"
proof -
  let ?c = "message_weight k"
  have names: "map qname (runs t) = map qname (runs s)"
    using shape_qnames [OF server_step_inv(2) [OF assms(2,4)]] .
  show ?thesis
  using assms(4)
  proof (cases rule: server_step_runs)
    case 1
    show ?thesis
    proof (cases a)
      case (Arrive q m)
      then obtain ds where ds: "broker_put k (waiting s q) m = Some ds" "t = s\<lparr>waiting := (waiting s)(q := ds)\<rparr>"
        using assms(4) by (auto split: option.splits)
      then have "waiting_weight k t \<le> waiting_weight k s + ?c"
        using waiting_weight_put [OF names _ put_length [OF ds(1)]] by simp
      then show ?thesis using Arrive ds(2) by (simp add: server_weight_def own_def)
    next
      case (OnCron b)
      then obtain c where "cron_step True (cron s) b = Some c" "t = s\<lparr>cron := c\<rparr>"
        using assms(3,4) by (auto split: option.splits)
      then show ?thesis
        using OnCron by (cases "cron s"; cases b) (auto simp: server_weight_def waiting_weight_def own_def)
    qed (use 1 assms in \<open>auto simp: own_def server_weight_def waiting_weight_def\<close>)
  next
    case (2 i b ds l)
    let ?q = "qname (runs s ! i)"
    have "?q \<in> qname ` set (runs s)" using 2(2) by simp
    then have "waiting_weight k t + ?c * length (waiting s ?q) = waiting_weight k s + ?c * length ds"
      using waiting_weight_upd [OF names, of ?q ds] 2(4) by simp
    moreover have "queue_weight k l + ?c * length ds + 1 \<le> queue_weight k (runs s ! i) + ?c * length (waiting s ?q)"
      using consume_weight(1) [OF assms(1) conjunct1 [OF server_invD [OF assms(2) 2(2)]]] 2(3) assms(3) by simp
    ultimately show ?thesis
      using sum_list_update_add [OF 2(2), of "queue_weight k" l] 2(1,4) by (simp add: server_weight_def own_def)
  next
    case (3 i b l)
    have "queue_weight k l + 1 \<le> queue_weight k (runs s ! i) + extra k (Process i b)"
      using process_weight [OF assms(1) conjunct1 [OF server_invD [OF assms(2) 3(2)]] 3(3)] by (cases b) simp_all
    moreover have "waiting_weight k t = waiting_weight k s"
      using arg_cong [OF names, of set] by (simp add: waiting_weight_def 3(4))
    ultimately show ?thesis
      using sum_list_update_add [OF 3(2), of "queue_weight k" l] 3(1,4) by (simp add: server_weight_def own_def)
  next
    case (4 i j q e l ds)
    have "waiting_weight k t \<le> waiting_weight k s + ?c"
      using waiting_weight_put [OF names _ put_length [OF 4(4)]] 4(5) by simp
    moreover have "queue_weight k l + Suc ?c = queue_weight k (runs s ! i)" using 4(3) by (rule emits_weight)
    ultimately show ?thesis
      using sum_list_update_add [OF 4(2), of "queue_weight k" l] 4(1,5) by (simp add: server_weight_def own_def)
  qed
qed

lemma server_steps_weight:
  assumes "k \<noteq> NatsCallback" "server_inv k s" "cancelled s" "server_steps k s as = Some t"
  shows "server_weight k t + length (filter own as) \<le> server_weight k s + (\<Sum>a\<leftarrow>as. extra k a)"
  using assms(2-4)
proof (induction as arbitrary: s)
  case (Cons a as)
  obtain u where u: "server_step k s a = Some u" "server_steps k u as = Some t"
    using Cons.prems(3) by (rule server_steps_Cons)
  show ?case
    using Cons.IH [OF server_step_inv(1) [OF Cons.prems(1) u(1)] server_step_cancelled [OF Cons.prems(2) u(1)] u(2)]
      server_step_weight [OF assms(1) Cons.prems(1,2) u(1)] by (auto split: if_splits)
qed simp

section \<open>Blocked senders\<close>

text \<open>
  Some processor has to enqueue on \<open>q\<close>, of which the in-process broker's channel is full; and
  no consumer of \<open>q\<close> is left.
\<close>

definition sender_blocked :: "server_run \<Rightarrow> string \<Rightarrow> bool" where
  "sender_blocked s q \<longleftrightarrow>
     chan_cap \<le> length (waiting s q)
     \<and> list_ex (\<lambda>l. list_ex (\<lambda>p. case p of Working m (d # ds) \<Rightarrow> fst d = q | _ \<Rightarrow> False) (processors l)) (runs s)"

definition consumer_gone :: "server_run \<Rightarrow> string \<Rightarrow> bool" where
  "consumer_gone s q \<longleftrightarrow> list_all (\<lambda>l. qname l = q \<longrightarrow> consumer l = ConsumerEnded) (runs s)"

text \<open>Nothing left to enqueue.\<close>

definition quiet :: "server_run \<Rightarrow> bool" where
  "quiet s \<longleftrightarrow> list_all (\<lambda>l. list_all (\<lambda>p. \<forall>m es. p = Working m es \<longrightarrow> es = []) (processors l)) (runs s)"

text \<open>A processor that has not ended can act, unless it waits for a message or is blocked.\<close>

lemma processor_progress:
  assumes "i < length (runs s)" "j < length (processors (runs s ! i))" "processors (runs s ! i) ! j = Working m es"
  shows "server_step k s (Process i (Finish j)) \<noteq> None \<or> server_step k s (Emit i j) \<noteq> None
    \<or> (k = InProcess \<and> (\<exists>q. sender_blocked s q) \<and> \<not> quiet s)"
proof (cases es)
  case Nil
  then show ?thesis using assms by simp
next
  case (Cons d ds)
  have mem: "runs s ! i \<in> set (runs s)" "Working m (d # ds) \<in> set (processors (runs s ! i))"
    using assms Cons by (simp_all, metis nth_mem)
  have nq: "\<not> quiet s" using mem by (fastforce simp: quiet_def list_all_iff)
  show ?thesis
  proof (cases "broker_put k (waiting s (fst d)) (snd d)")
    case None
    then have "k = InProcess" "chan_cap \<le> length (waiting s (fst d))"
      by (cases k; simp add: broker_put_def inprocess_put_def redis_put_def nats_put_def split: if_splits)+
    moreover have "sender_blocked s (fst d)"
      using mem calculation(2) unfolding sender_blocked_def list_ex_iff by force
    ultimately show ?thesis using nq by blast
  next
    case (Some ds')
    then show ?thesis using assms Cons by (cases d) (simp add: emits_def)
  qed
qed

lemma queue_progress:
  assumes "k \<noteq> NatsCallback" "server_inv k s" "cancelled s" "i < length (runs s)" "\<not> queue_ended (runs s ! i)"
  shows "(\<exists>a. own a \<and> extra k a = 0 \<and> server_step k s a \<noteq> None)
    \<or> (k = InProcess \<and> (\<exists>q. sender_blocked s q) \<and> \<not> quiet s)"
proof -
  let ?l = "runs s ! i"
  have inv: "queue_inv k ?l" "processors ?l \<noteq> []" using server_invD [OF assms(2,4)] by simp_all
  have own: "own (Consume i a)" "own (Process i b)" "own (Emit i j)" for a b j by (simp_all add: own_def)
  have extra_own: "extra k (Consume i a) = 0" "extra k (Process i (Finish j)) = 0" "extra k (Emit i j) = 0" for a j
    by simp_all
  have proc: ?thesis if "j < length (processors ?l)" "processors ?l ! j = Working m es" for j m es
    using processor_progress [OF assms(4) that, of k] own(2) [of "Finish j"] own(3) [of j] extra_own(2,3) by blast
  show ?thesis
  proof (cases "consumer ?l")
    case Listening
    then have "server_step k s (Consume i Stop) \<noteq> None"
      using assms(1,3,4) by (cases k) (simp_all add: consume_defs)
    then show ?thesis using own(1) [of Stop] extra_own(1) by blast
  next
    case Polling
    then have "server_step k s (Consume i NoTask) \<noteq> None"
      using inv(1) assms(4) by (simp add: queue_inv_def consume_defs)
    then show ?thesis using own(1) [of NoTask] extra_own(1) by blast
  next
    case (Sending m)
    then have "ProcessorEnded \<notin> set (processors ?l)" using assms(1) inv(1) by (auto simp: queue_inv_def)
    then have alive: "processors ?l ! 0 \<noteq> ProcessorEnded" using inv(2) by (metis length_greater_0_conv nth_mem)
    show ?thesis
    proof (cases "processors ?l ! 0")
      case Waiting
      then have "server_step k s (Process i (Hand 0 [])) \<noteq> None"
        using inv(2) assms(4) Sending by (simp add: offered_def)
      moreover have "extra k (Process i (Hand 0 [])) = 0" by simp
      ultimately show ?thesis using own(2) by blast
    qed (use alive proc [of 0] inv(2) in simp_all)
  next
    case ConsumerEnded
    then obtain j where j: "j < length (processors ?l)" "processors ?l ! j \<noteq> ProcessorEnded"
      using assms(5) by (auto simp: queue_ended_def list_all_length)
    have closed: "work_closed ?l" using ConsumerEnded assms(1) inv(1) by (simp add: queue_inv_def)
    show ?thesis
    proof (cases "processors ?l ! j")
      case Waiting
      then have "server_step k s (Process i (EndProcessor j)) \<noteq> None" using j closed assms(4) by simp
      moreover have "extra k (Process i (EndProcessor j)) = 0" by simp
      ultimately show ?thesis using own(2) by blast
    qed (use j proc [of j] in simp_all)
  qed (use inv(1) assms(1) in \<open>simp add: queue_inv_def\<close>)
qed

lemma cron_progress: "c \<noteq> CronEnded \<Longrightarrow> \<exists>a. cron_step True c a \<noteq> None"
  by (cases c) (auto intro: exI [of _ CheckContext] exI [of _ StopCron] exI [of _ JobsEnded])

lemma server_progress:
  assumes "k \<noteq> NatsCallback" "server_inv k s" "cancelled s" "\<not> start_returns s"
  shows "(\<exists>a. own a \<and> extra k a = 0 \<and> server_step k s a \<noteq> None)
    \<or> (k = InProcess \<and> (\<exists>q. sender_blocked s q) \<and> \<not> quiet s)"
proof (cases "cron s = CronEnded")
  case True
  then obtain i where "i < length (runs s)" "\<not> queue_ended (runs s ! i)"
    using assms(4) by (auto simp: start_returns_def list_all_length)
  then show ?thesis by (rule queue_progress [OF assms(1-3)])
next
  case False
  then obtain a where "cron_step True (cron s) a \<noteq> None" using cron_progress by blast
  then have "own (OnCron a) \<and> extra k (OnCron a) = 0 \<and> server_step k s (OnCron a) \<noteq> None"
    using assms(3) by (auto simp: own_def)
  then show ?thesis by blast
qed

lemma ended_all_handled:
  assumes "k \<noteq> NatsCallback" "queue_inv k l" "queue_ended l"
  shows "mset (taken l) = mset (handled l)"
proof -
  have "(\<Sum>p\<leftarrow>ps. busy p) = {#}" if "list_all (\<lambda>p. p = ProcessorEnded) ps" for ps
    using that by (induction ps) auto
  then show ?thesis using assms by (simp add: queue_inv_def in_hand_def queue_ended_def opt_mset_def)
qed

end
