(* ===== verification/Lifecycle_Properties.thy ===== *)
theory Lifecycle_Properties
  imports Server_Lifecycle Server_Properties
begin

text \<open>
  How a server ends. With the in-process and the Redis broker the channel of every consumer
  is closed, and \<open>Start\<close> returns after a cancellation unless a processor is blocked in an
  \<open>Enqueue\<close> of the in-process broker; with the NATS broker it does not return.
\<close>

section \<open>A run to the return\<close>

lemma quiet_step:
  assumes "quiet s" "own a" "extra InProcess a = 0" "server_step InProcess s a = Some t"
  shows "quiet t"
proof -
  have q: "es = []" if "i < length (runs s)" "j < length (processors (runs s ! i))"
    "processors (runs s ! i) ! j = Working m es" for i j m es
    using assms(1) that by (auto simp: quiet_def list_all_length)
  show ?thesis
    using assms(4)
  proof (cases rule: server_step_runs)
    case 1
    then show ?thesis using assms(1) by (simp add: quiet_def)
  next
    case (2 i b ds l)
    then have "processors l = processors (runs s ! i)"
      by (cases b) (auto simp: consume_defs split: if_splits list.splits)
    then show ?thesis using q 2(2,4) by (auto simp: quiet_def list_all_length nth_list_update)
  next
    case (3 i b l)
    have "es = []" if "j < length (processors l)" "processors l ! j = Working m es" for j m es
      using that 3(1-3) assms(3) q [OF 3(2)]
      by (cases b) (auto simp: accepted_def nth_list_update split: option.splits if_splits consumer_pc.splits
          processor_pc.splits list.splits)
    then show ?thesis using q 3(2,4) by (auto simp: quiet_def list_all_length nth_list_update)
  next
    case (4 i j p e l ds)
    then show ?thesis using q [OF 4(2)] by (auto elim!: emitsE)
  qed
qed

lemma shutdown_exists:
  assumes "k \<noteq> NatsCallback" "server_inv k s" "cancelled s" "k = RedisLoop \<or> quiet s"
  shows "\<exists>as t. server_steps k s as = Some t \<and> start_returns t"
  using assms(2-4)
proof (induction "server_weight k s" arbitrary: s rule: less_induct)
  case less
  show ?case
  proof (cases "start_returns s")
    case True
    then show ?thesis by (intro exI [of _ "[]"] exI [of _ s]) simp
  next
    case False
    then obtain a t where a: "own a" "extra k a = 0" "server_step k s a = Some t"
      using server_progress [OF assms(1) less.prems(1,2)] less.prems(3) by fastforce
    then have "server_weight k t < server_weight k s"
      using server_step_weight [OF assms(1) less.prems(1,2) a(3)] by simp
    moreover have "k = RedisLoop \<or> quiet t"
      using less.prems(3) quiet_step [OF _ a(1)] a assms(1) by (cases k) auto
    ultimately obtain as u where "server_steps k t as = Some u" "start_returns u"
      using less.hyps [OF _ server_step_inv(1) [OF less.prems(1) a(3)] server_step_cancelled [OF less.prems(2) a(3)]]
      by blast
    then show ?thesis using a(3) by (intro exI [of _ "a # as"] exI [of _ u]) simp
  qed
qed

section \<open>A sender blocked for good\<close>

definition held_up :: "server_run \<Rightarrow> nat \<Rightarrow> nat \<Rightarrow> string \<Rightarrow> bool" where
  "held_up s i j q \<longleftrightarrow> i < length (runs s) \<and> j < length (processors (runs s ! i))
     \<and> (\<exists>m e es. processors (runs s ! i) ! j = Working m ((q, e) # es))
     \<and> chan_cap \<le> length (waiting s q) \<and> consumer_gone s q"

lemma held_up_step:
  assumes "held_up s i j q" "server_step InProcess s a = Some t"
  shows "held_up t i j q"
proof -
  obtain m e es where ij: "i < length (runs s)" "j < length (processors (runs s ! i))"
    and w: "processors (runs s ! i) ! j = Working m ((q, e) # es)"
    and full: "chan_cap \<le> length (waiting s q)"
    and gone: "\<And>n. n < length (runs s) \<Longrightarrow> qname (runs s ! n) = q \<Longrightarrow> consumer (runs s ! n) = ConsumerEnded"
    using assms(1) by (auto simp: held_up_def consumer_gone_def list_all_length)
  have other: "p \<noteq> q" if "broker_put InProcess (waiting s p) d = Some ds" for p d ds
    using that full by (auto simp: broker_put_def inprocess_put_def)
  have blocked: "broker_put InProcess (waiting s q) d = None" for d
    using full by (simp add: broker_put_def inprocess_put_def)
  show ?thesis
    using assms(2)
  proof (cases rule: server_step_runs)
    case 1
    have "waiting t q = waiting s q"
      using 1(2) assms(2) blocked by (auto split: option.splits if_splits)
    then show ?thesis using assms(1) 1(1) by (simp add: held_up_def consumer_gone_def)
  next
    case (2 n b ds l)
    then have n: "consumer (runs s ! n) \<noteq> ConsumerEnded" "processors l = processors (runs s ! n)" "qname l = qname (runs s ! n)"
      by (cases b; auto simp: consume_defs split: if_splits list.splits)+
    then have "qname (runs s ! n) \<noteq> q" using gone 2(2) by auto
    then show ?thesis
      using ij w full gone n 2(2,4)
      by (auto simp: held_up_def consumer_gone_def list_all_length nth_list_update)
  next
    case (3 n b l)
    have l: "qname l = qname (runs s ! n)" "length (processors l) = length (processors (runs s ! n))"
      "consumer (runs s ! n) = ConsumerEnded \<longrightarrow> consumer l = ConsumerEnded"
      using 3(3) by (cases b; auto simp: accepted_def offered_def split: option.splits if_splits consumer_pc.splits
          processor_pc.splits list.splits)+
    have "n = i \<longrightarrow> processors l ! j = processors (runs s ! i) ! j"
      using 3(3) ij w by (cases b) (auto simp: accepted_def nth_list_update split: option.splits if_splits
          consumer_pc.splits processor_pc.splits list.splits)
    then show ?thesis
      using ij w full gone l 3(2,4)
      by (auto simp: held_up_def consumer_gone_def list_all_length nth_list_update)
  next
    case (4 n p r d l ds)
    have r: "r \<noteq> q" using other [OF 4(4)] .
    obtain m' es' where l: "p < length (processors (runs s ! n))" "processors (runs s ! n) ! p = Working m' ((r, d) # es')"
      "l = (runs s ! n)\<lparr>processors := (processors (runs s ! n))[p := Working m' es']\<rparr>"
      using 4(3) by (rule emitsE)
    then have "n = i \<longrightarrow> p \<noteq> j" using w r by auto
    then show ?thesis
      using ij w full gone l r 4(2,5)
      by (auto simp: held_up_def consumer_gone_def list_all_length nth_list_update)
  qed
qed

lemma held_up_never_returns:
  assumes "held_up s i j q" "server_steps InProcess s as = Some t"
  shows "\<not> start_returns t"
  using assms
proof (induction as arbitrary: s)
  case Nil
  then have "\<not> queue_ended (runs s ! i)" "i < length (runs s)"
    by (auto simp: held_up_def queue_ended_def list_all_length)
  then show ?case using Nil by (auto simp: start_returns_def list_all_length)
next
  case (Cons a as)
  obtain u where "server_step InProcess s a = Some u" "server_steps InProcess u as = Some t"
    using Cons.prems(2) by (rule server_steps_Cons)
  then show ?case using Cons.IH held_up_step [OF Cons.prems(1)] by blast
qed

lemma blocked_held_up:
  assumes "sender_blocked s q" "consumer_gone s q"
  obtains i j where "held_up s i j q"
proof -
  obtain i j where "i < length (runs s)" "j < length (processors (runs s ! i))"
    "case processors (runs s ! i) ! j of Working m (d # ds) \<Rightarrow> fst d = q | _ \<Rightarrow> False"
    using assms(1) by (auto simp: sender_blocked_def list_ex_length)
  then have "held_up s i j q"
    using assms by (auto simp: held_up_def sender_blocked_def split: processor_pc.splits list.splits)
  then show thesis by (rule that)
qed

section \<open>The return of Start\<close>

text \<open>
  C28. With the in-process or the Redis broker, once the context is cancelled, and from every
  state that a server whose queues all have a processor can be in: the goroutines can only
  take a bounded number of steps more (the bound grows with the messages that arrive, in the
  in-process broker, and with those the handled messages enqueue). As long as \<open>Start\<close> has not
  returned, some goroutine can take a step, or, with the in-process broker only, a processor
  is blocked in an \<open>Enqueue\<close> on a full channel; when it has returned, every message taken off
  a queue has been handled. Over Redis, or when no processor has anything left to enqueue,
  there is a run to the return. A processor blocked on a full channel whose consumer has
  ended stays so: then \<open>Start\<close> never returns, whatever happens.
\<close>

theorem shutdown_completes_unless_blocked:
  assumes "k \<noteq> NatsCallback" "\<forall>(q, conc) \<in> set (ord (queues srv)). conc \<noteq> 0"
    and "server_steps k (server_started k ord ds srv) as = Some s" "cancelled s"
  shows "(\<forall>bs t. server_steps k s bs = Some t \<longrightarrow>
        length (filter own bs) \<le> server_weight k s + (\<Sum>a\<leftarrow>bs. extra k a)
      \<and> (if start_returns t then list_all (\<lambda>l. mset (taken l) = mset (handled l)) (runs t)
         else (\<exists>a. own a \<and> server_step k t a \<noteq> None) \<or> k = InProcess \<and> (\<exists>q. sender_blocked t q))
      \<and> (\<forall>q cs u. k = InProcess \<and> sender_blocked t q \<and> consumer_gone t q \<and> server_steps k t cs = Some u
           \<longrightarrow> \<not> start_returns u))
    \<and> (k = RedisLoop \<or> quiet s \<longrightarrow> (\<exists>bs t. server_steps k s bs = Some t \<and> start_returns t))"
proof -
  have inv: "server_inv k s" using server_steps_inv(1) [OF started_inv [of ord srv, OF assms(2)] assms(3)] .
  have "length (filter own bs) \<le> server_weight k s + (\<Sum>a\<leftarrow>bs. extra k a)
      \<and> (if start_returns t then list_all (\<lambda>l. mset (taken l) = mset (handled l)) (runs t)
         else (\<exists>a. own a \<and> server_step k t a \<noteq> None) \<or> k = InProcess \<and> (\<exists>q. sender_blocked t q))"
    if t: "server_steps k s bs = Some t" for bs t
  proof -
    have t': "server_inv k t" "cancelled t"
      using server_steps_inv(1) [OF inv t] cancelled_stays [OF assms(4) t] by simp_all
    then have "list_all (\<lambda>l. mset (taken l) = mset (handled l)) (runs t)" if "start_returns t"
      using that ended_all_handled [OF assms(1)] by (auto simp: server_inv_def start_returns_def list_all_iff)
    moreover have "length (filter own bs) \<le> server_weight k s + (\<Sum>a\<leftarrow>bs. extra k a)"
      using server_steps_weight [OF assms(1) inv assms(4) t] by simp
    ultimately show ?thesis using server_progress [OF assms(1) t'] by auto
  qed
  moreover have "\<not> start_returns u"
    if "k = InProcess" "sender_blocked t q" "consumer_gone t q" "server_steps k t cs = Some u" for t q cs u
    using that blocked_held_up held_up_never_returns by metis
  ultimately show ?thesis using shutdown_exists [OF assms(1) inv assms(4)] by blast
qed

definition ex_one_queue :: im_server where
  "ex_one_queue = ex_server\<lparr>queues := [(''q'', 1)]\<rparr>"

lemma arrivals:
  "length (waiting s q) + n \<le> chan_cap \<Longrightarrow>
   server_steps InProcess s (replicate n (Arrive q m)) =
     Some (s\<lparr>waiting := (waiting s)(q := waiting s q @ replicate n m)\<rparr>)"
proof (induction n arbitrary: s)
  case 0
  then show ?case by simp
next
  case (Suc n)
  let ?t = "s\<lparr>waiting := (waiting s)(q := waiting s q @ [m])\<rparr>"
  have "server_step InProcess s (Arrive q m) = Some ?t"
    using Suc.prems by (simp add: broker_put_def inprocess_put_def)
  moreover have "server_steps InProcess ?t (replicate n (Arrive q m)) =
      Some (?t\<lparr>waiting := (waiting ?t)(q := waiting ?t q @ replicate n m)\<rparr>)"
    using Suc.prems by (intro Suc.IH) simp
  ultimately show ?case by (simp add: fun_upd_def cong: if_cong)
qed

text \<open>
  A server with one queue and one processor. Over Redis, cancelled inside \<open>BLPop\<close>, it can
  return. In process, the processor handles a message that fails and will be retried, the
  channel fills up, and the consumer ends: the retry cannot be enqueued, and \<open>Start\<close> hangs.
\<close>

theorem shutdown_completes_unless_blocked_witness:
  "(\<exists>s bs t. server_steps RedisLoop (server_started RedisLoop rev (\<lambda>_. []) ex_one_queue)
        [Arrive ''q'' ''m'', Consume 0 Poll, Cancel, Consume 0 Take] = Some s
      \<and> server_steps RedisLoop s bs = Some t \<and> start_returns t
      \<and> list_all (\<lambda>l. mset (taken l) = mset (handled l)) (runs t))
   \<and> (\<exists>s. server_steps InProcess (server_started InProcess rev (\<lambda>_. []) ex_one_queue)
        ([Arrive ''q'' ''m'', Consume 0 Take, Process 0 (Hand 0 [(''q'', ''m'')])]
          @ replicate 100 (Arrive ''q'' ''m'') @ [Cancel, Consume 0 Stop]) = Some s
      \<and> (\<forall>cs u. server_steps InProcess s cs = Some u \<longrightarrow> \<not> start_returns u))"
proof
  have some: "\<forall>(q, conc) \<in> set (rev (queues ex_one_queue)). conc \<noteq> 0" by (simp add: ex_one_queue_def)
  obtain s where s: "server_steps RedisLoop (server_started RedisLoop rev (\<lambda>_. []) ex_one_queue)
      [Arrive ''q'' ''m'', Consume 0 Poll, Cancel, Consume 0 Take] = Some s" "cancelled s"
    by (simp add: server_started_def new_run_def ex_one_queue_def broker_put_def redis_put_def consume_defs)
  have "RedisLoop \<noteq> NatsCallback" by simp
  note all = shutdown_completes_unless_blocked [OF this some s]
  then obtain bs t where "server_steps RedisLoop s bs = Some t" "start_returns t" by blast
  with conjunct1 [OF all] s(1) show "\<exists>s bs t. server_steps RedisLoop
      (server_started RedisLoop rev (\<lambda>_. []) ex_one_queue)
      [Arrive ''q'' ''m'', Consume 0 Poll, Cancel, Consume 0 Take] = Some s
      \<and> server_steps RedisLoop s bs = Some t \<and> start_returns t
      \<and> list_all (\<lambda>l. mset (taken l) = mset (handled l)) (runs t)" by metis
  let ?start = "server_started InProcess rev (\<lambda>_. []) ex_one_queue"
  let ?fill = "replicate 100 (Arrive ''q'' ''m'')"
  obtain s1 where s1: "server_steps InProcess ?start
      [Arrive ''q'' ''m'', Consume 0 Take, Process 0 (Hand 0 [(''q'', ''m'')])] = Some s1"
    "waiting s1 ''q'' = []" "map (\<lambda>l. (qname l, consumer l, processors l)) (runs s1) =
       [(''q'', Listening, [Working ''m'' [(''q'', ''m'')]])]"
    by (simp add: server_started_def new_run_def ex_one_queue_def broker_put_def inprocess_put_def consume_defs
        chan_cap_def offered_def accepted_def)
  then obtain l where l: "runs s1 = [l]" "qname l = ''q''" "consumer l = Listening"
      "processors l = [Working ''m'' [(''q'', ''m'')]]"
    by (auto simp: map_eq_Cons_conv)
  define s2 where "s2 = s1\<lparr>waiting := (waiting s1)(''q'' := replicate 100 ''m'')\<rparr>"
  define s3 where "s3 = s2\<lparr>cancelled := True, runs := [returns_closing l]\<rparr>"
  have "server_steps InProcess s1 ?fill = Some s2"
    using arrivals [of s1 "''q''" 100 "''m''"] s1(2) by (simp add: s2_def chan_cap_def)
  moreover have "server_steps InProcess s2 [Cancel, Consume 0 Stop] = Some s3"
    using l by (simp add: s2_def s3_def consume_defs fun_upd_idem)
  ultimately have s3: "server_steps InProcess ?start
      ([Arrive ''q'' ''m'', Consume 0 Take, Process 0 (Hand 0 [(''q'', ''m'')])] @ ?fill @ [Cancel, Consume 0 Stop]) = Some s3"
    using server_steps_append [OF s1(1)] server_steps_append by metis
  have "cancelled s3" "sender_blocked s3 ''q''" "consumer_gone s3 ''q''"
    by (simp_all add: s3_def s2_def sender_blocked_def consumer_gone_def chan_cap_def returns_closing_def l)
  moreover have "InProcess \<noteq> NatsCallback" by simp
  ultimately have "\<forall>cs u. server_steps InProcess s3 cs = Some u \<longrightarrow> \<not> start_returns u"
    using conjunct1 [OF shutdown_completes_unless_blocked [OF _ some s3]] by (metis server_steps.simps(1))
  with s3 show "\<exists>s. server_steps InProcess ?start
      ([Arrive ''q'' ''m'', Consume 0 Take, Process 0 (Hand 0 [(''q'', ''m'')])] @ ?fill @ [Cancel, Consume 0 Stop]) = Some s
      \<and> (\<forall>cs u. server_steps InProcess s cs = Some u \<longrightarrow> \<not> start_returns u)" by blast
qed

text \<open>
  C30. With the NATS broker \<open>Start\<close> never returns: the work channel is not closed, so no
  processor ends, cancelled or not. A subscription that was made outlives the cancellation:
  whenever its callback and a processor are free, a message that arrives is still delivered
  and handled.
\<close>

theorem nats_start_never_returns:
  assumes "\<forall>(q, conc) \<in> set (ord (queues srv)). conc \<noteq> 0" "ord (queues srv) \<noteq> []"
    and "server_steps NatsCallback (server_started NatsCallback ord ds srv) as = Some s"
  shows "\<not> start_returns s
    \<and> (\<forall>l \<in> set (runs s). ProcessorEnded \<notin> set (processors l))
    \<and> (\<forall>i j m. i < length (runs s) \<and> subscribed (runs s ! i) \<and> callback (runs s ! i) = None
        \<and> waiting s (qname (runs s ! i)) = []
        \<and> j < length (processors (runs s ! i)) \<and> processors (runs s ! i) ! j = Waiting
        \<longrightarrow> (\<exists>t. server_steps NatsCallback s [Arrive (qname (runs s ! i)) m, Consume i Take,
                   Process i (Hand j []), Process i (Finish j)] = Some t
              \<and> handled (runs t ! i) = handled (runs s ! i) @ [m]))"
proof -
  have start: "server_inv NatsCallback (server_started NatsCallback ord ds srv)" by (rule started_inv [of ord srv, OF assms(1)])
  have inv: "server_inv NatsCallback s" using server_steps_inv(1) [OF start assms(3)] .
  have "length (runs s) = length (runs (server_started NatsCallback ord ds srv))"
    using shape_length [OF server_steps_inv(2) [OF start assms(3)]] .
  then have some: "runs s \<noteq> []" using assms(2) by (auto simp: server_started_def)
  have alive: "ProcessorEnded \<notin> set (processors l)" "processors l \<noteq> []" if "l \<in> set (runs s)" for l
    using inv that by (auto simp: server_inv_def list_all_iff queue_inv_def)
  have "\<not> queue_ended (hd (runs s))"
    using alive [of "hd (runs s)"] some by (cases "processors (hd (runs s))") (auto simp: queue_ended_def)
  then have "\<not> start_returns s" using some by (auto simp: start_returns_def list_all_iff)
  moreover have "\<exists>t. server_steps NatsCallback s [Arrive (qname (runs s ! i)) m, Consume i Take,
        Process i (Hand j []), Process i (Finish j)] = Some t
      \<and> handled (runs t ! i) = handled (runs s ! i) @ [m]"
    if h: "i < length (runs s)" "subscribed (runs s ! i)" "callback (runs s ! i) = None"
      "waiting s (qname (runs s ! i)) = []"
      "j < length (processors (runs s ! i))" "processors (runs s ! i) ! j = Waiting" for i j m
  proof -
    have "\<forall>x. consumer (runs s ! i) \<noteq> Sending x"
      using server_invD [OF inv h(1)] by (auto simp: queue_inv_def)
    from nats_delivers [OF h(1) refl refl h(2-4) this h(5,6)] show ?thesis .
  qed
  ultimately show ?thesis using alive(1) by blast
qed

theorem nats_start_never_returns_witness:
  "\<exists>s. server_steps NatsCallback (server_started NatsCallback rev (\<lambda>_. []) ex_one_queue)
        [OnCron CheckContext, Consume 0 Subscribed, Cancel, Consume 0 Stop, OnCron StopCron, OnCron JobsEnded] = Some s
    \<and> cron s = CronEnded \<and> map consumer (runs s) = [ConsumerEnded] \<and> \<not> start_returns s
    \<and> (\<exists>t. server_steps NatsCallback s [Arrive ''q'' ''m'', Consume 0 Take, Process 0 (Hand 0 []), Process 0 (Finish 0)]
           = Some t \<and> handled (runs t ! 0) = [''m''])"
proof -
  have some: "\<forall>(q, conc) \<in> set (rev (queues ex_one_queue)). conc \<noteq> 0" "rev (queues ex_one_queue) \<noteq> []"
    by (simp_all add: ex_one_queue_def)
  obtain s where s: "server_steps NatsCallback (server_started NatsCallback rev (\<lambda>_. []) ex_one_queue)
      [OnCron CheckContext, Consume 0 Subscribed, Cancel, Consume 0 Stop, OnCron StopCron, OnCron JobsEnded] = Some s"
    and st: "cron s = CronEnded" "map consumer (runs s) = [ConsumerEnded]" "length (runs s) = 1"
      "subscribed (runs s ! 0)" "qname (runs s ! 0) = ''q''" "waiting s ''q'' = []"
      "callback (runs s ! 0) = None" "handled (runs s ! 0) = []" "processors (runs s ! 0) = [Waiting]"
    by (simp add: server_started_def new_run_def ex_one_queue_def consume_defs)
  have free: "0 < length (runs s) \<and> subscribed (runs s ! 0) \<and> callback (runs s ! 0) = None
      \<and> waiting s (qname (runs s ! 0)) = []
      \<and> 0 < length (processors (runs s ! 0)) \<and> processors (runs s ! 0) ! 0 = Waiting"
    by (simp add: st)
  note never = nats_start_never_returns [OF some s]
  obtain t where "server_steps NatsCallback s [Arrive (qname (runs s ! 0)) ''m'', Consume 0 Take,
        Process 0 (Hand 0 []), Process 0 (Finish 0)] = Some t"
    "handled (runs t ! 0) = handled (runs s ! 0) @ [''m'']"
    using conjunct2 [OF conjunct2 [OF never]] free by blast
  then show ?thesis using conjunct1 [OF never] s st by auto
qed

end
