(* ===== verification/Spec2Isabelle.thy ===== *)
theory Spec2Isabelle
  imports Job_Properties Chain_Properties Group_Properties Server_Properties InMemory_Properties
    Broker_Interleaving Chain_Heap Redis_Store_Properties Redis_Chain_Properties
    Redis_Delayed_Properties Nats_Properties Lifecycle_Properties
begin

text \<open>
  A verification library for Tasqueue, a job queue in Go.

  \<^bold>\<open>The program.\<close> A \<open>Server\<close> (\<open>server.go\<close>) holds a \<open>Broker\<close>, which carries encoded job
  messages in named queues, and a \<open>Results\<close> store, a key-value store for the messages with
  their statuses, for the results that handlers save, and for the messages of chains and
  groups (\<open>interfaces.go\<close>). \<open>Enqueue\<close> (\<open>jobs.go\<close>) stores a job's message as queued and gives it
  to the broker. For each queue a consumer takes messages off the broker, and processors
  (\<open>process\<close>, \<open>execJob\<close>) decode them, run the task's handler, and then retry the job, or
  enqueue its \<open>OnError\<close> or \<open>OnSuccess\<close> jobs and store its final status. A chain (\<open>chains.go\<close>)
  is a list of jobs linked through \<open>OnSuccess\<close>; a group (\<open>groups.go\<close>) is a set of jobs with
  one status. \<open>brokers\<close> and \<open>results\<close> have three implementations of each interface.

  \<^bold>\<open>The theories and the code they model.\<close>
  \<^item> \<open>Go_Prelude\<close>: errors, the outcomes of calls (a value, an error, a panic, no return),
    Go maps and their iteration order, signed 64-bit arithmetic, the verb \<open>%d\<close>.
    \<open>Go_Float\<close>: the conversion of a 64-bit integer to a double, and \<open>UnixNano\<close>. \<open>Go_UTF8\<close>: the
    range over the runes of a string.
  \<^item> \<open>Tasqueue_Types\<close>: the structs and constants of the four root files.
  \<^item> \<open>Tasqueue_Interfaces\<close>: \<open>Results\<close> and \<open>Broker\<close> as records of their methods; the external
    packages (\<open>uuid\<close>, \<open>cron\<close>, \<open>msgpack\<close>, the clock, the iteration order) as the record \<open>ext\<close>,
    a parameter everywhere; the state \<open>world\<close>; and the contracts as locales:
    \<open>results_store\<close> and its extension \<open>reliable_store\<close>, \<open>broker_contract\<close> and its extension
    \<open>line_broker\<close>, in which a queue is a line that messages join in an order the broker chooses.
  \<^item> \<open>Jobs\<close> (\<open>jobs.go\<close>, and the status and result methods of \<open>server.go\<close>), \<open>Server_Exec\<close>
    (\<open>process\<close>, \<open>execJob\<close>, \<open>retryJob\<close>), \<open>Chains\<close>, \<open>Job_Groups\<close>, \<open>Server_Registry\<close> (\<open>NewServer\<close>,
    \<open>RegisterTask\<close>, \<open>Start\<close>, \<open>GetTasks\<close>, \<open>GetPending\<close> and its variants): one definition for each
    function, named as in the code, on method tables as the code is on interfaces.
  \<^item> \<open>Job_System\<close>, \<open>Exec_System\<close>, \<open>Chain_System\<close>, \<open>Group_System\<close>: these operations on any
    reliable store and line broker (the locale \<open>job_system\<close>), each shown
    equal to an explicit new state, then composed into turns of a worker (\<open>work_queue\<close>).
  \<^item> \<open>InMemory_Results\<close>, \<open>InMemory_Broker\<close> (\<open>results/in-memory\<close>, \<open>brokers/in-memory\<close>): the
    methods, their invariants, and the interpretation of the contracts;
    \<open>InMemory_System\<close> interprets \<open>job_system\<close> on the two together.
  \<^item> \<open>Broker_Interleaving\<close>: the in-process broker cut at its lock and channel operations, as a
    step relation over any number of goroutines.
  \<^item> \<open>Server_Lifecycle\<close>: the goroutines that \<open>Start\<close> launches (\<open>startCronScheduler\<close>, \<open>consume\<close>,
    the loop of \<open>process\<close>) as steps over the work channel, from the start to the return, with
    \<open>Consume\<close> and \<open>Enqueue\<close> of each of the three brokers (\<open>brokers\<close>) as functions of their own.
  \<^item> \<open>Chain_Heap\<close>: the loop of \<open>NewChain\<close> over a memory of jobs whose \<open>OnSuccess\<close> are slices,
    windows on backing arrays to which \<open>append\<close> writes in place while there is capacity.
  \<^item> \<open>Redis_Client\<close>: the Redis client and the server behind it as a parameter: a record of
    calls, and what is relied on of them as the locales \<open>redis_server\<close> (a command that
    succeeds has its documented effect, one that fails has none) and \<open>redis_up\<close> (a server that
    answers). \<open>Redis_Broker\<close> and \<open>Redis_Results\<close> (\<open>brokers/redis\<close>, \<open>results/redis\<close>): the methods and
    the turns of the loops, with sublocale relations to the contracts: the broker is a line
    broker, last in first out. \<open>Redis_System\<close>: the two together, each on a database of its own
    as a \<open>job_system\<close>, and on a database that they share. \<open>Redis_Scheduled\<close>: runs of the
    scheduler's turns, alone and with other pollers. \<open>Reference_Redis\<close>: an executable server.
  \<^item> \<open>Nats_Client\<close>: the NATS client as a parameter, with the laws of its key-value store as the
    locales \<open>nats_kv\<close> and \<open>nats_kv_up\<close>. \<open>Nats_Broker\<close> and \<open>Nats_Results\<close> (\<open>brokers/nats-js\<close>,
    \<open>results/nats-js\<close>): the methods; \<open>Nats_System\<close>: the server over them, and the list of
    tasks. \<open>Reference_Nats\<close>: an executable server.
  \<^item> \<open>Broker_Runs\<close>: sequences of calls on a broker and their answers.
  \<^item> \<open>Reference_Ext\<close>: an executable instance of the external packages, with lossless codecs,
    on which the examples run.

  \<^bold>\<open>The properties.\<close> \<open>Job_Properties\<close> (C1 to C6): what enqueueing leaves; a job that fails
  every time is tried exactly once more than it has retries; success hands over to the
  successors, and what happens without a saved result or on cancellation.
  \<open>Chain_Properties\<close> (C7 to C12): building a chain, its run from end to end, what \<open>GetChain\<close>
  reports and exactly when it returns. \<open>Group_Properties\<close> (C13 to C16): enqueueing a group,
  in full or in part, and the status of a group for any iteration order.
  \<open>Server_Properties\<close> (C17 to C20): tasks, queues, workers and the inspection of pending jobs.
  \<open>InMemory_Properties\<close> (C21, C23 to C25): the broker refines a map of lists; \<open>DeleteJob\<close>, and
  the store's lists; messages that cannot be processed; the times of a recurring job.
  \<open>Redis_Delayed_Properties\<close> (C22): a job with an ETA, from \<open>Enqueue\<close> to its end.
  \<open>Broker_Interleaving\<close> (C26, C27): the pending list under any schedule, and two races.
  \<open>Lifecycle_Properties\<close> (C28, C30): whether \<open>Start\<close> returns after a cancellation, by broker,
  and when a processor is blocked for good.
  \<open>Chain_Heap\<close> (C29): the loop over slices refines the functional one, when none has spare
  capacity in an array that another uses; and what happens when two do.
  \<open>Redis_Properties\<close> (C31 to C34): the types of the keys, the broker refines a map of stacks,
  and the promotion of scheduled messages. \<open>Redis_Store_Properties\<close> (C35, C36): pipes, and the
  lists of finished jobs. \<open>Redis_Chain_Properties\<close> (C37): a chain from end to end.
  \<open>Nats_Properties\<close> (C38 to C40): what the NATS store refuses, and its list of tasks.

  \<^bold>\<open>Choices.\<close> A handler or callback is a function of the world. Which branch of the
  \<open>select\<close> in \<open>execJob\<close> is taken is an argument (\<open>selected\<close>); a handler that is overtaken by
  its context has had some effect, also an argument, and what it does after that is not
  followed. The worker \<open>work_queue\<close> takes a list of these, one for each message: its length
  is the bound on the number of turns, and the properties say how many turns are enough.
  A call that does not return is an outcome (\<open>Diverge\<close>): a send on a full channel, and the
  loop of \<open>GetChain\<close>, which is a partial function with a theorem on when it returns. A call
  of \<open>GetChain\<close> or \<open>GetGroup\<close> reads one state of the store. In \<open>Server_Lifecycle\<close> the handling of
  a message is the list of the messages it enqueues, chosen when the message is received,
  one step each, which can block, and a step at its end; so a handler is taken to return
  (after a cancellation \<open>execJob\<close> does not wait for it), and a panic, which ends the whole
  process, is left out. The bound on its steps is a weight: a step lowers it, a message that
  arrives or that a processor is going to enqueue raises it by a constant. The growth of
  \<open>append\<close> beyond what it needs is a parameter. Retry counts are 32-bit words,
  offsets and limits 64-bit words.

  \<^bold>\<open>Hypotheses on code outside the repository.\<close> \<open>codec_ok\<close>: \<open>msgpack\<close> encodes every message
  and decoding gives it back. \<open>range_of\<close>: a range over a map visits each entry once. For C25:
  a cron schedule's next time is later than the given one. \<open>Reference_Ext\<close> meets them.
  \<open>redis_up\<close> and \<open>nats_kv\<close>, \<open>nats_kv_up\<close>: the documented effect and errors of the commands used,
  among them that a key of the NATS store has only the characters \<open>[-/_=.a-zA-Z0-9]\<close>;
  \<open>Reference_Redis\<close> and \<open>Reference_Nats\<close> meet them.

  \<^bold>\<open>Not modelled.\<close> Tracing and logging, which do not affect the state; the jobs of the cron
  scheduler, since the code adds none; the client contexts other than the job's;
  the programs under \<open>examples\<close>. Of the Redis stores: the connection options, which are passed
  on to the client, and the removal of a value when its expiry has passed. Of the NATS
  broker: what the server does with published messages, of which nothing is assumed.
\<close>

end
